(* ===== verification/Prelude.thy ===== *)
theory Prelude
  imports Complex_Main "HOL-Library.AList" "HOL-Library.Char_ord" "HOL-Library.List_Lexorder"
begin

text \<open>
  The shared layer of the development.

  \<^item> Results: a Python function that may raise is a function into \<open>'e + 'a\<close>, \<open>Inl\<close> for the
    exception; \<open>bind_res\<close> sequences two of them and \<open>each\<close> is a \<open>for\<close> loop whose body only
    raises.
  \<^item> Durable programs: a program that writes files is a function from the disk to the list of
    disks it publishes, one per atomic replacement or external effect, and its result. Every
    prefix of that list is what a process that dies leaves behind, so "the process may die
    here" is part of the semantics and not of a separate model. \<open>safe\<close> is the proof rule
    format: precondition, postcondition, and a condition that holds after every single step.
  \<^item> Text: a Python string is the list of the bytes of its UTF-8 form, so equality, ASCII
    patterns and concatenation are those of lists; \<open>ulen\<close> is Python's \<open>len\<close>, the number of code
    points.
  \<^item> Dictionaries: association lists in insertion order, with \<open>map_of\<close> to read,
    \<open>AList.update\<close> to assign (it keeps the position of a present key and appends a new one)
    and \<open>AList.delete\<close> to pop.
\<close>

section \<open>Fact collections\<close>

named_theorems safe_intros \<open>rules that decompose a durable program\<close>
named_theorems text_defs \<open>character classes and patterns\<close>

section \<open>Results\<close>

text \<open>The exceptions of the language and its library that the programs do not convert.\<close>

datatype pyexc = TypeError | AttributeError | KeyError | ValueError | OSError | StopIteration | HTTPException

definition bind_res :: "'e + 'a \<Rightarrow> ('a \<Rightarrow> 'e + 'b) \<Rightarrow> 'e + 'b" where
  "bind_res m f = (case m of Inl e \<Rightarrow> Inl e | Inr a \<Rightarrow> f a)"

lemma bind_res_simps [simp]:
  "bind_res (Inl e) f = Inl e"
  "bind_res (Inr a) f = f a"
  by (simp_all add: bind_res_def)

lemma bind_res_Inr: "bind_res m f = Inr b \<longleftrightarrow> (\<exists>a. m = Inr a \<and> f a = Inr b)"
  by (cases m) auto

lemma bind_res_Inl: "bind_res m f = Inl e \<longleftrightarrow> m = Inl e \<or> (\<exists>a. m = Inr a \<and> f a = Inl e)"
  by (cases m) auto

lemma bind_res_cong [fundef_cong]:
  "m = m' \<Longrightarrow> (\<And>a. m' = Inr a \<Longrightarrow> f a = g a) \<Longrightarrow> bind_res m f = bind_res m' g"
  by (cases m') auto

lemma if_Inl_eq_Inr: "(if b then Inl e else m) = Inr a \<longleftrightarrow> \<not> b \<and> m = Inr a"
  by simp

lemma case_option_eq_Inr:
  "(case x of None \<Rightarrow> Inl e | Some y \<Rightarrow> f y) = Inr a \<longleftrightarrow> (\<exists>y. x = Some y \<and> f y = Inr a)"
  by (cases x) auto

lemmas res_iffs = bind_res_Inr if_Inl_eq_Inr case_option_eq_Inr

definition refuse_if :: "bool \<Rightarrow> 'e \<Rightarrow> 'e + unit" where
  "refuse_if b e = (if b then Inl e else Inr ())"

lemma refuse_if_simps [simp]:
  "refuse_if b e = Inr u \<longleftrightarrow> \<not> b"
  "refuse_if b e = Inl e' \<longleftrightarrow> b \<and> e' = e"
  by (auto simp: refuse_if_def)

lemma refuse_if_eval: "refuse_if True e = Inl e" "refuse_if False e = Inr ()"
  by (simp_all add: refuse_if_def)

fun each :: "('a \<Rightarrow> 'e + unit) \<Rightarrow> 'a list \<Rightarrow> 'e + unit" where
  "each f [] = Inr ()"
| "each f (x # xs) = bind_res (f x) (\<lambda>_. each f xs)"

lemma each_Inr: "each f xs = Inr u \<longleftrightarrow> (\<forall>x \<in> set xs. f x = Inr ())"
  by (induction xs) (auto simp: bind_res_Inr)

lemma each_Inl: "each f xs = Inl e \<Longrightarrow> \<exists>x \<in> set xs. f x = Inl e"
  by (induction xs) (auto simp: bind_res_Inl)

fun map_res :: "('a \<Rightarrow> 'e + 'b) \<Rightarrow> 'a list \<Rightarrow> 'e + 'b list" where
  "map_res f [] = Inr []"
| "map_res f (x # xs) = bind_res (f x) (\<lambda>y. bind_res (map_res f xs) (\<lambda>ys. Inr (y # ys)))"

lemma map_res_length: "map_res f xs = Inr ys \<Longrightarrow> length ys = length xs"
  by (induction xs arbitrary: ys) (auto simp: bind_res_Inr)

section \<open>Durable programs\<close>

type_synonym ('s, 'e, 'a) dio = "'s \<Rightarrow> 's list \<times> ('e + 'a)"

abbreviation steps :: "('s, 'e, 'a) dio \<Rightarrow> 's \<Rightarrow> 's list" where
  "steps m s \<equiv> fst (m s)"

abbreviation outcome :: "('s, 'e, 'a) dio \<Rightarrow> 's \<Rightarrow> 'e + 'a" where
  "outcome m s \<equiv> snd (m s)"

definition after :: "('s, 'e, 'a) dio \<Rightarrow> 's \<Rightarrow> 's" where
  "after m s = last (s # steps m s)"

definition ret :: "'a \<Rightarrow> ('s, 'e, 'a) dio" where
  "ret a = (\<lambda>s. ([], Inr a))"

definition fail :: "'e \<Rightarrow> ('s, 'e, 'a) dio" where
  "fail e = (\<lambda>s. ([], Inl e))"

definition look :: "('s \<Rightarrow> 'e + 'a) \<Rightarrow> ('s, 'e, 'a) dio" where
  "look f = (\<lambda>s. ([], f s))"

definition publish :: "('s \<Rightarrow> 's) \<Rightarrow> ('s, 'e, unit) dio" where
  "publish f = (\<lambda>s. ([f s], Inr ()))"

definition seq :: "('s, 'e, 'a) dio \<Rightarrow> ('a \<Rightarrow> ('s, 'e, 'b) dio) \<Rightarrow> ('s, 'e, 'b) dio" where
  "seq m f = (\<lambda>s. case m s of
      (t, Inl e) \<Rightarrow> (t, Inl e)
    | (t, Inr a) \<Rightarrow> (case f a (last (s # t)) of (t', r) \<Rightarrow> (t @ t', r)))"

definition only_if :: "bool \<Rightarrow> ('s, 'e, unit) dio \<Rightarrow> ('s, 'e, unit) dio" where
  "only_if b m = (if b then m else ret ())"

text \<open>\<open>try: m except ...: h\<close>. What \<open>m\<close> published stays published.\<close>

definition handle :: "('s, 'e, 'a) dio \<Rightarrow> ('e \<Rightarrow> ('s, 'f, 'a) dio) \<Rightarrow> ('s, 'f, 'a) dio" where
  "handle m h = (\<lambda>s. case m s of
      (t, Inr a) \<Rightarrow> (t, Inr a)
    | (t, Inl e) \<Rightarrow> (case h e (last (s # t)) of (t', r) \<Rightarrow> (t @ t', r)))"

fun for_each :: "('a \<Rightarrow> ('s, 'e, unit) dio) \<Rightarrow> 'a list \<Rightarrow> ('s, 'e, unit) dio" where
  "for_each f [] = ret ()"
| "for_each f (x # xs) = seq (f x) (\<lambda>_. for_each f xs)"

text \<open>
  \<open>safe P m Q C\<close>: started where \<open>P\<close> holds, every disk that \<open>m\<close> publishes satisfies \<open>C\<close>, and if
  \<open>m\<close> returns \<open>a\<close> then \<open>Q a\<close> holds of the disk it leaves.
\<close>

definition safe ::
  "('s \<Rightarrow> bool) \<Rightarrow> ('s, 'e, 'a) dio \<Rightarrow> ('a \<Rightarrow> 's \<Rightarrow> bool) \<Rightarrow> ('s \<Rightarrow> bool) \<Rightarrow> bool" where
  "safe P m Q C \<longleftrightarrow> (\<forall>s. P s \<longrightarrow> (\<forall>t \<in> set (steps m s). C t)
      \<and> (\<forall>a. outcome m s = Inr a \<longrightarrow> Q a (after m s)))"

lemma safe_stepsD: "safe P m Q C \<Longrightarrow> P s \<Longrightarrow> t \<in> set (steps m s) \<Longrightarrow> C t"
  by (simp add: safe_def)

lemma safe_outcomeD: "safe P m Q C \<Longrightarrow> P s \<Longrightarrow> outcome m s = Inr a \<Longrightarrow> Q a (after m s)"
  by (simp add: safe_def)

lemma safe_ret [safe_intros]: "(\<And>s. P s \<Longrightarrow> Q a s) \<Longrightarrow> safe P (ret a) Q C"
  by (simp add: safe_def ret_def after_def)

lemma safe_fail [safe_intros]: "safe P (fail e) Q C"
  by (simp add: safe_def fail_def)

lemma safe_look [safe_intros]:
  "(\<And>s a. P s \<Longrightarrow> f s = Inr a \<Longrightarrow> Q a s) \<Longrightarrow> safe P (look f) Q C"
  by (simp add: safe_def look_def after_def)

lemma safe_publish [safe_intros]:
  "(\<And>s. P s \<Longrightarrow> C (f s)) \<Longrightarrow> (\<And>s. P s \<Longrightarrow> Q () (f s)) \<Longrightarrow> safe P (publish f) Q C"
  by (simp add: safe_def publish_def after_def)

lemma last_Cons_append: "last (s # t @ t') = last (last (s # t) # t')"
  by (cases t' rule: rev_cases) auto

lemma safe_seq:
  assumes "safe P m R C" and "\<And>a. safe (R a) (f a) Q C"
  shows "safe P (seq m f) Q C"
  unfolding safe_def
proof (intro allI impI)
  fix s assume "P s"
  obtain t r where m: "m s = (t, r)" by fastforce
  with assms(1) \<open>P s\<close> have C: "\<forall>d \<in> set t. C d" and R: "\<And>a. r = Inr a \<Longrightarrow> R a (last (s # t))"
    by (auto simp: safe_def after_def)
  show "(\<forall>d \<in> set (steps (seq m f) s). C d)
      \<and> (\<forall>a. outcome (seq m f) s = Inr a \<longrightarrow> Q a (after (seq m f) s))"
  proof (cases r)
    case (Inl e)
    with C m show ?thesis by (simp add: seq_def)
  next
    case (Inr a)
    obtain t' r' where f: "f a (last (s # t)) = (t', r')" by fastforce
    from R [OF Inr] assms(2) [of a] f
    have "\<forall>d \<in> set t'. C d" "\<And>b. r' = Inr b \<Longrightarrow> Q b (last (last (s # t) # t'))"
      by (auto simp: safe_def after_def)
    with C m Inr f show ?thesis
      by (auto simp: seq_def after_def last_Cons_append simp del: last.simps)
  qed
qed

text \<open>
  The rule for \<open>handle\<close> asks for a condition that holds wherever \<open>m\<close> may have stopped: \<open>I\<close>, true at
  the start and after every step.
\<close>

lemma safe_handle:
  assumes m: "safe P m Q C" and I: "safe P m (\<lambda>_ _. True) I" "\<And>s. P s \<Longrightarrow> I s"
    and h: "\<And>e. safe I (h e) Q C"
  shows "safe P (handle m h) Q C"
  unfolding safe_def
proof (intro allI impI)
  fix s assume "P s"
  obtain t r where ms: "m s = (t, r)" by fastforce
  with m \<open>P s\<close> have C: "\<forall>d \<in> set t. C d" and Q: "\<And>a. r = Inr a \<Longrightarrow> Q a (last (s # t))"
    by (auto simp: safe_def after_def)
  from ms I \<open>P s\<close> have "\<forall>d \<in> set t. I d" by (auto simp: safe_def)
  with I(2) [OF \<open>P s\<close>] have Il: "I (last (s # t))" by (cases t rule: rev_cases) auto
  show "(\<forall>d \<in> set (steps (handle m h) s). C d)
      \<and> (\<forall>a. outcome (handle m h) s = Inr a \<longrightarrow> Q a (after (handle m h) s))"
  proof (cases r)
    case (Inr a)
    with C Q ms show ?thesis by (simp add: handle_def after_def)
  next
    case (Inl e)
    obtain t' r' where he: "h e (last (s # t)) = (t', r')" by fastforce
    from h [of e] Il he have "\<forall>d \<in> set t'. C d" "\<And>b. r' = Inr b \<Longrightarrow> Q b (last (last (s # t) # t'))"
      by (auto simp: safe_def after_def)
    with C ms Inl he show ?thesis
      by (auto simp: handle_def after_def last_Cons_append simp del: last.simps)
  qed
qed

lemma safe_if [safe_intros]:
  "(b \<Longrightarrow> safe P m Q C) \<Longrightarrow> (\<not> b \<Longrightarrow> safe P n Q C) \<Longrightarrow> safe P (if b then m else n) Q C"
  by simp

lemma safe_only_if [safe_intros]:
  "(b \<Longrightarrow> safe P m Q C) \<Longrightarrow> (\<And>s. \<not> b \<Longrightarrow> P s \<Longrightarrow> Q () s) \<Longrightarrow> safe P (only_if b m) Q C"
  by (simp add: only_if_def safe_ret)

lemma safe_weaken:
  "safe P' m Q' C' \<Longrightarrow> (\<And>s. P s \<Longrightarrow> P' s) \<Longrightarrow> (\<And>a s. Q' a s \<Longrightarrow> Q a s) \<Longrightarrow> (\<And>s. C' s \<Longrightarrow> C s)
    \<Longrightarrow> safe P m Q C"
  unfolding safe_def by blast

lemma safe_pre_pure: "(F \<Longrightarrow> safe P m Q C) \<Longrightarrow> safe (\<lambda>s. P s \<and> F) m Q C"
  by (auto simp: safe_def)

lemma safe_for_each:
  "(\<And>x. x \<in> set xs \<Longrightarrow> safe P (f x) (\<lambda>_. P) C) \<Longrightarrow> safe P (for_each f xs) (\<lambda>_. P) C"
proof (induction xs)
  case Nil
  show ?case by (simp add: safe_ret)
next
  case (Cons x xs)
  then show ?case by (auto intro: safe_seq)
qed

lemma seq_steps_outcome:
  "outcome m s = Inl e \<Longrightarrow> seq m f s = (steps m s, Inl e)"
  "outcome m s = Inr a \<Longrightarrow>
     seq m f s = (steps m s @ steps (f a) (after m s), outcome (f a) (after m s))"
  by (cases "m s"; auto simp: seq_def after_def split: prod.splits)+

lemma seq_InrE:
  assumes "outcome (seq m f) s = Inr b"
  obtains a where "outcome m s = Inr a" "outcome (f a) (after m s) = Inr b"
    "after (seq m f) s = after (f a) (after m s)"
proof (cases "outcome m s")
  case (Inl e)
  with assms show ?thesis by (simp add: seq_steps_outcome)
next
  case (Inr a)
  with assms that show ?thesis
    by (simp add: seq_steps_outcome after_def last_Cons_append del: last.simps)
qed

lemma seq_step: "m s = (t, Inr a) \<Longrightarrow> seq m f s = (t @ steps (f a) (last (s # t)), outcome (f a) (last (s # t)))"
  by (auto simp: seq_def split: prod.split)

lemma handle_steps: "x \<in> set (steps m s) \<Longrightarrow> x \<in> set (steps (handle m h) s)"
  by (auto simp: handle_def split: prod.splits sum.splits)

lemma seq_assoc: "seq (seq m f) g = seq m (\<lambda>a. seq (f a) g)"
  by (rule ext) (auto simp: seq_def last_Cons_append simp del: last.simps split: prod.split sum.split)

lemma seq_prims [simp]:
  "seq (ret a) f = f a"
  "seq (fail e) g = fail e"
  by (auto simp: seq_def ret_def fail_def fun_eq_iff split: prod.splits)

lemma seq_look: "seq (look g) f s = (case g s of Inl e \<Rightarrow> ([], Inl e) | Inr a \<Rightarrow> f a s)"
  by (auto simp: seq_def look_def split: sum.splits prod.splits)

lemma seq_publish: "seq (publish g) f s = (g s # steps (f ()) (g s), outcome (f ()) (g s))"
  by (auto simp: seq_def publish_def split: prod.splits)

lemma run_prims:
  "ret a s = ([], Inr a)" "fail e s = ([], Inl e)" "look f s = ([], f s)" "publish g s = ([g s], Inr ())"
  by (simp_all add: ret_def fail_def look_def publish_def)

lemma after_prims [simp]:
  "after (ret a) s = s" "after (fail e) s = s" "after (look f) s = s" "after (publish g) s = g s"
  by (simp_all add: after_def run_prims)

lemmas dio_eval = seq_look seq_publish run_prims only_if_def

text \<open>
  \<open>steady R m\<close>: each disk that \<open>m\<close> publishes is related by \<open>R\<close> to the one before it. Unlike \<open>safe\<close>
  it says how the disk moves, and it holds of failing runs and of runs cut short alike.
\<close>

named_theorems steady_intros \<open>rules that decompose a durable program step by step\<close>

definition steady :: "('s \<Rightarrow> 's \<Rightarrow> bool) \<Rightarrow> ('s, 'e, 'a) dio \<Rightarrow> bool" where
  "steady R m \<longleftrightarrow> (\<forall>s. successively R (s # steps m s))"

lemma steadyD: "steady R m \<Longrightarrow> successively R (s # steps m s)"
  by (simp add: steady_def)

lemma successively_join:
  "successively R (s # xs) \<Longrightarrow> successively R (last (s # xs) # ys) \<Longrightarrow> successively R (s # xs @ ys)"
  by (induction xs arbitrary: s) auto

lemma steady_prims [steady_intros]:
  "steady R (ret a)" "steady R (fail e)" "steady R (look f)"
  by (simp_all add: steady_def run_prims)

lemma steady_publish [steady_intros]: "(\<And>s. R s (f s)) \<Longrightarrow> steady R (publish f)"
  by (simp add: steady_def run_prims)

lemma steady_seq [steady_intros]:
  assumes "steady R m" "\<And>a. steady R (f a)"
  shows "steady R (seq m f)"
  unfolding steady_def
proof
  fix s
  show "successively R (s # steps (seq m f) s)"
  proof (cases "outcome m s")
    case (Inl e)
    with assms(1) show ?thesis by (simp add: seq_steps_outcome steady_def)
  next
    case (Inr a)
    then have "steps (seq m f) s = steps m s @ steps (f a) (after m s)" by (simp add: seq_steps_outcome)
    then show ?thesis
      using successively_join [of R s "steps m s", OF _ steadyD [OF assms(2), of "after m s" a, unfolded after_def]]
        steadyD [OF assms(1), of s] by (simp only: after_def)
  qed
qed

lemma steady_handle [steady_intros]:
  assumes "steady R m" "\<And>e. steady R (h e)"
  shows "steady R (handle m h)"
  unfolding steady_def
proof
  fix s
  obtain t r where m: "m s = (t, r)" by fastforce
  show "successively R (s # steps (handle m h) s)"
  proof (cases r)
    case (Inr a)
    with m steadyD [OF assms(1), of s] show ?thesis by (simp add: handle_def)
  next
    case (Inl e)
    obtain t' r' where h: "h e (last (s # t)) = (t', r')" by fastforce
    have "successively R (s # t)" using steadyD [OF assms(1), of s] m by simp
    moreover have "successively R (last (s # t) # t')" using steadyD [OF assms(2), of "last (s # t)" e] h by simp
    ultimately have "successively R (s # t @ t')" by (rule successively_join)
    moreover have "steps (handle m h) s = t @ t'" unfolding handle_def m Inl by (simp add: h [unfolded last.simps])
    ultimately show ?thesis by simp
  qed
qed

lemma steady_if [steady_intros]: "steady R m \<Longrightarrow> steady R n \<Longrightarrow> steady R (if b then m else n)"
  by simp

lemma steady_only_if [steady_intros]: "steady R m \<Longrightarrow> steady R (only_if b m)"
  by (simp add: only_if_def steady_prims)

lemma steady_for_each: "(\<And>x. steady R (f x)) \<Longrightarrow> steady R (for_each f xs)"
  by (induction xs) (auto intro: steady_intros)

lemma steady_after: "steady R m \<Longrightarrow> (\<And>x. R x x) \<Longrightarrow> (\<And>x y z. R x y \<Longrightarrow> R y z \<Longrightarrow> R x z) \<Longrightarrow> R s (after m s)"
proof -
  assume m: "steady R m" and R: "\<And>x. R x x" "\<And>x y z. R x y \<Longrightarrow> R y z \<Longrightarrow> R x z"
  have "successively R (x # xs) \<Longrightarrow> R x (last (x # xs))" for x xs
  proof (induction xs arbitrary: x)
    case (Cons y ys)
    then have "R x y" "R y (last (y # ys))" by auto
    then have "R x (last (y # ys))" by (rule R(2))
    then show ?case by simp
  qed (simp add: R(1))
  with steadyD [OF m, of s] show ?thesis by (simp add: after_def)
qed

text \<open>Where a composed program ends, from where its parts end.\<close>

lemma seq_run:
  "outcome m s = Inr a \<Longrightarrow> outcome (seq m f) s = outcome (f a) (after m s)"
  "outcome m s = Inr a \<Longrightarrow> after (seq m f) s = after (f a) (after m s)"
  "outcome m s = Inl e \<Longrightarrow> outcome (seq m f) s = Inl e"
  "outcome m s = Inl e \<Longrightarrow> after (seq m f) s = after m s"
proof -
  show "outcome m s = Inr a \<Longrightarrow> outcome (seq m f) s = outcome (f a) (after m s)" "outcome m s = Inl e \<Longrightarrow> outcome (seq m f) s = Inl e"
    "outcome m s = Inl e \<Longrightarrow> after (seq m f) s = after m s"
    by (simp_all add: seq_steps_outcome after_def [of "seq m f"] after_def [of m])
  assume "outcome m s = Inr a"
  then have "steps (seq m f) s = steps m s @ steps (f a) (after m s)" by (simp add: seq_steps_outcome)
  then show "after (seq m f) s = after (f a) (after m s)"
    using last_Cons_append [of s "steps m s"] by (simp only: after_def)
qed

lemma look_run:
  "outcome (seq (look g) f) s = (case g s of Inl e \<Rightarrow> Inl e | Inr a \<Rightarrow> outcome (f a) s)"
  "after (seq (look g) f) s = (case g s of Inl e \<Rightarrow> s | Inr a \<Rightarrow> after (f a) s)"
  by (auto simp: after_def seq_look split: sum.split)

lemma publish_run:
  "outcome (seq (publish g) f) s = outcome (f ()) (g s)" "after (seq (publish g) f) s = after (f ()) (g s)"
  by (simp_all add: after_def seq_publish)

lemma handle_run:
  "outcome m s = Inr a \<Longrightarrow> outcome (handle m h) s = Inr a"
  "outcome m s = Inr a \<Longrightarrow> after (handle m h) s = after m s"
  "outcome m s = Inl e \<Longrightarrow> outcome (handle m h) s = outcome (h e) (after m s)"
  "outcome m s = Inl e \<Longrightarrow> after (handle m h) s = after (h e) (after m s)"
proof -
  show "outcome m s = Inr a \<Longrightarrow> outcome (handle m h) s = Inr a" "outcome m s = Inr a \<Longrightarrow> after (handle m h) s = after m s"
    by (cases "m s"; simp add: handle_def after_def)+
  assume e: "outcome m s = Inl e"
  obtain t where m: "m s = (t, Inl e)" using e by (metis prod.collapse)
  obtain t' r where h: "h e (last (s # t)) = (t', r)" by fastforce
  have "handle m h s = (t @ t', r)" unfolding handle_def m using h by simp
  then show "outcome (handle m h) s = outcome (h e) (after m s)" "after (handle m h) s = after (h e) (after m s)"
    using h by (simp_all add: after_def m last_Cons_append del: last.simps)
qed

text \<open>\<open>raises E m\<close>: whatever \<open>m\<close> raises satisfies \<open>E\<close>.\<close>

named_theorems raises_intros \<open>rules for the exceptions of a durable program\<close>

definition raises :: "('e \<Rightarrow> bool) \<Rightarrow> ('s, 'e, 'a) dio \<Rightarrow> bool" where
  "raises E m \<longleftrightarrow> (\<forall>s e. outcome m s = Inl e \<longrightarrow> E e)"

lemma raisesD: "raises E m \<Longrightarrow> outcome m s = Inl e \<Longrightarrow> E e"
  by (simp add: raises_def)

lemma raises_prims [raises_intros]: "raises E (ret a)" "raises E (publish f)"
  by (simp_all add: raises_def run_prims)

lemma raises_fail [raises_intros]: "E e \<Longrightarrow> raises E (fail e)"
  by (simp add: raises_def run_prims)

lemma raises_look [raises_intros]: "(\<And>s e. f s = Inl e \<Longrightarrow> E e) \<Longrightarrow> raises E (look f)"
  by (simp add: raises_def run_prims)

lemma raises_seq [raises_intros]: "raises E m \<Longrightarrow> (\<And>a. raises E (f a)) \<Longrightarrow> raises E (seq m f)"
  unfolding raises_def by (intro allI impI; rename_tac s e; case_tac "outcome m s") (auto simp: seq_steps_outcome)

lemma raises_handle:
  assumes "raises F m" "\<And>e. F e \<Longrightarrow> raises E (h e)"
  shows "raises E (handle m h)"
  using assms unfolding raises_def handle_def
  by (auto split: prod.splits sum.splits) (metis fst_conv snd_conv)+

lemma raises_if [raises_intros]: "raises E m \<Longrightarrow> raises E n \<Longrightarrow> raises E (if b then m else n)"
  by simp

lemma raises_only_if [raises_intros]: "raises E m \<Longrightarrow> raises E (only_if b m)"
  by (simp add: only_if_def raises_prims)

lemma raises_weaken: "raises F m \<Longrightarrow> (\<And>e. F e \<Longrightarrow> E e) \<Longrightarrow> raises E m"
  by (auto simp: raises_def)

section \<open>Text\<close>

abbreviation ord_of :: "char \<Rightarrow> nat" where
  "ord_of c \<equiv> of_char c"

definition ulen :: "string \<Rightarrow> nat" where
  "ulen s = length (filter (\<lambda>c. \<not> (128 \<le> ord_of c \<and> ord_of c < 192)) s)"

definition is_ascii :: "string \<Rightarrow> bool" where
  "is_ascii s = list_all (\<lambda>c. ord_of c < 128) s"

definition is_digit :: "char \<Rightarrow> bool" where [text_defs]:
  "is_digit c \<longleftrightarrow> 48 \<le> ord_of c \<and> ord_of c \<le> 57"

definition is_lower :: "char \<Rightarrow> bool" where [text_defs]:
  "is_lower c \<longleftrightarrow> 97 \<le> ord_of c \<and> ord_of c \<le> 122"

definition is_upper :: "char \<Rightarrow> bool" where [text_defs]:
  "is_upper c \<longleftrightarrow> 65 \<le> ord_of c \<and> ord_of c \<le> 90"

definition is_hex :: "char \<Rightarrow> bool" where [text_defs]:
  \<comment> \<open>the class \<open>[0-9a-f]\<close>\<close>
  "is_hex c \<longleftrightarrow> is_digit c \<or> (97 \<le> ord_of c \<and> ord_of c \<le> 102)"

definition is_alnum :: "char \<Rightarrow> bool" where [text_defs]:
  \<comment> \<open>the class \<open>[A-Za-z0-9]\<close>\<close>
  "is_alnum c \<longleftrightarrow> is_lower c \<or> is_upper c \<or> is_digit c"

definition is_alnum_lower :: "char \<Rightarrow> bool" where [text_defs]:
  \<comment> \<open>the class \<open>[a-z0-9]\<close>\<close>
  "is_alnum_lower c \<longleftrightarrow> is_lower c \<or> is_digit c"

text \<open>
  Patterns of the form \<open>[A][B]{lo,hi}\<close> and \<open>[B]{n}\<close>, always matched against the whole string
  (\<open>fullmatch\<close>, or a pattern that ends in \<open>\Z\<close>).
\<close>

definition head_tail :: "(char \<Rightarrow> bool) \<Rightarrow> (char \<Rightarrow> bool) \<Rightarrow> nat \<Rightarrow> nat \<Rightarrow> string \<Rightarrow> bool" where
  "head_tail a b lo hi s = (case s of [] \<Rightarrow> False
     | c # cs \<Rightarrow> a c \<and> lo \<le> length cs \<and> length cs \<le> hi \<and> list_all b cs)"

definition repeated :: "(char \<Rightarrow> bool) \<Rightarrow> nat \<Rightarrow> nat \<Rightarrow> string \<Rightarrow> bool" where
  "repeated b lo hi s \<longleftrightarrow> lo \<le> length s \<and> length s \<le> hi \<and> list_all b s"

definition hex64 :: "string \<Rightarrow> bool" where
  "hex64 s = repeated is_hex 64 64 s"

definition starts_with :: "string \<Rightarrow> string \<Rightarrow> bool" where
  "starts_with p s \<longleftrightarrow> take (length p) s = p"

definition ends_with :: "string \<Rightarrow> string \<Rightarrow> bool" where
  "ends_with p s \<longleftrightarrow> length p \<le> length s \<and> drop (length s - length p) s = p"

text \<open>\<open>bytes.decode("utf-8")\<close> succeeds on exactly these byte strings.\<close>

fun valid_utf8 :: "string \<Rightarrow> bool" where
  "valid_utf8 [] = True"
| "valid_utf8 (a # xs) =
     (let n = ord_of a; byte = (\<lambda>i. ord_of (xs ! i)); cont = (\<lambda>i. 128 \<le> byte i \<and> byte i < 192) in
      if n < 128 then valid_utf8 xs
      else if 194 \<le> n \<and> n < 224 then 1 \<le> length xs \<and> cont 0 \<and> valid_utf8 (drop 1 xs)
      else if 224 \<le> n \<and> n < 240 then 2 \<le> length xs \<and> cont 0 \<and> cont 1
        \<and> (n = 224 \<longrightarrow> 160 \<le> byte 0) \<and> (n = 237 \<longrightarrow> byte 0 < 160) \<and> valid_utf8 (drop 2 xs)
      else if 240 \<le> n \<and> n < 245 then 3 \<le> length xs \<and> cont 0 \<and> cont 1 \<and> cont 2
        \<and> (n = 240 \<longrightarrow> 144 \<le> byte 0) \<and> (n = 244 \<longrightarrow> byte 0 < 144) \<and> valid_utf8 (drop 3 xs)
      else False)"

lemma valid_utf8_ascii: "is_ascii s \<Longrightarrow> valid_utf8 s"
  by (induction s) (auto simp: is_ascii_def Let_def)

fun join :: "string \<Rightarrow> string list \<Rightarrow> string" where
  "join sep [] = []"
| "join sep [x] = x"
| "join sep (x # y # ys) = x @ sep @ join sep (y # ys)"

text \<open>\<open>s.split(c)\<close> for a one-character separator.\<close>

fun split_on :: "char \<Rightarrow> string \<Rightarrow> string list" where
  "split_on c [] = [[]]"
| "split_on c (x # xs) =
     (if x = c then [] # split_on c xs
      else (case split_on c xs of [] \<Rightarrow> [[x]] | p # ps \<Rightarrow> (x # p) # ps))"

lemma split_on_nonempty [simp]: "split_on c s \<noteq> []"
  by (induction s) (auto split: list.splits)

lemma join_split_on: "join [c] (split_on c s) = s"
proof (induction s)
  case (Cons x s)
  then show ?case by (cases "split_on c s" rule: list.exhaust; cases "tl (split_on c s)") auto
qed simp

text \<open>\<open>s.partition(c)\<close>: before, whether the separator occurs, after.\<close>

fun partition_on :: "char \<Rightarrow> string \<Rightarrow> string \<times> bool \<times> string" where
  "partition_on c [] = ([], False, [])"
| "partition_on c (x # xs) =
     (if x = c then ([], True, xs)
      else (case partition_on c xs of (a, f, b) \<Rightarrow> (x # a, f, b)))"

lemma partition_on_found: "partition_on c s = (a, True, b) \<Longrightarrow> s = a @ c # b \<and> c \<notin> set a"
  by (induction s arbitrary: a b) (auto split: if_splits prod.splits)

text \<open>Decimal numerals: \<open>str(n)\<close> and \<open>int(s)\<close> on a run of ASCII digits.\<close>

definition digit_char :: "nat \<Rightarrow> char" where
  "digit_char d = char_of (48 + d)"

fun show_nat :: "nat \<Rightarrow> string" where
  "show_nat n = (if n < 10 then [digit_char n] else show_nat (n div 10) @ [digit_char (n mod 10)])"

declare show_nat.simps [simp del]

definition show_int :: "int \<Rightarrow> string" where
  "show_int i = (if i < 0 then ''-'' @ show_nat (nat (- i)) else show_nat (nat i))"

definition digit_val :: "char \<Rightarrow> nat" where
  "digit_val c = ord_of c - 48"

definition read_nat :: "string \<Rightarrow> nat" where
  "read_nat s = foldl (\<lambda>n c. 10 * n + digit_val c) 0 s"

lemma ord_digit_char [simp]: "d < 10 \<Longrightarrow> ord_of (digit_char d) = 48 + d"
  by (simp add: digit_char_def)

lemma is_digit_digit_char [simp]: "d < 10 \<Longrightarrow> is_digit (digit_char d)"
  by (simp add: is_digit_def)

lemma digit_val_digit_char [simp]: "d < 10 \<Longrightarrow> digit_val (digit_char d) = d"
  by (simp add: digit_val_def)

lemma read_nat_snoc: "read_nat (s @ [c]) = 10 * read_nat s + digit_val c"
  by (simp add: read_nat_def)

lemma read_nat_single: "read_nat [c] = digit_val c"
  by (simp add: read_nat_def)

lemma read_show_nat [simp]: "read_nat (show_nat n) = n"
proof (induction n rule: show_nat.induct)
  case (1 n)
  show ?case
  proof (cases "n < 10")
    case True
    then show ?thesis by (subst show_nat.simps) (simp add: read_nat_single)
  next
    case False
    with 1 have "read_nat (show_nat (n div 10)) = n div 10" by simp
    with False show ?thesis by (subst show_nat.simps) (simp add: read_nat_snoc)
  qed
qed

lemma digits_show_nat: "list_all is_digit (show_nat n)"
proof (induction n rule: show_nat.induct)
  case (1 n)
  then show ?case by (subst show_nat.simps) simp
qed

lemma show_nat_nonempty [simp]: "show_nat n \<noteq> []"
  by (subst show_nat.simps) simp

lemma show_nat_small: "n < 10 \<Longrightarrow> show_nat n = [digit_char n]"
  by (subst show_nat.simps) simp

lemma length_show_nat: "n < 10 ^ k \<Longrightarrow> 0 < k \<Longrightarrow> length (show_nat n) \<le> k"
proof (induction n arbitrary: k rule: show_nat.induct)
  case (1 n)
  show ?case
  proof (cases "n < 10")
    case True
    with "1.prems" show ?thesis by (subst show_nat.simps) simp
  next
    case False
    from "1.prems"(2) obtain j where j: "k = Suc j" by (cases k) auto
    with "1.prems"(1) False have "0 < j" by (cases j) auto
    with j have k: "k = Suc j" "0 < j" by simp_all
    with "1.prems"(1) have "n div 10 < 10 ^ j" by (simp add: less_mult_imp_div_less mult.commute)
    with "1.IH" False k have "length (show_nat (n div 10)) \<le> j" by blast
    with False k show ?thesis by (subst show_nat.simps) simp
  qed
qed

lemma sum_list_bound: "(\<And>x. x \<in> set xs \<Longrightarrow> f x \<le> (b :: nat)) \<Longrightarrow> sum_list (map f xs) \<le> b * length xs"
  by (induction xs) (auto simp: add_mono)

text \<open>
  \<open>int(s)\<close> on a text of Latin-1 characters, one byte each: surrounding white space, a sign, and
  groups of digits separated by single underscores; more than 4300 digits are refused.
\<close>

definition latin_space :: "char \<Rightarrow> bool" where
  "latin_space c \<longleftrightarrow> ord_of c = 32 \<or> (9 \<le> ord_of c \<and> ord_of c \<le> 13) \<or> (28 \<le> ord_of c \<and> ord_of c \<le> 31)
     \<or> ord_of c = 133 \<or> ord_of c = 160"

definition strip :: "(char \<Rightarrow> bool) \<Rightarrow> string \<Rightarrow> string" where
  "strip space s = rev (dropWhile space (rev (dropWhile space s)))"

definition py_int :: "string \<Rightarrow> int option" where
  "py_int text =
     (let t = strip latin_space text;
          (negative, digits) = (case t of [] \<Rightarrow> (False, []) | c # cs \<Rightarrow>
             if c = CHR ''-'' then (True, cs) else if c = CHR ''+'' then (False, cs) else (False, t));
          groups = split_on (CHR ''_'') digits; n = int (read_nat (concat groups)) in
      if list_all (\<lambda>g. g \<noteq> [] \<and> list_all is_digit g) groups \<and> length (concat groups) \<le> 4300
      then Some (if negative then - n else n) else None)"

section \<open>Files\<close>

text \<open>
  What \<open>fstat\<close> and \<open>read\<close> see of a file. \<open>atomic_write\<close> is the content and metadata that a
  temporary file with mode 0600, written completely, synchronised and renamed over the target,
  leaves under the target's name.
\<close>

datatype fkind = Regular | Symlink | Special

record inode =
  fkind :: fkind
  fmode :: nat
  fuid :: int
  fnlink :: nat
  fbytes :: string

definition atomic_write :: "int \<Rightarrow> string \<Rightarrow> inode" where
  "atomic_write uid bytes = \<lparr>fkind = Regular, fmode = 384, fuid = uid, fnlink = 1, fbytes = bytes\<rparr>"

lemma atomic_write_sel [simp]:
  "fkind (atomic_write u b) = Regular" "fmode (atomic_write u b) = 384" "fuid (atomic_write u b) = u"
  "fnlink (atomic_write u b) = 1" "fbytes (atomic_write u b) = b"
  by (simp_all add: atomic_write_def)

section \<open>Dictionaries\<close>

lemma update_keys: "set (map fst (AList.update k v d)) = insert k (set (map fst d))"
  by (induction d) auto

lemma delete_keys: "set (map fst (AList.delete k d)) = set (map fst d) - {k}"
  by (induction d) auto

lemma map_of_update [simp]: "map_of (AList.update k v d) = (map_of d)(k \<mapsto> v)"
  by (rule AList.update_conv')

lemma map_of_delete [simp]: "map_of (AList.delete k d) = (map_of d)(k := None)"
  by (rule AList.delete_conv')

lemma length_update_new: "map_of d k = None \<Longrightarrow> length (AList.update k v d) = Suc (length d)"
  by (induction d) (auto split: if_splits)

lemma length_delete_le: "length (AList.delete k d) \<le> length d"
  by (induction d) auto

lemma set_delete_subset: "set (AList.delete k d) \<subseteq> set d"
  by (induction d) auto

lemma set_update_subset: "set (AList.update k v d) \<subseteq> insert (k, v) (set d)"
  by (induction d) auto

section \<open>Loops that carry a value or collect results\<close>

fun fold_act :: "('a \<Rightarrow> 'b \<Rightarrow> ('s, 'e, 'b) dio) \<Rightarrow> 'a list \<Rightarrow> 'b \<Rightarrow> ('s, 'e, 'b) dio" where
  "fold_act f [] b = ret b"
| "fold_act f (x # xs) b = seq (f x b) (fold_act f xs)"

fun map_act :: "('a \<Rightarrow> ('s, 'e, 'b) dio) \<Rightarrow> 'a list \<Rightarrow> ('s, 'e, 'b list) dio" where
  "map_act f [] = ret []"
| "map_act f (x # xs) = seq (f x) (\<lambda>y. seq (map_act f xs) (\<lambda>ys. ret (y # ys)))"

text \<open>A computation that reads and writes nothing.\<close>

definition lift :: "'e + 'a \<Rightarrow> ('s, 'e, 'a) dio" where
  "lift r = look (\<lambda>_. r)"

lemma safe_lift [safe_intros]: "(\<And>s a. P s \<Longrightarrow> r = Inr a \<Longrightarrow> Q a s) \<Longrightarrow> safe P (lift r) Q C"
  by (simp add: lift_def safe_look)

lemma steady_lift [steady_intros]: "steady R (lift r)"
  by (simp add: lift_def steady_prims)

lemma raises_lift [raises_intros]: "(\<And>e. r = Inl e \<Longrightarrow> E e) \<Longrightarrow> raises E (lift r)"
  by (simp add: lift_def raises_look)

lemma list_all2_elem: "list_all2 P xs ys \<Longrightarrow> x \<in> set xs \<Longrightarrow> \<exists>y \<in> set ys. P x y"
  by (induction rule: list_all2_induct) auto

text \<open>The rules for these loops carry an invariant of the items, the value or the results, and the disk.\<close>

lemma safe_fold_act:
  assumes "\<And>x xs b. safe (I (x # xs) b) (f x b) (I xs) C"
  shows "safe (I xs b) (fold_act f xs b) (I []) C"
proof (induction xs arbitrary: b)
  case Nil
  show ?case by (simp add: safe_ret)
next
  case (Cons x xs)
  show ?case unfolding fold_act.simps using assms Cons.IH by (rule safe_seq)
qed

lemma safe_map_act:
  assumes "\<And>x pre ys. safe (I pre ys) (f x) (\<lambda>y. I (pre @ [x]) (ys @ [y])) C"
  shows "safe (I pre ys) (map_act f xs) (\<lambda>zs. I (pre @ xs) (ys @ zs)) C"
proof (induction xs arbitrary: pre ys)
  case Nil
  show ?case by (simp add: safe_ret)
next
  case (Cons x xs)
  have "safe (I (pre @ [x]) (ys @ [y])) (seq (map_act f xs) (\<lambda>zs. ret (y # zs))) (\<lambda>zs. I (pre @ x # xs) (ys @ zs)) C" for y
    by (rule safe_seq [OF Cons.IH]) (simp add: safe_ret)
  then show ?case unfolding map_act.simps by (rule safe_seq [OF assms])
qed

end
