(* ===== verification/Json.thy ===== *)
theory Json
  imports Prelude "HOL-Library.Log_Nat" "HOL-Library.Multiset"
begin

text \<open>
  Python values as \<open>json\<close> and \<open>yaml\<close> produce them, and the parts of the \<open>json\<close> module of the
  standard library that the programs use: \<open>json.loads\<close> with its \<open>object_pairs_hook\<close>, and
  \<open>json.dumps\<close> with \<open>separators=(",", ":")\<close>, with and without \<open>sort_keys\<close>.

  A dictionary is its list of items in insertion order. A float is the exact rational value of
  the binary64 number (negative zero and zero are one value), or one of the three non-finite
  numbers that the module reads and writes.

  The parser spends one unit of fuel per nested value or element; \<open>loads_fuel\<close> shows that the
  fuel \<open>loads\<close> starts with is never used up, so \<open>JFuel\<close> is not an outcome of \<open>loads\<close>.
  The main fact is \<open>loads_dumps\<close>: reading back what \<open>dumps\<close> wrote gives the value, for every value
  without floats whose text is ASCII and whose dictionaries have distinct keys.
\<close>

section \<open>Values\<close>

datatype pyfloat = Fin rat | Inf bool | NaN

datatype pv =
    PNone
  | PBool bool
  | PInt int
  | PFloat pyfloat
  | PStr string
  | PList "pv list"
  | PDict "(string \<times> pv) list"

type_synonym dict = "(string \<times> pv) list"

text \<open>\<open>isinstance\<close> and \<open>type(v) is int\<close>; a bool is an instance of int.\<close>

definition is_str :: "pv \<Rightarrow> bool" where
  "is_str v = (case v of PStr _ \<Rightarrow> True | _ \<Rightarrow> False)"

definition is_dict :: "pv \<Rightarrow> bool" where
  "is_dict v = (case v of PDict _ \<Rightarrow> True | _ \<Rightarrow> False)"

definition is_list :: "pv \<Rightarrow> bool" where
  "is_list v = (case v of PList _ \<Rightarrow> True | _ \<Rightarrow> False)"

definition is_bool :: "pv \<Rightarrow> bool" where
  "is_bool v = (case v of PBool _ \<Rightarrow> True | _ \<Rightarrow> False)"

definition type_is_int :: "pv \<Rightarrow> bool" where
  "type_is_int v = (case v of PInt _ \<Rightarrow> True | _ \<Rightarrow> False)"

definition isinstance_int :: "pv \<Rightarrow> bool" where
  "isinstance_int v = (case v of PInt _ \<Rightarrow> True | PBool _ \<Rightarrow> True | _ \<Rightarrow> False)"

text \<open>The payloads, each meaningful after its test; the other cases are never read.\<close>

definition str_of :: "pv \<Rightarrow> string" where
  "str_of v = (case v of PStr s \<Rightarrow> s | _ \<Rightarrow> [])"

definition int_of :: "pv \<Rightarrow> int" where
  "int_of v = (case v of PInt i \<Rightarrow> i | PBool b \<Rightarrow> (if b then 1 else 0) | _ \<Rightarrow> 0)"

definition list_of :: "pv \<Rightarrow> pv list" where
  "list_of v = (case v of PList xs \<Rightarrow> xs | _ \<Rightarrow> [])"

definition dict_of :: "pv \<Rightarrow> dict" where
  "dict_of v = (case v of PDict d \<Rightarrow> d | _ \<Rightarrow> [])"

definition bool_of :: "pv \<Rightarrow> bool" where
  "bool_of v = (case v of PBool b \<Rightarrow> b | _ \<Rightarrow> False)"

lemmas pv_tests = is_str_def is_dict_def is_list_def is_bool_def type_is_int_def
  isinstance_int_def
lemmas pv_payloads = str_of_def int_of_def list_of_def dict_of_def bool_of_def

lemma pv_test_iff:
  "is_str v \<longleftrightarrow> (\<exists>s. v = PStr s)"
  "is_dict v \<longleftrightarrow> (\<exists>d. v = PDict d)"
  "is_list v \<longleftrightarrow> (\<exists>l. v = PList l)"
  "is_bool v \<longleftrightarrow> (\<exists>b. v = PBool b)"
  "type_is_int v \<longleftrightarrow> (\<exists>i. v = PInt i)"
  by (cases v; simp add: pv_tests)+

lemma pv_payload_simps [simp]:
  "is_str (PStr s)" "is_dict (PDict d)" "is_list (PList l)" "is_bool (PBool b)"
  "type_is_int (PInt i)" "isinstance_int (PInt i)"
  "str_of (PStr s) = s" "dict_of (PDict d) = d" "list_of (PList l) = l" "bool_of (PBool b) = b"
  "int_of (PInt i) = i"
  by (simp_all add: pv_tests pv_payloads)

text \<open>
  \<open>v == n\<close> for an int literal \<open>n\<close>: bools and integral floats compare equal to ints, so
  \<open>True == 1\<close> and \<open>1.0 == 1\<close>.
\<close>

definition eq_int :: "pv \<Rightarrow> int \<Rightarrow> bool" where
  "eq_int v n = (case v of PInt i \<Rightarrow> i = n | PBool b \<Rightarrow> (if b then 1 else 0) = n
     | PFloat (Fin q) \<Rightarrow> q = of_int n | _ \<Rightarrow> False)"

lemma eq_int_PInt [simp]: "eq_int (PInt i) n \<longleftrightarrow> i = n"
  by (simp add: eq_int_def)

lemma type_is_int_eq: "type_is_int v \<and> eq_int v n \<longleftrightarrow> v = PInt n"
  by (cases v) (auto simp: pv_tests eq_int_def)

text \<open>
  Dictionary access: \<open>d.get(k)\<close> with the default \<open>None\<close>, which is also \<open>d[k]\<close> where an earlier
  check established the key set; \<open>set(d) == {...}\<close>.
\<close>

definition item :: "dict \<Rightarrow> string \<Rightarrow> pv" where
  "item d k = (case map_of d k of Some v \<Rightarrow> v | None \<Rightarrow> PNone)"

definition has_key :: "dict \<Rightarrow> string \<Rightarrow> bool" where
  "has_key d k \<longleftrightarrow> map_of d k \<noteq> None"

definition keys_are :: "dict \<Rightarrow> string list \<Rightarrow> bool" where
  "keys_are d ks \<longleftrightarrow> list_all (\<lambda>k. List.member ks k) (map fst d) \<and> list_all (\<lambda>k. has_key d k) ks"

lemma has_key_iff: "has_key d k \<longleftrightarrow> k \<in> set (map fst d)"
  by (auto simp: has_key_def map_of_eq_None_iff)

lemma keys_are_iff: "keys_are d ks \<longleftrightarrow> set (map fst d) = set ks"
  by (auto simp: keys_are_def list_all_iff has_key_iff)

lemma item_update: "item (AList.update k v d) k' = (if k' = k then v else item d k')"
  by (simp add: item_def)

lemma item_Cons [simp]: "item ((k, v) # d) k' = (if k' = k then v else item d k')"
  by (simp add: item_def)

text \<open>Python's truth value of a value.\<close>

definition truthy :: "pv \<Rightarrow> bool" where
  "truthy v = (case v of PNone \<Rightarrow> False | PBool b \<Rightarrow> b | PInt i \<Rightarrow> i \<noteq> 0
     | PFloat f \<Rightarrow> f \<noteq> Fin 0 | PStr s \<Rightarrow> s \<noteq> [] | PList l \<Rightarrow> l \<noteq> [] | PDict d \<Rightarrow> d \<noteq> [])"

section \<open>Writing\<close>

text \<open>The code points of a text; \<open>ensure_ascii\<close> escapes those outside printable ASCII.\<close>

fun codepoints :: "string \<Rightarrow> nat list" where
  "codepoints [] = []"
| "codepoints (a # xs) =
     (let n = ord_of a; low = (\<lambda>i. ord_of (xs ! i) mod 64) in
      if n < 128 \<or> length xs < 1 then n # codepoints xs
      else if n < 224 \<or> length xs < 2 then (n mod 32 * 64 + low 0) # codepoints (drop 1 xs)
      else if n < 240 \<or> length xs < 3
        then (n mod 16 * 4096 + low 0 * 64 + low 1) # codepoints (drop 2 xs)
      else (n mod 8 * 262144 + low 0 * 4096 + low 1 * 64 + low 2) # codepoints (drop 3 xs))"

definition hexd :: "nat \<Rightarrow> char" where
  "hexd n = (if n < 10 then char_of (48 + n) else char_of (87 + n))"

definition hex4 :: "nat \<Rightarrow> string" where
  "hex4 n = [hexd (n div 4096 mod 16), hexd (n div 256 mod 16), hexd (n div 16 mod 16), hexd (n mod 16)]"

definition escape :: "nat \<Rightarrow> string" where
  "escape n =
     (if n = 34 then [CHR 0x5C, CHR 0x22] else if n = 92 then [CHR 0x5C, CHR 0x5C]
      else if n = 10 then [CHR 0x5C, CHR ''n''] else if n = 13 then [CHR 0x5C, CHR ''r'']
      else if n = 9 then [CHR 0x5C, CHR ''t''] else if n = 12 then [CHR 0x5C, CHR ''f'']
      else if n = 8 then [CHR 0x5C, CHR ''b'']
      else if 32 \<le> n \<and> n \<le> 126 then [char_of n]
      else if n < 65536 then [CHR 0x5C, CHR ''u''] @ hex4 n
      else [CHR 0x5C, CHR ''u''] @ hex4 (55296 + (n - 65536) div 1024)
         @ [CHR 0x5C, CHR ''u''] @ hex4 (56320 + (n - 65536) mod 1024))"

definition quote :: "string \<Rightarrow> string" where
  "quote s = [CHR 0x22] @ concat (map escape (codepoints s)) @ [CHR 0x22]"

text \<open>
  \<open>repr\<close> of a finite float: the fewest significant digits that read back as the same number,
  in positional form for exponents from -4 to 15.
\<close>

definition half_even :: "rat \<Rightarrow> int" where
  "half_even q = (let f = \<lfloor>q\<rfloor>; r = q - of_int f in
     if r < 1 / 2 then f else if 1 / 2 < r then f + 1 else if even f then f else f + 1)"

definition pow_rat :: "int \<Rightarrow> int \<Rightarrow> rat" where
  "pow_rat b e = (if 0 \<le> e then of_int (b ^ nat e) else 1 / of_int (b ^ nat (- e)))"

definition round64 :: "rat \<Rightarrow> pyfloat" where
  "round64 q =
     (if q = 0 then Fin 0 else
      let (a, b) = quotient_of \<bar>q\<bar>;
          e0 = bitlen a - bitlen b - 53;
          e1 = (if \<bar>q\<bar> < pow_rat 2 (52 + e0) then e0 - 1
                else if pow_rat 2 (53 + e0) \<le> \<bar>q\<bar> then e0 + 1 else e0);
          e = max e1 (- 1074);
          m = half_even (\<bar>q\<bar> / pow_rat 2 e);
          r = of_int m * pow_rat 2 e
      in if pow_rat 2 1024 \<le> r then Inf (0 < q) else Fin (if q < 0 then - r else r))"

definition show_float :: "pyfloat \<Rightarrow> string" where
  "show_float f = (case f of NaN \<Rightarrow> ''NaN'' | Inf True \<Rightarrow> ''Infinity'' | Inf False \<Rightarrow> ''-Infinity''
    | Fin q \<Rightarrow>
      if q = 0 then ''0.0'' else
      let a = \<bar>q\<bar>;
          e = (if 1 \<le> a then int (length (show_int \<lfloor>a\<rfloor>)) - 1 else - int (length (show_int \<lfloor>1 / a\<rfloor>)));
          ex = (if a < pow_rat 10 e then e - 1 else if pow_rat 10 (e + 1) \<le> a then e + 1 else e);
          dig = (\<lambda>k. half_even (a * pow_rat 10 (int k - 1 - ex)));
          ok = (\<lambda>k. round64 (of_int (dig k) * pow_rat 10 (ex + 1 - int k)) = Fin a);
          n = (case find ok [1..<18] of Some k \<Rightarrow> k | None \<Rightarrow> 17);
          carry = (dig n = 10 ^ n);
          x = (if carry then ex + 1 else ex);
          ds = (if carry then ''1'' else show_int (dig n));
          sign = (if q < 0 then ''-'' else [])
      in sign @ (if - 4 \<le> x \<and> x < 16 then
           (if x < 0 then ''0.'' @ replicate (nat (- x - 1)) (CHR ''0'') @ ds
            else if int (length ds) \<le> x + 1
              then ds @ replicate (nat (x + 1) - length ds) (CHR ''0'') @ ''.0''
            else take (nat (x + 1)) ds @ ''.'' @ drop (nat (x + 1)) ds)
         else take 1 ds @ (if length ds = 1 then [] else ''.'' @ drop 1 ds) @ ''e''
            @ (if x < 0 then ''-'' else ''+'')
            @ (if \<bar>x\<bar> < 10 then ''0'' else []) @ show_nat (nat \<bar>x\<bar>)))"

fun dumps :: "pv \<Rightarrow> string" where
  "dumps PNone = ''null''"
| "dumps (PBool b) = (if b then ''true'' else ''false'')"
| "dumps (PInt i) = show_int i"
| "dumps (PFloat f) = show_float f"
| "dumps (PStr s) = quote s"
| "dumps (PList xs) = ''['' @ join '','' (map dumps xs) @ '']''"
| "dumps (PDict d) = ''{'' @ join '','' (map (\<lambda>kv. quote (fst kv) @ '':'' @ dumps (snd kv)) d) @ ''}''"

fun sort_keys :: "pv \<Rightarrow> pv" where
  "sort_keys (PList xs) = PList (map sort_keys xs)"
| "sort_keys (PDict d) = PDict (sort_key fst (map (\<lambda>kv. (fst kv, sort_keys (snd kv))) d))"
| "sort_keys v = v"

definition dumps_sorted :: "pv \<Rightarrow> string" where
  "dumps_sorted v = dumps (sort_keys v)"

section \<open>Reading\<close>

datatype json_error = JSyntax | JHook | JDigits | JFuel

definition is_ws :: "char \<Rightarrow> bool" where
  "is_ws c \<longleftrightarrow> ord_of c = 32 \<or> ord_of c = 9 \<or> ord_of c = 10 \<or> ord_of c = 13"

definition skip_ws :: "string \<Rightarrow> string" where
  "skip_ws s = dropWhile is_ws s"

definition hex_val :: "char \<Rightarrow> nat option" where
  "hex_val c = (let n = ord_of c in
     if 48 \<le> n \<and> n \<le> 57 then Some (n - 48) else if 97 \<le> n \<and> n \<le> 102 then Some (n - 87)
     else if 65 \<le> n \<and> n \<le> 70 then Some (n - 55) else None)"

definition read_hex4 :: "string \<Rightarrow> nat option" where
  "read_hex4 s = (case map hex_val (take 4 s) of
     [Some a, Some b, Some c, Some d] \<Rightarrow> Some (a * 4096 + b * 256 + c * 16 + d) | _ \<Rightarrow> None)"

definition utf8 :: "nat \<Rightarrow> string" where
  "utf8 n =
     (if n < 128 then [char_of n]
      else if n < 2048 then [char_of (192 + n div 64), char_of (128 + n mod 64)]
      else if n < 65536 then [char_of (224 + n div 4096), char_of (128 + n div 64 mod 64), char_of (128 + n mod 64)]
      else [char_of (240 + n div 262144), char_of (128 + n div 4096 mod 64),
            char_of (128 + n div 64 mod 64), char_of (128 + n mod 64)])"

definition unescape :: "char \<Rightarrow> char option" where
  "unescape c =
     (if c = CHR 0x22 \<or> c = CHR 0x5C \<or> c = CHR ''/'' then Some c
      else if c = CHR ''n'' then Some (CHR 0x0A) else if c = CHR ''r'' then Some (CHR 0x0D)
      else if c = CHR ''t'' then Some (CHR 0x09) else if c = CHR ''f'' then Some (CHR 0x0C)
      else if c = CHR ''b'' then Some (CHR 0x08) else None)"

definition push :: "string \<Rightarrow> (string \<times> string) option \<Rightarrow> (string \<times> string) option" where
  "push x r = map_option (\<lambda>(t, rest). (x @ t, rest)) r"

function (sequential) read_str :: "string \<Rightarrow> (string \<times> string) option" where
  "read_str [] = None"
| "read_str (c # cs) =
     (if c = CHR 0x22 then Some ([], cs)
      else if ord_of c < 32 then None
      else if c \<noteq> CHR 0x5C then push [c] (read_str cs)
      else if cs = [] then None
      else if hd cs \<noteq> CHR ''u'' then
        (case unescape (hd cs) of None \<Rightarrow> None | Some x \<Rightarrow> push [x] (read_str (tl cs)))
      else (case read_hex4 (tl cs) of None \<Rightarrow> None | Some u \<Rightarrow>
        if 55296 \<le> u \<and> u \<le> 56319 \<and> take 2 (drop 5 cs) = [CHR 0x5C, CHR ''u''] then
          (case read_hex4 (drop 7 cs) of None \<Rightarrow> None | Some w \<Rightarrow>
             if 56320 \<le> w \<and> w \<le> 57343
             then push (utf8 (65536 + (u - 55296) * 1024 + (w - 56320))) (read_str (drop 11 cs))
             else push (utf8 u) (read_str (drop 5 cs)))
        else push (utf8 u) (read_str (drop 5 cs))))"
  by pat_completeness auto
termination
  by (relation "measure length") (auto simp: length_tl less_Suc_eq_le intro: le_trans [OF diff_le_self])

definition read_frac :: "string \<Rightarrow> string \<times> string" where
  "read_frac s =
     (let fp = (if s \<noteq> [] \<and> hd s = CHR ''.'' then takeWhile is_digit (tl s) else [])
      in (fp, if fp = [] then s else drop (length fp + 1) s))"

definition read_exp :: "string \<Rightarrow> int option \<times> string" where
  "read_exp s =
     (if s \<noteq> [] \<and> (hd s = CHR ''e'' \<or> hd s = CHR ''E'') then
        let t = tl s;
            u = (if t \<noteq> [] \<and> (hd t = CHR ''+'' \<or> hd t = CHR ''-'') then tl t else t);
            ep = takeWhile is_digit u
        in if ep = [] then (None, s)
           else (Some (if t \<noteq> [] \<and> hd t = CHR ''-'' then - int (read_nat ep) else int (read_nat ep)),
                 drop (length ep) u)
      else (None, s))"

definition int_part :: "string \<Rightarrow> string" where
  "int_part s = (if s \<noteq> [] \<and> hd s = CHR ''0'' then ''0'' else takeWhile is_digit s)"

definition read_unsigned :: "bool \<Rightarrow> string \<Rightarrow> json_error + pv \<times> string" where
  "read_unsigned neg s =
     (if int_part s = [] then
        (if neg \<and> starts_with ''Infinity'' s then Inr (PFloat (Inf False), drop 8 s) else Inl JSyntax)
      else
        (case read_frac (drop (length (int_part s)) s) of (fp, t) \<Rightarrow>
         case read_exp t of (ep, rest) \<Rightarrow>
           if fp = [] \<and> ep = None then
             (if 4300 < length (int_part s) then Inl JDigits
              else Inr (PInt (if neg then - int (read_nat (int_part s)) else int (read_nat (int_part s))), rest))
           else let q = of_nat (read_nat (int_part s @ fp)) * pow_rat 10
                          ((case ep of None \<Rightarrow> 0 | Some x \<Rightarrow> x) - int (length fp))
                in Inr (PFloat (round64 (if neg then - q else q)), rest)))"

definition read_number :: "string \<Rightarrow> json_error + pv \<times> string" where
  "read_number s =
     (if s \<noteq> [] \<and> hd s = CHR ''-'' then read_unsigned True (tl s) else read_unsigned False s)"

fun read_val :: "(dict \<Rightarrow> dict option) \<Rightarrow> nat \<Rightarrow> string \<Rightarrow> json_error + pv \<times> string"
and read_elems :: "(dict \<Rightarrow> dict option) \<Rightarrow> nat \<Rightarrow> string \<Rightarrow> json_error + pv list \<times> string"
and read_members :: "(dict \<Rightarrow> dict option) \<Rightarrow> nat \<Rightarrow> string \<Rightarrow> json_error + dict \<times> string"
where
  "read_val hook 0 s = Inl JFuel"
| "read_val hook (Suc n) s =
     (case s of [] \<Rightarrow> Inl JSyntax | c # cs \<Rightarrow>
      if c = CHR 0x22 then
        (case read_str cs of None \<Rightarrow> Inl JSyntax | Some (t, r) \<Rightarrow> Inr (PStr t, r))
      else if c = CHR ''{'' then
        (case skip_ws cs of [] \<Rightarrow> Inl JSyntax | d # ds \<Rightarrow>
         if d = CHR ''}''
         then (case hook [] of None \<Rightarrow> Inl JHook | Some o' \<Rightarrow> Inr (PDict o', ds))
         else bind_res (read_members hook n (d # ds)) (\<lambda>(ps, r).
           case hook ps of None \<Rightarrow> Inl JHook | Some o' \<Rightarrow> Inr (PDict o', r)))
      else if c = CHR ''['' then
        (case skip_ws cs of [] \<Rightarrow> Inl JSyntax | d # ds \<Rightarrow>
         if d = CHR '']'' then Inr (PList [], ds)
         else bind_res (read_elems hook n (d # ds)) (\<lambda>(vs, r). Inr (PList vs, r)))
      else if starts_with ''null'' s then Inr (PNone, drop 4 s)
      else if starts_with ''true'' s then Inr (PBool True, drop 4 s)
      else if starts_with ''false'' s then Inr (PBool False, drop 5 s)
      else if starts_with ''NaN'' s then Inr (PFloat NaN, drop 3 s)
      else if starts_with ''Infinity'' s then Inr (PFloat (Inf True), drop 8 s)
      else read_number s)"
| "read_elems hook 0 s = Inl JFuel"
| "read_elems hook (Suc n) s = bind_res (read_val hook n s) (\<lambda>(v, r).
     case skip_ws r of [] \<Rightarrow> Inl JSyntax | c # cs \<Rightarrow>
       if c = CHR '']'' then Inr ([v], cs)
       else if c = CHR '','' then bind_res (read_elems hook n (skip_ws cs)) (\<lambda>(vs, r'). Inr (v # vs, r'))
       else Inl JSyntax)"
| "read_members hook 0 s = Inl JFuel"
| "read_members hook (Suc n) s =
     (case s of [] \<Rightarrow> Inl JSyntax | q # qs \<Rightarrow>
      if q \<noteq> CHR 0x22 then Inl JSyntax
      else (case read_str qs of None \<Rightarrow> Inl JSyntax | Some (k, r) \<Rightarrow>
        (case skip_ws r of [] \<Rightarrow> Inl JSyntax | c # cs \<Rightarrow>
         if c \<noteq> CHR '':'' then Inl JSyntax
         else bind_res (read_val hook n (skip_ws cs)) (\<lambda>(v, r').
           case skip_ws r' of [] \<Rightarrow> Inl JSyntax | e # es \<Rightarrow>
             if e = CHR ''}'' then Inr ([(k, v)], es)
             else if e = CHR '','' then
               bind_res (read_members hook n (skip_ws es)) (\<lambda>(ps, r''). Inr ((k, v) # ps, r''))
             else Inl JSyntax))))"

text \<open>The default hook builds a dict, later values of a key replacing earlier ones.\<close>

definition plain_hook :: "dict \<Rightarrow> dict option" where
  "plain_hook ps = Some (foldl (\<lambda>d (k, v). AList.update k v d) [] ps)"

definition loads :: "(dict \<Rightarrow> dict option) \<Rightarrow> string \<Rightarrow> json_error + pv" where
  "loads hook s = bind_res (read_val hook (2 * length s + 1) (skip_ws s)) (\<lambda>(v, r).
     if skip_ws r = [] then Inr v else Inl JSyntax)"

section \<open>The fuel of the reader is never used up\<close>

lemma push_Some: "push x r = Some (t, rest) \<longleftrightarrow> (\<exists>t'. r = Some (t', rest) \<and> t = x @ t')"
  by (cases r) (auto simp: push_def)

lemma skip_ws_length: "length (skip_ws s) \<le> length s"
  by (simp add: skip_ws_def length_dropWhile_le)

lemma skip_ws_ConsD: "skip_ws s = c # cs \<Longrightarrow> length cs < length s"
  using skip_ws_length [of s] by simp

lemma read_str_length: "read_str s = Some (t, r) \<Longrightarrow> length r < length s"
proof (induction s arbitrary: t r rule: length_induct)
  case (1 s)
  have IH: "length r' < length u" if "read_str u = Some (t', r')" "length u < length s" for u t' r'
    using "1.IH" that by blast
  show ?case
  proof (cases s)
    case (Cons c cs)
    have *: "length r < Suc (length cs)" if "read_str u = Some (t', r)" "length u \<le> length cs" for u t'
      using IH [OF that(1)] that(2) Cons by simp
    from "1.prems" Cons show ?thesis
      by (auto simp: push_Some split: if_splits option.splits intro: *)
  qed (use "1.prems" in simp)
qed

lemma starts_with_length: "starts_with p s \<Longrightarrow> length p \<le> length s"
  unfolding starts_with_def by (metis length_take min.cobounded1)

lemma starts_with_drop: "starts_with p s \<Longrightarrow> p \<noteq> [] \<Longrightarrow> length (drop (length p) s) < length s"
  using starts_with_length [of p s] by (cases p) auto

lemma read_frac_length: "length (snd (read_frac s)) \<le> length s"
  by (simp add: read_frac_def Let_def)

lemma read_exp_length: "length (snd (read_exp s)) \<le> length s"
  by (auto simp: read_exp_def Let_def intro: le_trans [OF diff_le_self])

lemma int_part_length: "length (int_part s) \<le> length s"
  by (cases s) (simp_all add: int_part_def length_takeWhile_le)

definition shorter :: "string \<Rightarrow> json_error + 'a \<times> string \<Rightarrow> bool" where
  "shorter s r = (case r of Inl _ \<Rightarrow> True | Inr vr \<Rightarrow> length (snd vr) < length s)"

lemma shorter_simps [simp]:
  "shorter s (Inl e)" "shorter s (Inr (v, r)) \<longleftrightarrow> length r < length s"
  by (simp_all add: shorter_def)

lemma shorter_bind:
  "shorter u m \<Longrightarrow> (\<And>v r. m = Inr (v, r) \<Longrightarrow> length r < length u \<Longrightarrow> shorter s (f (v, r)))
    \<Longrightarrow> shorter s (bind_res m f)"
  by (cases m) auto

lemma shorter_mono: "shorter u m \<Longrightarrow> length u \<le> length s \<Longrightarrow> shorter s m"
  by (cases m) auto

lemma read_unsigned_shorter: "shorter s (read_unsigned neg s)"
proof -
  obtain fp t where f: "read_frac (drop (length (int_part s)) s) = (fp, t)" by fastforce
  obtain ep rest where e: "read_exp t = (ep, rest)" by fastforce
  have "length rest \<le> length s - length (int_part s)"
    using read_frac_length [of "drop (length (int_part s)) s"] read_exp_length [of t] f e by simp
  moreover have "length (int_part s) \<le> length s" by (rule int_part_length)
  moreover have "0 < length (int_part s)" if "int_part s \<noteq> []" using that by simp
  ultimately have "int_part s \<noteq> [] \<Longrightarrow> length rest < length s" by linarith
  then show ?thesis
    by (auto simp: read_unsigned_def f e Let_def dest: starts_with_length)
qed

lemma read_number_shorter: "shorter s (read_number s)"
  unfolding read_number_def
  by (auto intro: read_unsigned_shorter shorter_mono [OF read_unsigned_shorter])

lemma read_progress:
  "shorter s (read_val h n s)"
  "shorter s (read_elems h n s)"
  "shorter s (read_members h n s)"
proof (induction n arbitrary: s)
  case (Suc n)
  { case 1
    show ?case
    proof (cases s)
      case (Cons c cs)
      have ws: "length (d # ds) \<le> length cs" if "skip_ws cs = d # ds" for d ds
        using skip_ws_length [of cs] that by simp
      have obj: "shorter s (bind_res (read_members h n u) (\<lambda>(ps, r).
           case h ps of None \<Rightarrow> Inl JHook | Some o' \<Rightarrow> Inr (PDict o', r)))"
        if "length u \<le> length cs" for u
        by (rule shorter_bind [OF Suc.IH(3)]) (use that Cons in \<open>auto split: option.splits\<close>)
      have arr: "shorter s (bind_res (read_elems h n u) (\<lambda>(vs, r). Inr (PList vs, r)))"
        if "length u \<le> length cs" for u
        by (rule shorter_bind [OF Suc.IH(2)]) (use that Cons in auto)
      consider (quote) "c = CHR 0x22" | (brace) "c = CHR ''{''" | (bracket) "c = CHR ''[''"
        | (other) "c \<noteq> CHR 0x22" "c \<noteq> CHR ''{''" "c \<noteq> CHR ''[''" by blast
      then show ?thesis
      proof cases
        case quote
        then show ?thesis by (auto simp: Cons split: option.split dest: read_str_length)
      next
        case brace
        show ?thesis
        proof (cases "skip_ws cs")
          case (Cons d ds)
          with brace ws [OF Cons] obj [of "d # ds"] \<open>s = c # cs\<close> show ?thesis
            by (simp split: option.split)
        qed (simp add: brace \<open>s = c # cs\<close>)
      next
        case bracket
        show ?thesis
        proof (cases "skip_ws cs")
          case (Cons d ds)
          with bracket ws [OF Cons] arr [of "d # ds"] \<open>s = c # cs\<close> show ?thesis by simp
        qed (simp add: bracket \<open>s = c # cs\<close>)
      next
        case other
        with Cons read_number_shorter [of s] show ?thesis by (simp add: less_Suc_eq_le)
      qed
    qed simp
  next
    case 2
    have lens: "length (skip_ws cs) \<le> length s \<and> length cs < length s"
      if "skip_ws r = c # cs" "length r < length s" for r c cs
      using skip_ws_length [of cs] skip_ws_ConsD [OF that(1)] that(2) by simp
    show ?case
      unfolding read_elems.simps
      by (rule shorter_bind [OF Suc.IH(1)])
         (auto split: list.splits dest: lens intro!: shorter_bind [OF Suc.IH(2)])
  next
    case 3
    have lens: "length es < length qs \<and> length (skip_ws es) < length qs"
      if "skip_ws r = c # cs" "read_str qs = Some (k, r)"
        "length r' < length (skip_ws cs)" "skip_ws r' = e # es" for qs k r c cs r' e es
      using skip_ws_length [of es] skip_ws_ConsD [OF that(4)] skip_ws_length [of cs]
        skip_ws_ConsD [OF that(1)] read_str_length [OF that(2)] that(3)
      by simp
    show ?case
      unfolding read_members.simps
      by (auto split: list.splits option.splits
            intro!: shorter_bind [OF Suc.IH(1)] shorter_bind [OF Suc.IH(3)])
         (drule (3) lens, simp)+
  }
qed simp_all

lemma read_number_no_fuel: "read_number s \<noteq> Inl JFuel"
  by (auto simp: read_number_def read_unsigned_def Let_def split: prod.splits)

lemma bind_no_fuel:
  "m \<noteq> Inl JFuel \<Longrightarrow> (\<And>v r. m = Inr (v, r) \<Longrightarrow> f (v, r) \<noteq> Inl JFuel) \<Longrightarrow> bind_res m f \<noteq> Inl JFuel"
  by (cases m) auto

lemma read_fuel:
  "2 * length s < n \<Longrightarrow> read_val h n s \<noteq> Inl JFuel"
  "2 * length s + 1 < n \<Longrightarrow> read_elems h n s \<noteq> Inl JFuel"
  "2 * length s + 1 < n \<Longrightarrow> read_members h n s \<noteq> Inl JFuel"
proof (induction n arbitrary: s)
  case (Suc n)
  { case 1
    show ?case
    proof (cases s)
      case (Cons c cs)
      have ws: "2 * length (d # ds) + 1 < n" if "skip_ws cs = d # ds" for d ds
        using skip_ws_length [of cs] that 1 Cons by simp
      have obj: "bind_res (read_members h n u) (\<lambda>(ps, r).
           case h ps of None \<Rightarrow> Inl JHook | Some o' \<Rightarrow> Inr (PDict o', r)) \<noteq> Inl JFuel"
        if "2 * length u + 1 < n" for u
        by (rule bind_no_fuel [OF Suc.IH(3)]) (use that in \<open>auto split: option.splits\<close>)
      have arr: "bind_res (read_elems h n u) (\<lambda>(vs, r). Inr (PList vs, r)) \<noteq> Inl JFuel"
        if "2 * length u + 1 < n" for u
        by (rule bind_no_fuel [OF Suc.IH(2)]) (use that in auto)
      consider (quote) "c = CHR 0x22" | (brace) "c = CHR ''{''" | (bracket) "c = CHR ''[''"
        | (other) "c \<noteq> CHR 0x22" "c \<noteq> CHR ''{''" "c \<noteq> CHR ''[''" by blast
      then show ?thesis
      proof cases
        case quote
        then show ?thesis by (auto simp: Cons split: option.split)
      next
        case brace
        show ?thesis
        proof (cases "skip_ws cs")
          case (Cons d ds)
          with brace ws [OF Cons] obj [of "d # ds"] \<open>s = c # cs\<close> show ?thesis
            by (simp split: option.split)
        qed (simp add: brace \<open>s = c # cs\<close>)
      next
        case bracket
        show ?thesis
        proof (cases "skip_ws cs")
          case (Cons d ds)
          with bracket ws [OF Cons] arr [of "d # ds"] \<open>s = c # cs\<close> show ?thesis by simp
        qed (simp add: bracket \<open>s = c # cs\<close>)
      next
        case other
        with Cons read_number_no_fuel [of s] show ?thesis by simp
      qed
    qed simp
  next
    case 2
    have next_le: "2 * length (skip_ws cs) + 1 < n" if "skip_ws r = c # cs" "length r < length s" for r c cs
      using skip_ws_length [of cs] skip_ws_ConsD [OF that(1)] that(2) 2 by simp
    show ?case
      unfolding read_elems.simps
    proof (rule bind_no_fuel [OF Suc.IH(1)])
      fix v r assume "read_val h n s = Inr (v, r)"
      with read_progress(1) [of s h n] have "length r < length s" by simp
      from next_le [OF _ this] show "(case (v, r) of (v, r) \<Rightarrow>
          case skip_ws r of [] \<Rightarrow> Inl JSyntax | c # cs \<Rightarrow>
            if c = CHR '']'' then Inr ([v], cs)
            else if c = CHR '','' then bind_res (read_elems h n (skip_ws cs)) (\<lambda>(vs, r'). Inr (v # vs, r'))
            else Inl JSyntax) \<noteq> Inl JFuel"
        using Suc.IH(2) by (auto simp: bind_res_Inl split: list.splits)
    qed (use 2 in simp)
  next
    case 3
    have val: False
      if "s = q # qs" "read_str qs = Some (k, r)" "skip_ws r = c # cs"
        "read_val h n (skip_ws cs) = Inl JFuel" for q qs k r c cs
      using skip_ws_length [of cs] skip_ws_ConsD [OF that(3)] read_str_length [OF that(2)] that(1,4) 3
        Suc.IH(1) [of "skip_ws cs"]
      by simp
    have members: False
      if "s = q # qs" "read_str qs = Some (k, r)" "skip_ws r = c # cs"
        "read_val h n (skip_ws cs) = Inr (v, r')" "skip_ws r' = e # es"
        "read_members h n (skip_ws es) = Inl JFuel" for q qs k r c cs v r' e es
      using skip_ws_length [of es] skip_ws_ConsD [OF that(5)] skip_ws_length [of cs]
        read_progress(1) [of "skip_ws cs" h n] skip_ws_ConsD [OF that(3)]
        read_str_length [OF that(2)] that(1,4,6) 3 Suc.IH(3) [of "skip_ws es"]
      by simp
    show ?case
      unfolding read_members.simps
      by (auto simp: bind_res_Inl split: list.splits option.splits if_splits dest: val members)
  }
qed simp_all

theorem loads_fuel: "loads hook s \<noteq> Inl JFuel"
proof -
  have "2 * length (skip_ws s) < 2 * length s + 1"
    using skip_ws_length [of s] by simp
  then have "read_val hook (2 * length s + 1) (skip_ws s) \<noteq> Inl JFuel"
    by (rule read_fuel(1))
  then show ?thesis
    unfolding loads_def by (rule bind_no_fuel) auto
qed

section \<open>Round trip\<close>

text \<open>The values whose text form reads back exactly.\<close>

fun plain :: "pv \<Rightarrow> bool" where
  "plain (PFloat f) = False"
| "plain (PStr s) = is_ascii s"
| "plain (PInt i) = (length (show_nat (nat \<bar>i\<bar>)) \<le> 4300)"
| "plain (PList xs) = list_all plain xs"
| "plain (PDict d) = (distinct (map fst d) \<and> list_all (\<lambda>kv. is_ascii (fst kv) \<and> plain (snd kv)) d)"
| "plain v = True"

definition keeps_distinct :: "(dict \<Rightarrow> dict option) \<Rightarrow> bool" where
  "keeps_distinct hook \<longleftrightarrow> (\<forall>ps. distinct (map fst ps) \<longrightarrow> hook ps = Some ps)"

lemma ord_char_of [simp]: "n < 256 \<Longrightarrow> ord_of (char_of n) = n"
  by simp

lemma hex_val_hexd: "n < 16 \<Longrightarrow> hex_val (hexd n) = Some n"
  by (auto simp: hex_val_def hexd_def Let_def)

lemma read_hex4_hex4: "n < 65536 \<Longrightarrow> read_hex4 (hex4 n @ r) = Some n"
proof -
  assume n: "n < 65536"
  have "n div 4096 mod 16 = n div 4096" using n by simp
  moreover have "n mod 4096 = 256 * (n div 256 mod 16) + n mod 256"
    using mod_mult2_eq [of n 256 16] by simp
  moreover have "n mod 256 = 16 * (n div 16 mod 16) + n mod 16"
    using mod_mult2_eq [of n 16 16] by simp
  moreover have "n = 4096 * (n div 4096) + n mod 4096" by simp
  ultimately have "n div 4096 mod 16 = n div 4096"
    "n div 4096 * 4096 + n div 256 mod 16 * 256 + n div 16 mod 16 * 16 + n mod 16 = n"
    by linarith+
  moreover have "n div 4096 < 16" using n by simp
  ultimately show ?thesis
    by (simp add: read_hex4_def hex4_def hex_val_hexd)
qed

lemma char_eq_iff_ord: "c = d \<longleftrightarrow> ord_of c = ord_of d"
  by (metis char_of_char)

lemma read_str_escape_special:
  "n \<in> {34, 92, 10, 13, 9, 12, 8} \<Longrightarrow> read_str (escape n @ t) = push [char_of n] (read_str t)"
proof -
  have c: "char_of (34 :: nat) = CHR 0x22" "char_of (92 :: nat) = CHR 0x5C" "char_of (10 :: nat) = CHR 0x0A"
    "char_of (13 :: nat) = CHR 0x0D" "char_of (9 :: nat) = CHR 0x09" "char_of (12 :: nat) = CHR 0x0C"
    "char_of (8 :: nat) = CHR 0x08"
    by code_simp+
  assume "n \<in> {34, 92, 10, 13, 9, 12, 8}"
  then show ?thesis
    by (elim insertE) (simp_all add: escape_def unescape_def c)
qed

lemma read_str_escape:
  assumes "n < 128"
  shows "read_str (escape n @ t) = push [char_of n] (read_str t)"
proof -
  consider (special) "n \<in> {34, 92, 10, 13, 9, 12, 8}"
    | (self) "n \<notin> {34, 92, 10, 13, 9, 12, 8}" "32 \<le> n" "n \<le> 126"
    | (u) "n \<notin> {34, 92, 10, 13, 9, 12, 8}" "\<not> (32 \<le> n \<and> n \<le> 126)" by blast
  then show ?thesis
  proof cases
    case special
    then show ?thesis by (rule read_str_escape_special)
  next
    case self
    then have "char_of n \<noteq> CHR 0x22" "char_of n \<noteq> CHR 0x5C"
      by (simp_all add: char_eq_iff_ord)
    with self show ?thesis by (simp add: escape_def)
  next
    case u
    then have "escape n = [CHR 0x5C, CHR ''u''] @ hex4 n" using assms by (simp add: escape_def)
    moreover have "length (hex4 n) = 4" by (simp add: hex4_def)
    ultimately show ?thesis using assms by (simp add: read_hex4_hex4 utf8_def)
  qed
qed

lemma codepoints_ascii: "is_ascii s \<Longrightarrow> codepoints s = map ord_of s"
  by (induction s) (auto simp: is_ascii_def Let_def)

lemma read_str_quote:
  assumes "is_ascii s"
  shows "read_str (concat (map escape (codepoints s)) @ CHR 0x22 # r) = Some (s, r)"
  unfolding codepoints_ascii [OF assms] using assms
proof (induction s)
  case (Cons c s)
  then show ?case by (simp add: is_ascii_def read_str_escape push_def)
qed simp

definition stop :: "string \<Rightarrow> bool" where
  "stop r = (case r of [] \<Rightarrow> True | c # _ \<Rightarrow> c = CHR '','' \<or> c = CHR '']'' \<or> c = CHR ''}'')"

lemma takeWhile_digits: "list_all is_digit s \<Longrightarrow> stop r \<Longrightarrow> takeWhile is_digit (s @ r) = s"
  by (induction s) (auto simp: stop_def is_digit_def split: list.splits)

lemma show_nat_head0: "n \<noteq> 0 \<Longrightarrow> hd (show_nat n) \<noteq> CHR ''0''"
proof (induction n rule: show_nat.induct)
  case (1 n)
  show ?case
  proof (cases "n < 10")
    case True
    with 1 show ?thesis by (subst show_nat.simps) (simp add: char_eq_iff_ord)
  next
    case False
    with 1 show ?thesis by (subst show_nat.simps) simp
  qed
qed

lemma show_nat_0: "show_nat 0 = ''0''"
  by code_simp

lemma int_part_show_nat: "stop r \<Longrightarrow> int_part (show_nat n @ r) = show_nat n"
  by (cases "n = 0")
     (auto simp: int_part_def show_nat_0 show_nat_head0 takeWhile_digits digits_show_nat)

lemma read_frac_stop: "stop r \<Longrightarrow> read_frac r = ([], r)"
  by (auto simp: read_frac_def stop_def split: list.splits)

lemma read_exp_stop: "stop r \<Longrightarrow> read_exp r = (None, r)"
  by (auto simp: read_exp_def stop_def split: list.splits)

lemma read_unsigned_show:
  "stop r \<Longrightarrow> length (show_nat n) \<le> 4300 \<Longrightarrow>
     read_unsigned neg (show_nat n @ r) = Inr (PInt (if neg then - int n else int n), r)"
  by (simp add: read_unsigned_def int_part_show_nat read_frac_stop read_exp_stop)

lemma hd_show_nat: "is_digit (hd (show_nat n))"
  using digits_show_nat [of n] by (cases "show_nat n") auto

lemma read_number_show:
  "stop r \<Longrightarrow> length (show_nat (nat \<bar>i\<bar>)) \<le> 4300 \<Longrightarrow> read_number (show_int i @ r) = Inr (PInt i, r)"
  using hd_show_nat [of "nat i"]
  by (auto simp: read_number_def show_int_def read_unsigned_show is_digit_def)

lemma show_int_head: "\<exists>c cs. show_int i = c # cs \<and> (is_digit c \<or> c = CHR ''-'')"
proof (cases "i < 0")
  case False
  then show ?thesis using hd_show_nat [of "nat i"]
    by (cases "show_nat (nat i)") (auto simp: show_int_def)
qed (simp add: show_int_def)

lemma read_val_int:
  assumes "stop r" "length (show_nat (nat \<bar>i\<bar>)) \<le> 4300"
  shows "read_val h (Suc n) (show_int i @ r) = Inr (PInt i, r)"
proof -
  obtain c cs where s: "show_int i = c # cs" and c: "is_digit c \<or> c = CHR ''-''"
    using show_int_head by blast
  then have "c \<noteq> CHR 0x22" "c \<noteq> CHR ''{''" "c \<noteq> CHR ''[''" "c \<noteq> CHR ''n''" "c \<noteq> CHR ''t''"
    "c \<noteq> CHR ''f''" "c \<noteq> CHR ''N''" "c \<noteq> CHR ''I''"
    by (auto simp: is_digit_def)
  with read_number_show [OF assms] show ?thesis
    by (simp add: s starts_with_def)
qed

lemma skip_ws_head: "\<not> is_ws c \<Longrightarrow> skip_ws (c # cs) = c # cs"
  by (simp add: skip_ws_def)

lemma stop_skip [simp]: "stop r \<Longrightarrow> skip_ws r = r"
  by (cases r) (auto simp: stop_def skip_ws_def is_ws_def)

lemma dumps_head:
  "plain v \<Longrightarrow> \<exists>c cs. dumps v = c # cs \<and> \<not> is_ws c \<and> c \<noteq> CHR '']''"
proof (cases v)
  case (PInt i)
  then show ?thesis using show_int_head [of i] by (auto simp: is_ws_def is_digit_def)
qed (auto simp: is_ws_def quote_def)

lemma stop_Cons [simp]:
  "stop (CHR '','' # r)" "stop (CHR '']'' # r)" "stop (CHR ''}'' # r)"
  by (simp_all add: stop_def)

lemma skip_punct [simp]:
  "skip_ws (CHR '','' # r) = CHR '','' # r" "skip_ws (CHR '']'' # r) = CHR '']'' # r"
  "skip_ws (CHR ''}'' # r) = CHR ''}'' # r" "skip_ws (CHR '':'' # r) = CHR '':'' # r"
  "skip_ws (CHR 0x22 # r) = CHR 0x22 # r"
  by (simp_all add: skip_ws_def is_ws_def)

lemma skip_dumps: "plain v \<Longrightarrow> skip_ws (dumps v @ r) = dumps v @ r"
  using dumps_head [of v] by (auto simp: skip_ws_head)

lemma read_elems_join:
  assumes "\<And>v r n. v \<in> set (x # xs) \<Longrightarrow> stop r \<Longrightarrow> 2 * length (dumps v) < n
      \<Longrightarrow> read_val h n (dumps v @ r) = Inr (v, r)"
    and "list_all plain (x # xs)"
    and "2 * length (join '','' (map dumps (x # xs))) + 1 < n"
  shows "read_elems h n (join '','' (map dumps (x # xs)) @ CHR '']'' # r) = Inr (x # xs, r)"
  using assms
proof (induction xs arbitrary: x n)
  case Nil
  from Nil.prems(3) obtain m where "n = Suc m" "2 * length (dumps x) < m" by (cases n) auto
  with Nil.prems(1) show ?case by simp
next
  case (Cons y ys)
  let ?t = "join '','' (map dumps (y # ys)) @ CHR '']'' # r"
  from Cons.prems(3) obtain m where n: "n = Suc m" and m: "2 * length (dumps x) < m"
    "2 * length (join '','' (map dumps (y # ys))) + 1 < m" by (cases n) auto
  have "read_val h m (dumps x @ CHR '','' # ?t) = Inr (x, CHR '','' # ?t)"
    using Cons.prems(1) m(1) by simp
  moreover have "read_elems h m ?t = Inr (y # ys, r)"
    using Cons.prems m(2) by (intro Cons.IH) auto
  moreover have "skip_ws ?t = ?t"
    using Cons.prems(2) skip_dumps [of y] by (cases ys) auto
  ultimately show ?case by (simp add: n)
qed

lemma read_members_join:
  fixes kv :: "string \<times> pv"
  defines "put \<equiv> \<lambda>kv. quote (fst kv) @ '':'' @ dumps (snd kv)"
  assumes "\<And>kv r n. kv \<in> set (x # d) \<Longrightarrow> stop r \<Longrightarrow> 2 * length (dumps (snd kv)) < n
      \<Longrightarrow> read_val h n (dumps (snd kv) @ r) = Inr (snd kv, r)"
    and "list_all (\<lambda>kv. is_ascii (fst kv) \<and> plain (snd kv)) (x # d)"
    and "2 * length (join '','' (map put (x # d))) + 1 < n"
  shows "read_members h n (join '','' (map put (x # d)) @ CHR ''}'' # r) = Inr (x # d, r)"
  using assms(2-)
proof (induction d arbitrary: x n)
  case Nil
  from Nil.prems(3) obtain m where "n = Suc m" "2 * length (dumps (snd x)) < m"
    by (cases n) (auto simp: put_def)
  with Nil.prems(1,2) show ?case
    by (simp add: put_def quote_def read_str_quote skip_dumps)
next
  case (Cons y d)
  let ?t = "join '','' (map put (y # d)) @ CHR ''}'' # r"
  from Cons.prems(3) obtain m where n: "n = Suc m" and m: "2 * length (dumps (snd x)) < m"
    "2 * length (join '','' (map put (y # d))) + 1 < m" by (cases n) (auto simp: put_def)
  have "read_val h m (dumps (snd x) @ CHR '','' # ?t) = Inr (snd x, CHR '','' # ?t)"
    using Cons.prems(1) m(1) by simp
  moreover have "read_members h m ?t = Inr (y # d, r)"
    using Cons.prems m(2) by (intro Cons.IH) auto
  moreover have "skip_ws ?t = ?t"
    by (cases d) (simp_all add: put_def quote_def)
  ultimately show ?case
    using Cons.prems(2) by (simp add: n put_def quote_def read_str_quote skip_dumps)
qed

lemma read_val_dict:
  assumes "keeps_distinct h" "plain (PDict d)"
    and IH: "\<And>kv r k. kv \<in> set d \<Longrightarrow> stop r \<Longrightarrow> 2 * length (dumps (snd kv)) < k
      \<Longrightarrow> read_val h k (dumps (snd kv) @ r) = Inr (snd kv, r)"
    and "2 * length (dumps (PDict d)) < n"
  shows "read_val h n (dumps (PDict d) @ r) = Inr (PDict d, r)"
proof (cases d)
  case Nil
  with assms show ?thesis by (cases n) (simp_all add: keeps_distinct_def)
next
  case (Cons y ys)
  let ?put = "\<lambda>kv. quote (fst kv) @ '':'' @ dumps (snd kv)"
  from assms(4) obtain m where n: "n = Suc m"
    and m: "2 * length (join '','' (map ?put (y # ys))) + 1 < m" by (cases n) (auto simp: Cons)
  have e: "read_members h m (join '','' (map ?put (y # ys)) @ CHR ''}'' # r) = Inr (y # ys, r)"
    using assms(2) m IH by (intro read_members_join) (simp_all add: Cons)
  obtain cs where j: "join '','' (map ?put (y # ys)) = CHR 0x22 # cs"
    by (cases ys) (auto simp: quote_def)
  from e assms show ?thesis
    unfolding n Cons dumps.simps j by (simp add: keeps_distinct_def)
qed

lemma read_val_dumps:
  assumes "keeps_distinct h"
  shows "plain v \<Longrightarrow> stop r \<Longrightarrow> 2 * length (dumps v) < n \<Longrightarrow> read_val h n (dumps v @ r) = Inr (v, r)"
proof (induction v arbitrary: r n rule: dumps.induct)
  case (3 i)
  then show ?case by (cases n) (simp_all add: read_val_int del: read_val.simps(2))
next
  case (5 s)
  then show ?case by (cases n) (simp_all add: quote_def read_str_quote)
next
  case (6 xs)
  show ?case
  proof (cases xs)
    case Nil
    with 6 show ?thesis by (cases n) simp_all
  next
    case (Cons y ys)
    from "6.prems"(3) obtain m where n: "n = Suc m"
      and m: "2 * length (join '','' (map dumps (y # ys))) + 1 < m" by (cases n) (auto simp: Cons)
    have e: "read_elems h m (join '','' (map dumps (y # ys)) @ CHR '']'' # r) = Inr (y # ys, r)"
      using 6 m by (intro read_elems_join) (auto simp: Cons list_all_iff)
    obtain c cs where j: "join '','' (map dumps (y # ys)) = c # cs" and c: "\<not> is_ws c" "c \<noteq> CHR '']''"
      using dumps_head [of y] "6.prems"(1) Cons by (cases ys) auto
    from e c show ?thesis
      unfolding n Cons dumps.simps j by (simp add: skip_ws_head)
  qed
next
  case (7 d)
  show ?case
  proof (rule read_val_dict [OF assms "7.prems"(1) _ "7.prems"(3)])
    fix kv r k
    assume kv: "kv \<in> set d" "stop r" "2 * length (dumps (snd kv)) < k"
    with "7.prems"(1) have "plain (snd kv)" by (auto simp: list_all_iff)
    with kv "7.IH" [of kv r k] show "read_val h k (dumps (snd kv) @ r) = Inr (snd kv, r)" by simp
  qed
next
  case (1 r n)
  then show ?case by (cases n) (simp_all add: starts_with_def)
next
  case (2 b r n)
  then show ?case by (cases n; cases b) (simp_all add: starts_with_def)
qed simp_all

text \<open>Reading what \<open>dumps\<close> wrote returns the value.\<close>

theorem loads_dumps:
  assumes "keeps_distinct hook" "plain v"
  shows "loads hook (dumps v) = Inr v"
proof -
  have "skip_ws (dumps v) = dumps v" using skip_dumps [OF assms(2), of "[]"] by simp
  moreover have "stop []" by (simp add: stop_def)
  from read_val_dumps [OF assms this, of "2 * length (dumps v) + 1"]
  have "read_val hook (2 * length (dumps v) + 1) (dumps v) = Inr (v, [])" by simp
  ultimately show ?thesis by (simp add: loads_def skip_ws_def)
qed

lemma map_fst_image: "fst ` set (map (\<lambda>kv. (fst kv, f (snd kv))) d) = fst ` set d"
  by force

lemma distinct_keys_sort: "distinct (map fst (sort_key fst d)) \<longleftrightarrow> distinct (map fst d)"
  by (simp add: distinct_map)

lemma plain_sort_keys: "plain v \<Longrightarrow> plain (sort_keys v)"
proof (induction v rule: sort_keys.induct)
  case (2 d)
  let ?d = "map (\<lambda>kv. (fst kv, sort_keys (snd kv))) d"
  have keys: "map fst ?d = map fst d" by simp
  with "2.prems" have "distinct (map fst (sort_key fst ?d))"
    unfolding distinct_keys_sort by (simp add: comp_def)
  with 2 show ?case by (auto simp: list_all_iff)
qed (auto simp: list_all_iff)

text \<open>A dictionary of scalars, sorted by key: same items, same key set.\<close>

definition scalar :: "pv \<Rightarrow> bool" where
  "scalar v = (case v of PList _ \<Rightarrow> False | PDict _ \<Rightarrow> False | _ \<Rightarrow> True)"

lemma sort_keys_scalar [simp]: "scalar v \<Longrightarrow> sort_keys v = v"
  by (cases v) (auto simp: scalar_def)

lemma sort_keys_flat:
  assumes "list_all (\<lambda>kv. scalar (snd kv)) d"
  shows "sort_keys (PDict d) = PDict (sort_key fst d)"
proof -
  have "map (\<lambda>kv. (fst kv, sort_keys (snd kv))) d = d"
    using assms by (intro map_idI) (auto simp: list_all_iff)
  then show ?thesis by simp
qed

lemma map_of_sort_key:
  assumes "distinct (map fst d)"
  shows "map_of (sort_key fst d) = map_of d"
proof
  fix k
  have "distinct (map fst (sort_key fst d))"
    using assms by (simp add: distinct_map)
  then have "map_of (sort_key fst d) k = Some v \<longleftrightarrow> map_of d k = Some v" for v
    using assms by (simp add: map_of_eq_Some_iff)
  then show "map_of (sort_key fst d) k = map_of d k"
    by (metis not_None_eq)
qed

lemma item_sort_key: "distinct (map fst d) \<Longrightarrow> item (sort_key fst d) k = item d k"
  by (simp add: item_def map_of_sort_key)

lemma keys_are_sort_key: "keys_are (sort_key fst d) ks \<longleftrightarrow> keys_are d ks"
  by (simp add: keys_are_iff)

lemma is_ascii_append [simp]: "is_ascii (s @ t) \<longleftrightarrow> is_ascii s \<and> is_ascii t"
  by (simp add: is_ascii_def)

lemma is_ascii_simps [simp]:
  "is_ascii []" "is_ascii (c # s) \<longleftrightarrow> ord_of c < 128 \<and> is_ascii s"
  by (simp_all add: is_ascii_def)

lemma is_ascii_join: "is_ascii sep \<Longrightarrow> list_all is_ascii xs \<Longrightarrow> is_ascii (join sep xs)"
  by (induction sep xs rule: join.induct) auto

lemma hexd_ascii: "n < 16 \<Longrightarrow> ord_of (hexd n) < 128"
  by (simp add: hexd_def)

lemma is_ascii_quote: "is_ascii s \<Longrightarrow> is_ascii (quote s)"
proof -
  have "is_ascii (escape n)" if "n < 128" for n
    using that by (auto simp: escape_def hex4_def hexd_ascii)
  then have "is_ascii (concat (map (\<lambda>c. escape (ord_of c)) s))" if "is_ascii s" for s :: string
    using that by (induction s) auto
  then show "is_ascii s \<Longrightarrow> ?thesis" by (simp add: quote_def codepoints_ascii comp_def)
qed

lemma is_ascii_show_int: "is_ascii (show_int i)"
proof -
  have "is_ascii s" if "list_all is_digit s" for s
    using that by (induction s) (auto simp: is_digit_def)
  then show ?thesis using digits_show_nat by (auto simp: show_int_def)
qed

lemma is_ascii_dumps: "plain v \<Longrightarrow> is_ascii (dumps v)"
proof (induction v rule: dumps.induct)
  case (6 xs)
  then show ?case by (auto simp: list_all_iff intro!: is_ascii_join)
next
  case (7 d)
  then show ?case by (auto simp: list_all_iff is_ascii_quote intro!: is_ascii_join)
qed (auto simp: is_ascii_quote is_ascii_show_int)

lemma loads_dumps_sorted:
  "keeps_distinct hook \<Longrightarrow> plain v \<Longrightarrow> loads hook (dumps_sorted v) = Inr (sort_keys v)"
  by (simp add: dumps_sorted_def loads_dumps plain_sort_keys)

section \<open>Duplicate keys refused\<close>

text \<open>
  The \<open>object_pairs_hook\<close> that the programs pass: a loop that inserts each pair and raises at a
  key it has seen.
\<close>

fun unique_from :: "dict \<Rightarrow> dict \<Rightarrow> dict option" where
  "unique_from acc [] = Some acc"
| "unique_from acc ((k, v) # ps) = (if has_key acc k then None else unique_from (acc @ [(k, v)]) ps)"

definition unique_hook :: "dict \<Rightarrow> dict option" where
  "unique_hook ps = unique_from [] ps"

lemma unique_from_eq:
  "distinct (map fst acc) \<Longrightarrow>
    unique_from acc ps = (if distinct (map fst (acc @ ps)) then Some (acc @ ps) else None)"
  by (induction acc ps rule: unique_from.induct) (auto simp: has_key_iff)

lemma unique_hook_eq: "unique_hook ps = (if distinct (map fst ps) then Some ps else None)"
  by (simp add: unique_hook_def unique_from_eq)

lemma keeps_distinct_unique [simp]: "keeps_distinct unique_hook"
  by (simp add: keeps_distinct_def unique_hook_eq)

lemma foldl_update_distinct:
  "distinct (map fst (acc @ ps)) \<Longrightarrow> foldl (\<lambda>d (k, v). AList.update k v d) acc ps = acc @ ps"
proof (induction ps arbitrary: acc)
  case (Cons p ps)
  obtain k v where p: "p = (k, v)" by fastforce
  with Cons.prems have "map_of acc k = None" by (auto simp: map_of_eq_None_iff)
  then have "AList.update k v acc = acc @ [(k, v)]"
    by (induction acc) (auto split: if_splits)
  with Cons p show ?case by simp
qed simp

lemma keeps_distinct_plain [simp]: "keeps_distinct plain_hook"
proof -
  have "plain_hook ps = Some ps" if "distinct (map fst ps)" for ps
    using foldl_update_distinct [of "[]" ps] that by (simp add: plain_hook_def)
  then show ?thesis by (simp add: keeps_distinct_def)
qed

text \<open>\<open>json.loads(raw.decode("utf-8"), object_pairs_hook=...)\<close>.\<close>

datatype decode_error = UnicodeDecodeError | Json json_error

definition decode_json :: "(dict \<Rightarrow> dict option) \<Rightarrow> string \<Rightarrow> decode_error + pv" where
  "decode_json hook raw =
     (if valid_utf8 raw then (case loads hook raw of Inl e \<Rightarrow> Inl (Json e) | Inr v \<Rightarrow> Inr v)
      else Inl UnicodeDecodeError)"

lemma decode_case_eq_Inr:
  "(case m of Inl (Json JDigits) \<Rightarrow> Inl a | Inl _ \<Rightarrow> Inl b | Inr v \<Rightarrow> f v) = Inr t \<longleftrightarrow> (\<exists>v. m = Inr v \<and> f v = Inr t)"
  by (auto split: sum.split decode_error.split json_error.split)

lemma decode_json_dumps_sorted:
  assumes "keeps_distinct hook" "plain v"
  shows "decode_json hook (dumps_sorted v) = Inr (sort_keys v)"
proof -
  have "valid_utf8 (dumps_sorted v)"
    unfolding dumps_sorted_def by (intro valid_utf8_ascii is_ascii_dumps plain_sort_keys assms)
  then show ?thesis using loads_dumps_sorted [OF assms] by (simp add: decode_json_def)
qed

lemma decode_json_dumps:
  assumes "keeps_distinct hook" "plain v"
  shows "decode_json hook (dumps v) = Inr v"
proof -
  have "valid_utf8 (dumps v)" by (intro valid_utf8_ascii is_ascii_dumps assms)
  then show ?thesis using loads_dumps [OF assms] by (simp add: decode_json_def)
qed

text \<open>An object followed by a line feed, as the journals are written.\<close>

lemma decode_json_line:
  assumes "keeps_distinct hook" "plain (PDict d)"
  shows "decode_json hook (dumps_sorted (PDict d) @ [CHR 0x0A]) = Inr (sort_keys (PDict d))"
proof -
  obtain e where e: "sort_keys (PDict d) = PDict e" by simp
  with plain_sort_keys [OF assms(2)] have p: "plain (PDict e)" by metis
  let ?s = "dumps (PDict e) @ [CHR 0x0A]"
  have "plain (snd kv)" if "kv \<in> set e" for kv using p that by (auto simp: list_all_iff)
  then have "read_val hook (2 * length ?s + 1) ?s = Inr (PDict e, [CHR 0x0A])"
    using assms(1) p by (intro read_val_dict read_val_dumps) simp_all
  moreover have "skip_ws ?s = ?s" using skip_dumps [OF p] .
  ultimately have "loads hook ?s = Inr (PDict e)" by (simp add: loads_def skip_ws_def is_ws_def)
  moreover have "valid_utf8 ?s" using is_ascii_dumps [OF p] by (intro valid_utf8_ascii) simp
  ultimately show ?thesis unfolding dumps_sorted_def e decode_json_def by simp
qed

section \<open>Equality\<close>

text \<open>
  \<open>==\<close> on these values: numbers by value, lists element by element, dictionaries whatever the order
  of their items.
\<close>

definition num_of :: "pv \<Rightarrow> rat option" where
  "num_of v = (case v of PBool b \<Rightarrow> Some (if b then 1 else 0) | PInt i \<Rightarrow> Some (of_int i)
     | PFloat (Fin q) \<Rightarrow> Some q | _ \<Rightarrow> None)"

lemma size_zip_fst [termination_simp]: "(a, b) \<in> set (zip xs ys) \<Longrightarrow> size a < Suc (size_list size xs)"
  by (auto dest!: set_zip_leftD intro!: le_imp_less_Suc size_list_estimation')

fun py_eq :: "pv \<Rightarrow> pv \<Rightarrow> bool" where
  "py_eq PNone w = (w = PNone)"
| "py_eq (PStr s) w = (w = PStr s)"
| "py_eq (PList xs) w = (case w of
     PList ys \<Rightarrow> length xs = length ys \<and> list_all (\<lambda>(x, y). py_eq x y) (zip xs ys) | _ \<Rightarrow> False)"
| "py_eq (PDict d) w = (case w of
     PDict e \<Rightarrow> length d = length e
       \<and> list_all (\<lambda>kv. case map_of e (fst kv) of None \<Rightarrow> False | Some u \<Rightarrow> py_eq (snd kv) u) d
   | _ \<Rightarrow> False)"
| "py_eq (PFloat (Inf b)) w = (w = PFloat (Inf b))"
| "py_eq v w = (num_of v \<noteq> None \<and> num_of v = num_of w)"

lemma py_eq_sort_keys: "plain v \<Longrightarrow> py_eq (sort_keys v) v"
proof (induction v rule: sort_keys.induct)
  case (1 xs)
  then show ?case by (auto simp: list_all_iff set_zip)
next
  case (2 d)
  have "map_of d k = Some v" if "(k, v) \<in> set d" for k v
    using "2.prems" that by (simp add: map_of_is_SomeI)
  with 2 show ?case by (fastforce simp: list_all_iff)
qed (simp_all add: num_of_def)

section \<open>Sizes\<close>

definition unescaped :: "char \<Rightarrow> bool" where
  "unescaped c \<longleftrightarrow> 32 \<le> ord_of c \<and> ord_of c \<le> 126 \<and> ord_of c \<noteq> 34 \<and> ord_of c \<noteq> 92"

lemma quote_unescaped: "list_all unescaped s \<Longrightarrow> quote s = [CHR 0x22] @ s @ [CHR 0x22]"
proof -
  assume s: "list_all unescaped s"
  then have "is_ascii s"
    by (induction s) (auto simp: unescaped_def)
  moreover have "concat (map (\<lambda>c. escape (ord_of c)) s) = s"
    using s by (induction s) (auto simp: unescaped_def escape_def)
  ultimately show ?thesis
    by (simp add: quote_def codepoints_ascii comp_def)
qed

lemma length_quote: "list_all unescaped s \<Longrightarrow> length (quote s) = length s + 2"
  by (simp add: quote_unescaped)

lemma unescaped_hex: "list_all is_hex s \<Longrightarrow> list_all unescaped s"
  by (induction s) (auto simp: unescaped_def is_hex_def is_digit_def)

lemma length_join: "length (join sep xs) = sum_list (map length xs) + (length xs - 1) * length sep"
  by (induction sep xs rule: join.induct) auto

lemma sum_list_sort_key: "sum_list (map f (sort_key k xs)) = sum_list (map (f :: _ \<Rightarrow> nat) xs)"
  by (metis mset_map mset_sort sum_mset_sum_list)

lemma length_dumps_sort_key: "length (dumps (PDict (sort_key fst d))) = length (dumps (PDict d))"
  using sum_list_sort_key [of "length \<circ> (\<lambda>kv. quote (fst kv) @ '':'' @ dumps (snd kv))" fst d]
  by (simp add: length_join)

lemma length_show_int: "0 \<le> i \<Longrightarrow> i < 10 ^ k \<Longrightarrow> 0 < k \<Longrightarrow> length (show_int i) \<le> k"
  by (simp add: show_int_def length_show_nat nat_less_iff)


section \<open>Sorted dictionaries, updates and sizes\<close>

lemma item_sorted:
  assumes "distinct (map fst d)"
  shows "item (dict_of (sort_keys (PDict d))) k = sort_keys (item d k)"
proof -
  have "distinct (map fst (map (\<lambda>kv. (fst kv, sort_keys (snd kv))) d))" using assms by (simp add: comp_def)
  moreover have "item (map (\<lambda>kv. (fst kv, sort_keys (snd kv))) d) k = sort_keys (item d k)"
    by (induction d) (auto simp: item_def)
  ultimately show ?thesis by (simp add: item_sort_key)
qed

lemma sort_keys_eq_iff [simp]:
  "sort_keys v = PNone \<longleftrightarrow> v = PNone" "sort_keys v = PInt i \<longleftrightarrow> v = PInt i"
  by (cases v; simp)+

lemma plain_update: "plain (PDict d) \<Longrightarrow> is_ascii k \<Longrightarrow> plain v \<Longrightarrow> plain (PDict (AList.update k v d))"
  by (auto simp: distinct_update list_all_iff dest!: set_update_subset [THEN subsetD])

lemma plain_small: "0 \<le> i \<Longrightarrow> i < 1000 \<Longrightarrow> plain (PInt i)"
  using length_show_nat [of "nat i" 3] by (simp add: nat_less_iff)

lemma plain_item: "plain (PDict d) \<Longrightarrow> plain (item d k)"
  by (auto simp: item_def list_all_iff dest!: map_of_SomeD split: option.split)

lemma length_dumps_sorted: "length (dumps_sorted v) = length (dumps v)"
  unfolding dumps_sorted_def
proof (induction v rule: sort_keys.induct)
  case (1 xs)
  then have "(\<Sum>x\<leftarrow>xs. length (dumps (sort_keys x))) = (\<Sum>x\<leftarrow>xs. length (dumps x))"
    by (intro arg_cong [where f = sum_list] map_cong) auto
  then show ?case by (simp add: length_join comp_def)
next
  case (2 d)
  then have "(\<Sum>kv\<leftarrow>d. length (quote (fst kv)) + Suc (length (dumps (sort_keys (snd kv)))))
      = (\<Sum>kv\<leftarrow>d. length (quote (fst kv)) + Suc (length (dumps (snd kv))))"
    by (intro arg_cong [where f = sum_list] map_cong) auto
  then show ?case
    unfolding sort_keys.simps length_dumps_sort_key by (simp add: length_join comp_def)
qed simp_all

section \<open>Stored records\<close>

text \<open>
  The contract of a component that keeps one small record in a file: the record is written as a
  flat dictionary with sorted keys, and the reader of the component, given that dictionary,
  returns the record. \<open>ok\<close> is the range of values the reader admits.
\<close>

locale stored_record =
  fixes ok :: "'a \<Rightarrow> bool" and enc :: "'a \<Rightarrow> dict" and dec :: "pv \<Rightarrow> 'e + 'a" and limit :: nat
  assumes flat: "ok x \<Longrightarrow> list_all (\<lambda>kv. scalar (snd kv)) (enc x)"
    and plain_enc: "ok x \<Longrightarrow> plain (PDict (enc x))"
    and dec_enc: "ok x \<Longrightarrow> dec (PDict (sort_key fst (enc x))) = Inr x"
    and small: "ok x \<Longrightarrow> length (dumps (PDict (enc x))) \<le> limit"
begin

lemma decode_enc:
  assumes "ok x" "keeps_distinct hook"
  shows "decode_json hook (dumps_sorted (PDict (enc x))) = Inr (PDict (sort_key fst (enc x)))"
  using decode_json_dumps_sorted [OF assms(2) plain_enc [OF assms(1)]]
  unfolding sort_keys_flat [OF flat [OF assms(1)]] .

lemma read_back:
  assumes "ok x" "keeps_distinct hook" "decode_json hook (dumps_sorted (PDict (enc x))) = Inr v"
  shows "dec v = Inr x"
  using decode_enc [OF assms(1,2)] dec_enc [OF assms(1)] assms(3) by simp

lemma fits: "ok x \<Longrightarrow> length (dumps_sorted (PDict (enc x))) \<le> limit"
  using small [of x] length_dumps_sort_key [of "enc x"]
  by (simp add: dumps_sorted_def sort_keys_flat flat del: dumps.simps sort_keys.simps)

end

end
