(* ===== verification/Deadman.thy ===== *)
theory Deadman
  imports Json
begin

text \<open>
  The receiver of the independent dead-man pulse
  (\<^verbatim>\<open>ansible/roles/observability_deadman/files/observability-deadman.py\<close>).

  The configuration and the persistent state are the JSON documents of the source, validated
  as the source validates them and then read into records. The disk is a record of the two
  files the program owns: the replay state and the recovery outbox. Every operation that holds
  the state lock is one durable program, so the disks it publishes are the points at which the
  process can die.

  Parameters, for library code whose result no claim depends on: \<open>isoparse\<close>, the reading of
  \<open>datetime.fromisoformat\<close> (whether the zone is UTC, and the truncated timestamp), and \<open>hmac\<close>, the
  hexadecimal HMAC-SHA256 of a key and a message. The exchanges with Telegram and with the
  control plane are lists of responses, one per attempt.
\<close>

section \<open>Constants and errors\<close>

datatype derr = DeadmanError string | Raised pyexc

definition MAX_STATE_BYTES :: nat where
  "MAX_STATE_BYTES = 4096"

definition MAX_TELEGRAM_ERROR_BYTES :: nat where
  "MAX_TELEGRAM_ERROR_BYTES = 1024"

definition MAX_INT :: int where
  "MAX_INT = 2 ^ 63 - 1"

definition GENERATION :: "string \<Rightarrow> bool" where
  "GENERATION s \<longleftrightarrow> (length s = 40 \<or> length s = 64) \<and> list_all is_hex s"

definition SIGNATURE :: "string \<Rightarrow> bool" where
  "SIGNATURE s \<longleftrightarrow> hex64 s"

definition REVERSE_HEALTH_URL :: "string \<Rightarrow> bool" where
  "REVERSE_HEALTH_URL s \<longleftrightarrow>
     (let suffix = '':9443/observability/v1/deadman/reverse'' in
      starts_with ''https://'' s \<and> ends_with suffix s \<and> length suffix + 8 < length s
      \<and> head_tail is_alnum (\<lambda>c. is_alnum c \<or> c = CHR ''.'' \<or> c = CHR ''-'') 0 252
          (take (length s - length suffix - 8) (drop 8 s)))"

definition dns_label :: "string \<Rightarrow> bool" where
  "dns_label s \<longleftrightarrow> s \<noteq> [] \<and> length s \<le> 63 \<and> list_all (\<lambda>c. is_alnum_lower c \<or> c = CHR ''-'') s
     \<and> is_alnum_lower (hd s) \<and> is_alnum_lower (last s)"

definition PULSE_SERVER_NAME :: "string \<Rightarrow> bool" where
  "PULSE_SERVER_NAME s \<longleftrightarrow> s = ''localhost''
     \<or> (let labels = split_on (CHR ''.'') s in
        2 \<le> length labels \<and> length labels \<le> 5 \<and> list_all dns_label labels)"

definition unit_name :: "string \<Rightarrow> bool" where
  "unit_name s \<longleftrightarrow> ends_with ''.service'' s
     \<and> head_tail is_alnum_lower
         (\<lambda>c. is_alnum_lower c \<or> c = CHR ''@'' \<or> c = CHR ''_'' \<or> c = CHR ''.'' \<or> c = CHR ''-'') 0 63
         (take (length s - 8) s)"

definition credential_name :: "string \<Rightarrow> bool" where
  "credential_name s = head_tail is_lower (\<lambda>c. is_alnum_lower c \<or> c = CHR ''-'') 0 63 s"

definition chat_id_pattern :: "string \<Rightarrow> bool" where
  "chat_id_pattern s = repeated is_digit 6 20 (if starts_with ''-'' s then tl s else s)"

section \<open>Configuration\<close>

record dconfig =
  pulse_interval_seconds :: int
  missed_pulse_limit :: int
  max_future_seconds :: int
  max_pulse_bytes :: int
  retry_attempts :: int
  retry_timeout_seconds :: int
  reminder_interval_seconds :: int
  canary_interval_seconds :: int
  reverse_health_url :: string
  reverse_health_max_bytes :: int
  config_generation :: string
  required_units :: "string list"
  chat_id :: string
  topic_id :: int

definition config_fields :: "string list" where
  "config_fields = [''schema'', ''pulse_path'', ''pulse_interval_seconds'', ''missed_pulse_limit'',
     ''max_future_seconds'', ''max_pulse_bytes'', ''retry_attempts'', ''retry_timeout_seconds'',
     ''reminder_interval_seconds'', ''canary_interval_seconds'', ''reverse_health_url'',
     ''reverse_health_max_bytes'', ''source_generation'', ''required_units'', ''pulse_tls'',
     ''reverse_health_tls'', ''telegram'']"

text \<open>
  \<open>v in range(lo, hi)\<close>: the numbers that compare equal to an int of the range. \<open>range_value\<close> is
  that int, which is what arithmetic on the value uses.
\<close>

definition in_range :: "pv \<Rightarrow> int \<Rightarrow> int \<Rightarrow> bool" where
  "in_range v lo hi = list_ex (eq_int v) [lo..hi - 1]"

definition range_value :: "pv \<Rightarrow> int \<Rightarrow> int \<Rightarrow> int" where
  "range_value v lo hi = (case find (eq_int v) [lo..hi - 1] of Some n \<Rightarrow> n | None \<Rightarrow> lo)"

definition unhashable :: "pv \<Rightarrow> bool" where
  "unhashable v \<longleftrightarrow> is_list v \<or> is_dict v"

text \<open>What \<open>set(data) != required\<close> followed by \<open>data.get\<close> does when the document is not an object.\<close>

definition not_an_object :: "string list \<Rightarrow> pv \<Rightarrow> derr" where
  "not_an_object names data = (case data of
     PList xs \<Rightarrow> if list_ex unhashable xs then Raised TypeError
       else if set xs = PStr ` set names then Raised AttributeError
       else DeadmanError ''invalid config''
   | PStr s \<Rightarrow> DeadmanError ''invalid config''
   | _ \<Rightarrow> Raised TypeError)"

definition bad_pulse_tls :: "pv \<Rightarrow> bool" where
  "bad_pulse_tls v \<longleftrightarrow> \<not> is_dict v
     \<or> \<not> keys_are (dict_of v) [''server_name'', ''server_cert_credential'', ''server_key_credential'']
     \<or> \<not> is_str (item (dict_of v) ''server_name'')
     \<or> \<not> PULSE_SERVER_NAME (str_of (item (dict_of v) ''server_name''))
     \<or> item (dict_of v) ''server_cert_credential'' \<noteq> PStr ''pulse-server-cert''
     \<or> item (dict_of v) ''server_key_credential'' \<noteq> PStr ''pulse-server-key''"

definition bad_reverse_tls :: "pv \<Rightarrow> bool" where
  "bad_reverse_tls v \<longleftrightarrow>
     (let tls = dict_of v; get = item tls in
      \<not> is_dict v
      \<or> \<not> keys_are tls [''ca_credential'', ''client_cert_credential'', ''client_key_credential'',
            ''client_cn'', ''client_cert_fingerprint_sha256'', ''ca_fingerprint_sha256'']
      \<or> list_ex (\<lambda>k. \<not> is_str (get k) \<or> \<not> credential_name (str_of (get k)))
            [''ca_credential'', ''client_cert_credential'', ''client_key_credential'']
      \<or> get ''client_cn'' \<noteq> PStr ''deadman-control''
      \<or> list_ex (\<lambda>k. \<not> is_str (get k) \<or> \<not> SIGNATURE (str_of (get k)))
            [''client_cert_fingerprint_sha256'', ''ca_fingerprint_sha256'']
      \<or> get ''client_cert_fingerprint_sha256'' = get ''ca_fingerprint_sha256'')"

definition bad_units :: "pv \<Rightarrow> bool" where
  "bad_units v \<longleftrightarrow> \<not> distinct (list_of v)
     \<or> list_ex (\<lambda>u. \<not> is_str u \<or> \<not> unit_name (str_of u)) (list_of v)"

definition validate_config :: "pv \<Rightarrow> derr + dconfig" where
  "validate_config v =
     (let data = dict_of v; bad = DeadmanError ''invalid config'' in
      if \<not> is_dict v then Inl (not_an_object config_fields v)
      else if \<not> keys_are data config_fields \<or> \<not> eq_int (item data ''schema'') 1 then Inl bad
      else if item data ''pulse_path'' \<noteq> PStr ''/v1/pulse''
           \<or> \<not> eq_int (item data ''pulse_interval_seconds'') 60 then Inl bad
      else if \<not> eq_int (item data ''missed_pulse_limit'') 5
           \<or> \<not> eq_int (item data ''max_future_seconds'') 30 then Inl bad
      else if \<not> isinstance_int (item data ''max_pulse_bytes'')
           \<or> \<not> (512 \<le> int_of (item data ''max_pulse_bytes'') \<and> int_of (item data ''max_pulse_bytes'') \<le> 4096)
        then Inl bad
      else if \<not> in_range (item data ''retry_attempts'') 1 3
           \<or> \<not> in_range (item data ''retry_timeout_seconds'') 1 6 then Inl bad
      else if \<not> eq_int (item data ''reminder_interval_seconds'') 3600
           \<or> \<not> eq_int (item data ''canary_interval_seconds'') 86400 then Inl bad
      else if \<not> is_str (item data ''reverse_health_url'')
           \<or> \<not> REVERSE_HEALTH_URL (str_of (item data ''reverse_health_url'')) then Inl bad
      else if \<not> in_range (item data ''reverse_health_max_bytes'') 256 4097 then Inl bad
      else if bad_pulse_tls (item data ''pulse_tls'') then Inl bad
      else if \<not> is_str (item data ''source_generation'')
           \<or> \<not> GENERATION (str_of (item data ''source_generation'')) then Inl bad
      else if \<not> is_list (item data ''required_units'')
           \<or> \<not> (1 \<le> length (list_of (item data ''required_units''))
                \<and> length (list_of (item data ''required_units'')) \<le> 8) then Inl bad
      else if list_ex unhashable (list_of (item data ''required_units'')) then Inl (Raised TypeError)
      else if bad_units (item data ''required_units'') then Inl bad
      else if bad_reverse_tls (item data ''reverse_health_tls'') then Inl bad
      else
        (let telegram = dict_of (item data ''telegram'') in
         if \<not> is_dict (item data ''telegram'') \<or> \<not> keys_are telegram [''chat_id'', ''topic_id''] then Inl bad
         else if \<not> is_str (item telegram ''chat_id'') \<or> \<not> chat_id_pattern (str_of (item telegram ''chat_id''))
           then Inl bad
         else if \<not> isinstance_int (item telegram ''topic_id'') \<or> int_of (item telegram ''topic_id'') < 0
           then Inl bad
         else Inr \<lparr>
           pulse_interval_seconds = 60, missed_pulse_limit = 5, max_future_seconds = 30,
           max_pulse_bytes = int_of (item data ''max_pulse_bytes''),
           retry_attempts = range_value (item data ''retry_attempts'') 1 3,
           retry_timeout_seconds = range_value (item data ''retry_timeout_seconds'') 1 6,
           reminder_interval_seconds = 3600, canary_interval_seconds = 86400,
           reverse_health_url = str_of (item data ''reverse_health_url''),
           reverse_health_max_bytes = range_value (item data ''reverse_health_max_bytes'') 256 4097,
           config_generation = str_of (item data ''source_generation''),
           required_units = map str_of (list_of (item data ''required_units'')),
           chat_id = str_of (item telegram ''chat_id''),
           topic_id = int_of (item telegram ''topic_id'')\<rparr>))"

definition load_config :: "string option \<Rightarrow> derr + dconfig" where
  "load_config raw = (case raw of
     None \<Rightarrow> Inl (DeadmanError ''invalid config'')
   | Some bytes \<Rightarrow>
       if MAX_STATE_BYTES < length bytes then Inl (DeadmanError ''invalid config'')
       else (case decode_json unique_hook bytes of
           Inl (Json JDigits) \<Rightarrow> Inl (Raised ValueError)
         | Inl _ \<Rightarrow> Inl (DeadmanError ''invalid config'')
         | Inr data \<Rightarrow> validate_config data))"

section \<open>Persistent state\<close>

datatype delivery = DNever | DFiring | DRecovery | DFailed
datatype canary_delivery = CNever | CSuccess | CFailed
datatype event = ENone | EFiring | ERecovery | ECanary

record dstate =
  source_generation :: string
  last_sequence :: int
  last_reverse_sequence :: int
  last_expiry :: int
  last_pulse :: int
  incident :: bool
  last_delivery :: delivery
  last_delivery_at :: int
  last_canary :: int
  last_canary_delivery :: canary_delivery
  pending_event :: event
  pending_nonce :: int
  pending_at :: int

datatype phase = Queued | Complete

record intent =
  phase :: phase
  created_at :: int
  attempt_nonce :: int
  next_attempt_at :: int

record ddisk =
  state_file :: "inode option"
  recovery_file :: "inode option"
  euid :: int

definition empty_state :: "string \<Rightarrow> dstate" where
  "empty_state generation = \<lparr>source_generation = generation, last_sequence = 0,
     last_reverse_sequence = 0, last_expiry = 0, last_pulse = 0, incident = False,
     last_delivery = DNever, last_delivery_at = 0, last_canary = 0, last_canary_delivery = CNever,
     pending_event = ENone, pending_nonce = 0, pending_at = 0\<rparr>"

primrec delivery_name :: "delivery \<Rightarrow> string" where
  "delivery_name DNever = ''never''"
| "delivery_name DFiring = ''firing''"
| "delivery_name DRecovery = ''recovery''"
| "delivery_name DFailed = ''failed''"

primrec canary_name :: "canary_delivery \<Rightarrow> string" where
  "canary_name CNever = ''never''"
| "canary_name CSuccess = ''success''"
| "canary_name CFailed = ''failed''"

primrec event_name :: "event \<Rightarrow> string" where
  "event_name ENone = ''none''"
| "event_name EFiring = ''firing''"
| "event_name ERecovery = ''recovery''"
| "event_name ECanary = ''canary''"

primrec phase_name :: "phase \<Rightarrow> string" where
  "phase_name Queued = ''queued''"
| "phase_name Complete = ''complete''"

definition by_name :: "('a \<Rightarrow> string) \<Rightarrow> 'a list \<Rightarrow> pv \<Rightarrow> 'a option" where
  "by_name name xs v = (case v of PStr s \<Rightarrow> find (\<lambda>x. name x = s) xs | _ \<Rightarrow> None)"

text \<open>The state as the dictionary of the source, in its field order.\<close>

definition state_dict :: "dstate \<Rightarrow> dict" where
  "state_dict s =
     [(''schema'', PInt 2), (''source_generation'', PStr (source_generation s)),
      (''last_sequence'', PInt (last_sequence s)),
      (''last_reverse_sequence'', PInt (last_reverse_sequence s)),
      (''last_expiry'', PInt (last_expiry s)), (''last_pulse'', PInt (last_pulse s)),
      (''incident'', PBool (incident s)),
      (''last_delivery'', PStr (delivery_name (last_delivery s))),
      (''last_delivery_at'', PInt (last_delivery_at s)), (''last_canary'', PInt (last_canary s)),
      (''last_canary_delivery'', PStr (canary_name (last_canary_delivery s))),
      (''pending_event'', PStr (event_name (pending_event s))),
      (''pending_nonce'', PInt (pending_nonce s)), (''pending_at'', PInt (pending_at s))]"

definition state_fields :: "string list" where
  "state_fields = [''schema'', ''source_generation'', ''last_sequence'', ''last_reverse_sequence'',
     ''last_expiry'', ''last_pulse'', ''incident'', ''last_delivery'', ''last_delivery_at'',
     ''last_canary'', ''last_canary_delivery'', ''pending_event'', ''pending_nonce'', ''pending_at'']"

definition counter_value :: "pv \<Rightarrow> bool" where
  "counter_value v \<longleftrightarrow> type_is_int v \<and> 0 \<le> int_of v \<and> int_of v \<le> MAX_INT"

definition read_state_dict :: "pv \<Rightarrow> derr + dstate" where
  "read_state_dict v =
     (let data = dict_of v; unsafe = DeadmanError ''unsafe state'' in
      if \<not> is_dict v then Inl unsafe
      else if \<not> keys_are data state_fields then Inl unsafe
      else if item data ''schema'' \<noteq> PInt 2
        \<or> \<not> is_str (item data ''source_generation'')
        \<or> \<not> GENERATION (str_of (item data ''source_generation''))
        \<or> \<not> list_all (\<lambda>k. counter_value (item data k))
             [''last_sequence'', ''last_reverse_sequence'', ''last_expiry'', ''last_pulse'',
              ''last_delivery_at'', ''last_canary'', ''pending_nonce'', ''pending_at'']
        \<or> \<not> is_bool (item data ''incident'') then Inl unsafe
      else if unhashable (item data ''last_delivery'') then Inl (Raised TypeError)
      else (case by_name delivery_name [DNever, DFiring, DRecovery, DFailed] (item data ''last_delivery'') of
        None \<Rightarrow> Inl unsafe | Some delivered \<Rightarrow>
      if unhashable (item data ''last_canary_delivery'') then Inl (Raised TypeError)
      else (case by_name canary_name [CNever, CSuccess, CFailed] (item data ''last_canary_delivery'') of
        None \<Rightarrow> Inl unsafe | Some canary \<Rightarrow>
      if unhashable (item data ''pending_event'') then Inl (Raised TypeError)
      else (case by_name event_name [ENone, EFiring, ERecovery, ECanary] (item data ''pending_event'') of
        None \<Rightarrow> Inl unsafe | Some pending \<Rightarrow>
          Inr \<lparr>source_generation = str_of (item data ''source_generation''),
               last_sequence = int_of (item data ''last_sequence''),
               last_reverse_sequence = int_of (item data ''last_reverse_sequence''),
               last_expiry = int_of (item data ''last_expiry''),
               last_pulse = int_of (item data ''last_pulse''),
               incident = bool_of (item data ''incident''),
               last_delivery = delivered,
               last_delivery_at = int_of (item data ''last_delivery_at''),
               last_canary = int_of (item data ''last_canary''),
               last_canary_delivery = canary, pending_event = pending,
               pending_nonce = int_of (item data ''pending_nonce''),
               pending_at = int_of (item data ''pending_at'')\<rparr>))))"

definition load_state :: "string option \<Rightarrow> ddisk \<Rightarrow> derr + dstate" where
  "load_state generation disk = (case state_file disk of
     None \<Rightarrow> (case generation of
         None \<Rightarrow> Inl (DeadmanError ''unsafe state'')
       | Some g \<Rightarrow> if GENERATION g then Inr (empty_state g) else Inl (DeadmanError ''unsafe state''))
   | Some f \<Rightarrow>
       if fkind f \<noteq> Regular \<or> fmode f \<noteq> 384 \<or> MAX_STATE_BYTES < length (fbytes f)
       then Inl (DeadmanError ''unsafe state'')
       else (case decode_json unique_hook (fbytes f) of
           Inl (Json JDigits) \<Rightarrow> Inl (Raised ValueError)
         | Inl _ \<Rightarrow> Inl (DeadmanError ''unsafe state'')
         | Inr data \<Rightarrow> read_state_dict data))"

text \<open>
  \<open>_save_state\<close>: the document is encoded and its size checked before the temporary file is
  written, synchronised and renamed over the target; nothing is published when it is too big.
\<close>

definition save_state :: "dict \<Rightarrow> (inode \<Rightarrow> ddisk \<Rightarrow> ddisk) \<Rightarrow> (ddisk, derr, unit) dio" where
  "save_state data place =
     (let encoded = dumps_sorted (PDict data) in
      if MAX_STATE_BYTES < length encoded then fail (DeadmanError ''unsafe state'')
      else publish (\<lambda>disk. place (atomic_write (euid disk) encoded) disk))"

definition put_state :: "dstate \<Rightarrow> (ddisk, derr, unit) dio" where
  "put_state s = save_state (state_dict s) (\<lambda>f disk. disk\<lparr>state_file := Some f\<rparr>)"

definition intent_dict :: "intent \<Rightarrow> dict" where
  "intent_dict i = [(''schema'', PInt 1), (''phase'', PStr (phase_name (phase i))),
     (''created_at'', PInt (created_at i)), (''attempt_nonce'', PInt (attempt_nonce i)),
     (''next_attempt_at'', PInt (next_attempt_at i))]"

definition put_intent :: "intent \<Rightarrow> (ddisk, derr, unit) dio" where
  "put_intent i = save_state (intent_dict i) (\<lambda>f disk. disk\<lparr>recovery_file := Some f\<rparr>)"

definition read_intent_dict :: "pv \<Rightarrow> derr + intent" where
  "read_intent_dict v =
     (let data = dict_of v; unsafe = DeadmanError ''unsafe recovery intent'' in
      if \<not> is_dict v
        \<or> \<not> keys_are data [''schema'', ''phase'', ''created_at'', ''attempt_nonce'', ''next_attempt_at'']
        \<or> item data ''schema'' \<noteq> PInt 1 then Inl unsafe
      else if unhashable (item data ''phase'') then Inl (Raised TypeError)
      else (case by_name phase_name [Queued, Complete] (item data ''phase'') of
          None \<Rightarrow> Inl unsafe
        | Some ph \<Rightarrow>
          if \<not> list_all (\<lambda>k. counter_value (item data k)) [''created_at'', ''attempt_nonce'', ''next_attempt_at'']
          then Inl unsafe
          else Inr \<lparr>phase = ph, created_at = int_of (item data ''created_at''),
                    attempt_nonce = int_of (item data ''attempt_nonce''),
                    next_attempt_at = int_of (item data ''next_attempt_at'')\<rparr>))"

text \<open>
  A missing outbox is \<open>None\<close>. A symbolic link makes \<open>os.open\<close> fail outside the \<open>try\<close>, so that
  \<open>OSError\<close> is not converted. JSON errors are \<open>ValueError\<close>s here; duplicate keys raise
  \<open>DeadmanError\<close> from the hook with its own message.
\<close>

definition load_intent :: "ddisk \<Rightarrow> derr + intent option" where
  "load_intent disk = (case recovery_file disk of
     None \<Rightarrow> Inr None
   | Some f \<Rightarrow>
       if fkind f = Symlink then Inl (Raised OSError)
       else if fkind f \<noteq> Regular \<or> fuid f \<noteq> euid disk \<or> fnlink f \<noteq> 1 \<or> fmode f \<noteq> 384
         \<or> MAX_STATE_BYTES < length (fbytes f)
       then Inl (DeadmanError ''unsafe recovery intent'')
       else (case decode_json unique_hook (fbytes f) of
           Inl (Json JHook) \<Rightarrow> Inl (DeadmanError ''invalid pulse'')
         | Inl _ \<Rightarrow> Inl (DeadmanError ''unsafe recovery intent'')
         | Inr data \<Rightarrow> (case read_intent_dict data of Inl e \<Rightarrow> Inl e | Inr i \<Rightarrow> Inr (Some i))))"

section \<open>Pulses\<close>

definition canonical :: "dict \<Rightarrow> string" where
  "canonical payload = dumps_sorted (PDict (AList.delete ''signature'' payload))"

definition instant :: "(string \<Rightarrow> (bool \<times> int) option) \<Rightarrow> pv \<Rightarrow> int \<Rightarrow> int \<Rightarrow> derr + int" where
  "instant isoparse value now future =
     (let bad = DeadmanError ''invalid pulse'' in
      if \<not> is_str value \<or> \<not> ends_with ''Z'' (str_of value) then Inl bad
      else (case isoparse (butlast (str_of value) @ ''+00:00'') of
          None \<Rightarrow> Inl bad
        | Some (utc, stamp) \<Rightarrow>
            if \<not> utc then Inl bad
            else if stamp < 0 \<or> now + future < stamp then Inl bad
            else Inr stamp))"

definition pulse_fields :: "string list" where
  "pulse_fields = [''schema'', ''generation'', ''sequence'', ''issued_at'', ''expires_at'', ''health'', ''signature'']"

definition health_fields :: "string list" where
  "health_fields = [''prometheus'', ''alertmanager'', ''canary'', ''primary_telegram'']"

definition accept_pulse ::
  "(string \<Rightarrow> (bool \<times> int) option) \<Rightarrow> (string \<Rightarrow> string \<Rightarrow> string) \<Rightarrow>
   string \<Rightarrow> string \<Rightarrow> dstate \<Rightarrow> dconfig \<Rightarrow> int \<Rightarrow> derr + dstate" where
  "accept_pulse isoparse hmac raw token state config now =
     (let bad = DeadmanError ''invalid pulse'' in
      if max_pulse_bytes config < int (length raw) then Inl bad
      else (case decode_json unique_hook raw of
          Inl (Json JDigits) \<Rightarrow> Inl (Raised ValueError)
        | Inl _ \<Rightarrow> Inl bad
        | Inr v \<Rightarrow>
      let pulse = dict_of v; get = item pulse in
      if \<not> is_dict v \<or> \<not> keys_are pulse pulse_fields \<or> get ''schema'' \<noteq> PInt 1 then Inl bad
      else if \<not> is_str (get ''generation'') \<or> \<not> GENERATION (str_of (get ''generation''))
           \<or> str_of (get ''generation'') \<noteq> config_generation config then Inl bad
      else if \<not> type_is_int (get ''sequence'')
           \<or> int_of (get ''sequence'') \<le>
               (if source_generation state = config_generation config then last_sequence state else 0)
           \<or> MAX_INT < int_of (get ''sequence'') then Inl bad
      else bind_res (instant isoparse (get ''issued_at'') now (max_future_seconds config)) (\<lambda>issued.
           bind_res (instant isoparse (get ''expires_at'') now (max_future_seconds config)) (\<lambda>expiry.
      if expiry < issued \<or> expiry \<le> now \<or> expiry \<le> last_expiry state then Inl bad
      else
        (let health = dict_of (get ''health'') in
         if \<not> is_dict (get ''health'') \<or> \<not> keys_are health health_fields
           \<or> \<not> list_all (\<lambda>kv. is_bool (snd kv)) health then Inl bad
         else if \<not> is_str (get ''signature'') \<or> \<not> SIGNATURE (str_of (get ''signature'')) then Inl bad
         else if hmac token (canonical pulse) \<noteq> str_of (get ''signature'') then Inl bad
         else if \<not> list_all (\<lambda>kv. bool_of (snd kv)) health then Inl (DeadmanError ''unhealthy pulse'')
         else Inr (state\<lparr>source_generation := config_generation config,
                         last_sequence := int_of (get ''sequence''),
                         last_expiry := expiry, last_pulse := now\<rparr>))))))"

definition accept_and_save ::
  "(string \<Rightarrow> (bool \<times> int) option) \<Rightarrow> (string \<Rightarrow> string \<Rightarrow> string) \<Rightarrow>
   string \<Rightarrow> string \<Rightarrow> dconfig \<Rightarrow> int \<Rightarrow> (ddisk, derr, dstate) dio" where
  "accept_and_save isoparse hmac raw token config now =
     seq (look (load_state (Some (config_generation config)))) (\<lambda>state.
     seq (look (\<lambda>_. accept_pulse isoparse hmac raw token state config now)) (\<lambda>accepted.
     seq (put_state accepted) (\<lambda>_. ret accepted)))"

section \<open>Deliveries\<close>

definition overdue :: "dconfig \<Rightarrow> int \<Rightarrow> dstate \<Rightarrow> bool" where
  "overdue config now state \<longleftrightarrow> source_generation state \<noteq> config_generation config
     \<or> last_pulse state = 0
     \<or> pulse_interval_seconds config * missed_pulse_limit config \<le> now - last_pulse state"

text \<open>The four stages of \<open>_reserve_delivery\<close> before it chooses an event, in the order of the source.\<close>

definition end_incident ::
  "bool \<Rightarrow> int \<Rightarrow> dstate \<Rightarrow> intent option \<Rightarrow> (ddisk, derr, dstate \<times> intent option) dio" where
  "end_incident late now state intent =
     (if \<not> late \<and> incident state then
        let renew = (case intent of None \<Rightarrow> True
              | Some i \<Rightarrow> phase i = Complete
                  \<or> (pending_event state = ERecovery \<and> attempt_nonce i = pending_nonce state));
            fresh = \<lparr>phase = Queued, created_at = now, attempt_nonce = 0, next_attempt_at = now\<rparr>;
            state' = state\<lparr>incident := False\<rparr>
        in seq (only_if renew (put_intent fresh)) (\<lambda>_.
           seq (put_state state') (\<lambda>_. ret (state', if renew then Some fresh else intent)))
      else ret (state, intent))"

definition start_incident :: "bool \<Rightarrow> dstate \<Rightarrow> (ddisk, derr, dstate) dio" where
  "start_incident late state =
     (if late \<and> \<not> incident state then
        let state' = state\<lparr>incident := True, last_delivery_at := 0\<rparr>
        in seq (put_state state') (\<lambda>_. ret state')
      else ret state)"

definition acknowledge :: "dstate \<Rightarrow> intent option \<Rightarrow> (ddisk, derr, dstate) dio" where
  "acknowledge state intent = (case intent of
     None \<Rightarrow> ret state
   | Some i \<Rightarrow>
       if pending_event state = ERecovery \<and> phase i = Complete \<and> attempt_nonce i = pending_nonce state
       then let state' = state\<lparr>pending_event := ENone, pending_at := 0, last_delivery := DRecovery\<rparr>
            in seq (put_state state') (\<lambda>_. ret state')
       else ret state)"

definition expire_pending :: "dconfig \<Rightarrow> int \<Rightarrow> dstate \<Rightarrow> (ddisk, derr, dstate) dio" where
  "expire_pending config now state =
     (if pending_event state \<noteq> ENone
        \<and> retry_attempts config * retry_timeout_seconds config + 1 \<le> now - pending_at state then
        let failed =
              (if pending_event state = ECanary
               then state\<lparr>last_canary_delivery := CFailed, last_canary := pending_at state\<rparr>
               else state\<lparr>last_delivery := DFailed, last_delivery_at :=
                      (if pending_event state = ERecovery \<and> incident state then 0 else pending_at state)\<rparr>);
            state' = failed\<lparr>pending_event := ENone, pending_at := 0\<rparr>
        in seq (put_state state') (\<lambda>_. ret state')
      else ret state)"

definition choose_event ::
  "dconfig \<Rightarrow> int \<Rightarrow> bool \<Rightarrow> bool \<Rightarrow> dstate \<Rightarrow> intent option \<Rightarrow> event" where
  "choose_event config now late was_incident state intent =
     (let notification_due = reminder_interval_seconds config \<le> now - last_delivery_at state;
          event = (if late \<and> (\<not> was_incident \<or> notification_due \<or> last_delivery state = DRecovery) then EFiring
                   else if \<not> late \<and> (case intent of None \<Rightarrow> False
                          | Some i \<Rightarrow> phase i = Queued \<and> next_attempt_at i \<le> now) then ERecovery
                   else ENone)
      in if \<not> late \<and> event = ENone
           \<and> (canary_interval_seconds config \<le> now - last_canary state
              \<or> (last_canary_delivery state = CFailed
                 \<and> reminder_interval_seconds config \<le> now - last_canary state))
         then ECanary else event)"

definition reserve_event ::
  "dconfig \<Rightarrow> int \<Rightarrow> event \<Rightarrow> dstate \<Rightarrow> intent option \<Rightarrow>
   (ddisk, derr, dstate \<times> (event \<times> int) option) dio" where
  "reserve_event config now event state intent =
     (let s5 = (if event = EFiring then state\<lparr>incident := True\<rparr> else state) in
      if event = ENone then ret (s5, None)
      else if MAX_INT \<le> pending_nonce s5 then fail (DeadmanError ''delivery sequence exhausted'')
      else
        let s6 = s5\<lparr>pending_nonce := pending_nonce s5 + 1, pending_event := event, pending_at := now\<rparr> in
        seq (case intent of
            Some i \<Rightarrow> only_if (event = ERecovery) (put_intent (i\<lparr>attempt_nonce := pending_nonce s6,
                next_attempt_at := now + reminder_interval_seconds config\<rparr>))
          | None \<Rightarrow> ret ()) (\<lambda>_.
        seq (put_state s6) (\<lambda>_. ret (s6, Some (event, pending_nonce s6)))))"

definition reserve_delivery ::
  "dconfig \<Rightarrow> int \<Rightarrow> (ddisk, derr, dstate \<times> (event \<times> int) option) dio" where
  "reserve_delivery config now =
     seq (look (load_state (Some (config_generation config)))) (\<lambda>s0.
     seq (look load_intent) (\<lambda>i0.
     let late = overdue config now s0; was_incident = incident s0 in
     seq (end_incident late now s0 i0) (\<lambda>(s1, i1).
     seq (start_incident late s1) (\<lambda>s2.
     seq (acknowledge s2 i1) (\<lambda>s3.
     seq (expire_pending config now s3) (\<lambda>s4.
     if pending_event s4 \<noteq> ENone then ret (s4, None)
     else reserve_event config now (choose_event config now late was_incident s4 i1) s4 i1))))))"

definition complete_delivery :: "event \<Rightarrow> int \<Rightarrow> bool \<Rightarrow> int \<Rightarrow> (ddisk, derr, dstate) dio" where
  "complete_delivery event nonce success now =
     seq (look (load_state None)) (\<lambda>state.
     if pending_event state \<noteq> event \<or> pending_nonce state \<noteq> nonce then ret state
     else
       let cleared = state\<lparr>pending_event := ENone, pending_at := 0\<rparr>;
           state' = (if event = ECanary
             then cleared\<lparr>last_canary_delivery := (if success then CSuccess else CFailed), last_canary := now\<rparr>
             else cleared\<lparr>last_delivery :=
                    (if success then (if event = ERecovery then DRecovery else DFiring) else DFailed),
                  last_delivery_at := (if event = ERecovery \<and> incident state then 0 else now)\<rparr>);
           finish = seq (put_state state') (\<lambda>_. ret state')
       in if event = ERecovery then
            seq (look load_intent) (\<lambda>intent.
            (case intent of
               None \<Rightarrow> ret state
             | Some i \<Rightarrow> if attempt_nonce i \<noteq> nonce \<or> phase i \<noteq> Queued then ret state
                 else seq (only_if success (put_intent (i\<lparr>phase := Complete\<rparr>))) (\<lambda>_. finish)))
          else finish)"

definition reserve_reverse_sequence :: "(ddisk, derr, dstate) dio" where
  "reserve_reverse_sequence =
     seq (look (load_state None)) (\<lambda>state.
     if MAX_INT \<le> last_reverse_sequence state then fail (DeadmanError ''reverse sequence exhausted'')
     else
       let state' = state\<lparr>last_reverse_sequence := last_reverse_sequence state + 1\<rparr> in
       seq (put_state state') (\<lambda>_. ret state'))"

section \<open>What is stored can be read back\<close>

definition counter :: "int \<Rightarrow> bool" where
  "counter n \<longleftrightarrow> 0 \<le> n \<and> n \<le> MAX_INT"

definition state_ok :: "dstate \<Rightarrow> bool" where
  "state_ok s \<longleftrightarrow> GENERATION (source_generation s) \<and> counter (last_sequence s)
     \<and> counter (last_reverse_sequence s) \<and> counter (last_expiry s) \<and> counter (last_pulse s)
     \<and> counter (last_delivery_at s) \<and> counter (last_canary s) \<and> counter (pending_nonce s)
     \<and> counter (pending_at s)"

definition intent_ok :: "intent \<Rightarrow> bool" where
  "intent_ok i \<longleftrightarrow> counter (created_at i) \<and> counter (attempt_nonce i) \<and> counter (next_attempt_at i)"

lemma counter_value_PInt [simp]: "counter_value (PInt n) \<longleftrightarrow> counter n"
  by (simp add: counter_value_def counter_def)

lemma counter_length: "counter n \<Longrightarrow> length (show_int n) \<le> 19"
  by (rule length_show_int) (auto simp: counter_def MAX_INT_def)

lemma counter_plain: "counter n \<Longrightarrow> length (show_nat (nat \<bar>n\<bar>)) \<le> 4300"
  using counter_length [of n] by (simp add: show_int_def counter_def)

lemma GENERATION_hex: "GENERATION g \<Longrightarrow> list_all is_hex g \<and> length g \<le> 64"
  by (auto simp: GENERATION_def)

lemma is_ascii_hex: "list_all is_hex s \<Longrightarrow> is_ascii s"
  by (induction s) (auto simp: is_hex_def is_digit_def)

lemma names_unescaped:
  "list_all unescaped (delivery_name x)" "list_all unescaped (canary_name c)"
  "list_all unescaped (event_name e)" "list_all unescaped (phase_name p)"
  by (cases x; simp add: unescaped_def) (cases c; cases e; cases p; simp add: unescaped_def)+

lemma names_short:
  "length (delivery_name x) \<le> 8" "length (canary_name c) \<le> 8"
  "length (event_name e) \<le> 8" "length (phase_name p) \<le> 8"
  by (cases x; simp) (cases c; cases e; cases p; simp)+

lemma unescaped_ascii: "list_all unescaped s \<Longrightarrow> is_ascii s"
  by (induction s) (auto simp: unescaped_def)

lemmas names_ascii = names_unescaped [THEN unescaped_ascii]

lemma state_dict_plain: "state_ok s \<Longrightarrow> plain (PDict (state_dict s))"
  by (simp add: state_ok_def state_dict_def counter_plain GENERATION_hex is_ascii_hex names_ascii show_nat_small)

lemma by_name_simps:
  "by_name delivery_name [DNever, DFiring, DRecovery, DFailed] (PStr (delivery_name x)) = Some x"
  "by_name canary_name [CNever, CSuccess, CFailed] (PStr (canary_name c)) = Some c"
  "by_name event_name [ENone, EFiring, ERecovery, ECanary] (PStr (event_name e)) = Some e"
  "by_name phase_name [Queued, Complete] (PStr (phase_name p)) = Some p"
  by (cases x; simp add: by_name_def) (cases c; cases e; cases p; simp add: by_name_def)+

lemma unhashable_PStr [simp]: "\<not> unhashable (PStr s)"
  by (simp add: unhashable_def pv_tests)

lemma state_dict_keys: "distinct (map fst (state_dict s))" "keys_are (state_dict s) state_fields"
  by (simp_all add: state_dict_def state_fields_def keys_are_iff)

lemma state_items:
  "item (state_dict s) ''schema'' = PInt 2"
  "item (state_dict s) ''source_generation'' = PStr (source_generation s)"
  "item (state_dict s) ''last_sequence'' = PInt (last_sequence s)"
  "item (state_dict s) ''last_reverse_sequence'' = PInt (last_reverse_sequence s)"
  "item (state_dict s) ''last_expiry'' = PInt (last_expiry s)"
  "item (state_dict s) ''last_pulse'' = PInt (last_pulse s)"
  "item (state_dict s) ''incident'' = PBool (incident s)"
  "item (state_dict s) ''last_delivery'' = PStr (delivery_name (last_delivery s))"
  "item (state_dict s) ''last_delivery_at'' = PInt (last_delivery_at s)"
  "item (state_dict s) ''last_canary'' = PInt (last_canary s)"
  "item (state_dict s) ''last_canary_delivery'' = PStr (canary_name (last_canary_delivery s))"
  "item (state_dict s) ''pending_event'' = PStr (event_name (pending_event s))"
  "item (state_dict s) ''pending_nonce'' = PInt (pending_nonce s)"
  "item (state_dict s) ''pending_at'' = PInt (pending_at s)"
  by (simp_all add: state_dict_def)

lemma read_state_sorted:
  assumes "state_ok s"
  shows "read_state_dict (PDict (sort_key fst (state_dict s))) = Inr s"
proof -
  have i: "item (sort_key fst (state_dict s)) k = item (state_dict s) k" for k
    by (rule item_sort_key) (rule state_dict_keys)
  have k: "keys_are (sort_key fst (state_dict s)) state_fields"
    by (simp add: keys_are_sort_key state_dict_keys)
  show ?thesis
    using assms unfolding read_state_dict_def
    by (simp add: i k Let_def state_items state_ok_def by_name_simps)
qed

lemma state_dict_small: "state_ok s \<Longrightarrow> length (dumps (PDict (state_dict s))) \<le> MAX_STATE_BYTES"
proof -
  assume ok: "state_ok s"
  have gen: "length (quote (source_generation s)) \<le> 66"
    using ok by (auto simp: state_ok_def length_quote unescaped_hex dest: GENERATION_hex)
  have names: "length (quote (delivery_name x)) \<le> 66" "length (quote (canary_name c)) \<le> 66"
    "length (quote (event_name e)) \<le> 66" for x c e
    using names_short(1) [of x] names_short(2) [of c] names_short(3) [of e]
    by (simp_all add: length_quote names_unescaped)
  have numbers: "length (show_int 2) \<le> 66" "counter n \<Longrightarrow> length (show_int n) \<le> 66" for n
    using counter_length [of n] by (simp_all add: show_int_def show_nat_small)
  have keys: "length (quote k) \<le> 30" if "k \<in> set state_fields" for k
    using that by (auto simp: state_fields_def length_quote unescaped_def)
  have vals: "length (dumps v) \<le> 66" if "(k, v) \<in> set (state_dict s)" for k v
    using that ok by (auto simp: state_dict_def state_ok_def gen names numbers)
  have items: "length (quote (fst kv) @ '':'' @ dumps (snd kv)) \<le> 97" if "kv \<in> set (state_dict s)" for kv
  proof -
    have "fst kv \<in> set state_fields"
      using that state_dict_keys(2) [of s] by (auto simp: keys_are_iff)
    with keys [of "fst kv"] vals [of "fst kv" "snd kv"] that show ?thesis by simp
  qed
  have "sum_list (map (\<lambda>kv. length (quote (fst kv) @ '':'' @ dumps (snd kv))) (state_dict s))
      \<le> 97 * length (state_dict s)"
    using items by (rule sum_list_bound)
  moreover have "length (state_dict s) = 14" by (simp add: state_dict_def)
  ultimately show ?thesis
    unfolding MAX_STATE_BYTES_def dumps.simps length_append length_join
    by (simp add: comp_def)
qed

lemma intent_items:
  "item (intent_dict i) ''schema'' = PInt 1"
  "item (intent_dict i) ''phase'' = PStr (phase_name (phase i))"
  "item (intent_dict i) ''created_at'' = PInt (created_at i)"
  "item (intent_dict i) ''attempt_nonce'' = PInt (attempt_nonce i)"
  "item (intent_dict i) ''next_attempt_at'' = PInt (next_attempt_at i)"
  by (simp_all add: intent_dict_def)

lemma intent_dict_keys:
  "distinct (map fst (intent_dict i))"
  "keys_are (intent_dict i) [''schema'', ''phase'', ''created_at'', ''attempt_nonce'', ''next_attempt_at'']"
  by (simp_all add: intent_dict_def keys_are_iff)

lemma read_intent_sorted:
  assumes "intent_ok i"
  shows "read_intent_dict (PDict (sort_key fst (intent_dict i))) = Inr i"
  using assms unfolding read_intent_dict_def
  by (simp add: item_sort_key intent_dict_keys keys_are_sort_key Let_def intent_items intent_ok_def by_name_simps)

lemma intent_dict_small: "intent_ok i \<Longrightarrow> length (dumps (PDict (intent_dict i))) \<le> MAX_STATE_BYTES"
proof -
  assume ok: "intent_ok i"
  have n: "length (show_int (created_at i)) \<le> 19" "length (show_int (attempt_nonce i)) \<le> 19"
    "length (show_int (next_attempt_at i)) \<le> 19"
    using ok by (auto simp: intent_ok_def counter_length)
  have q: "length (quote (phase_name (phase i))) \<le> 10"
    using names_short(4) [of "phase i"] by (simp add: length_quote names_unescaped)
  have one: "length (show_int 1) \<le> 1" by (simp add: show_int_def show_nat_small)
  have keys: "quote k = [CHR 0x22] @ k @ [CHR 0x22]"
    if "k \<in> {''schema'', ''phase'', ''created_at'', ''attempt_nonce'', ''next_attempt_at''}" for k
    using that by (intro quote_unescaped) (auto simp: unescaped_def)
  show ?thesis
    using n q one by (simp add: intent_dict_def length_join MAX_STATE_BYTES_def keys)
qed

interpretation stored_state: stored_record state_ok state_dict read_state_dict MAX_STATE_BYTES
proof
  show "list_all (\<lambda>kv. scalar (snd kv)) (state_dict s)" for s
    by (simp add: state_dict_def scalar_def)
qed (simp_all only: state_dict_plain read_state_sorted state_dict_small)

interpretation stored_intent: stored_record intent_ok intent_dict read_intent_dict MAX_STATE_BYTES
proof
  show "list_all (\<lambda>kv. scalar (snd kv)) (intent_dict i)" for i
    by (simp add: intent_dict_def scalar_def)
  show "intent_ok i \<Longrightarrow> plain (PDict (intent_dict i))" for i
    by (simp add: intent_ok_def intent_dict_def counter_plain names_ascii show_nat_small)
qed (simp_all only: read_intent_sorted intent_dict_small)

section \<open>The disk after a write\<close>

definition with_state :: "dstate \<Rightarrow> ddisk \<Rightarrow> ddisk" where
  "with_state s d = d\<lparr>state_file := Some (atomic_write (euid d) (dumps_sorted (PDict (state_dict s))))\<rparr>"

definition with_intent :: "intent \<Rightarrow> ddisk \<Rightarrow> ddisk" where
  "with_intent i d = d\<lparr>recovery_file := Some (atomic_write (euid d) (dumps_sorted (PDict (intent_dict i))))\<rparr>"

lemma put_state_eq: "state_ok s \<Longrightarrow> put_state s = publish (with_state s)"
  using stored_state.fits [of s]
  by (simp add: put_state_def save_state_def with_state_def fun_eq_iff publish_def)

lemma put_intent_eq: "intent_ok i \<Longrightarrow> put_intent i = publish (with_intent i)"
  using stored_intent.fits [of i]
  by (simp add: put_intent_def save_state_def with_intent_def fun_eq_iff publish_def)

lemma load_with_state [simp]:
  "state_ok s \<Longrightarrow> load_state g (with_state s d) = Inr s"
  "load_intent (with_state s d) = load_intent d"
  "euid (with_state s d) = euid d"
proof -
  show "state_ok s \<Longrightarrow> load_state g (with_state s d) = Inr s"
    using stored_state.fits [of s] stored_state.decode_enc [of s unique_hook] read_state_sorted [of s]
    by (simp add: load_state_def with_state_def)
qed (simp_all add: load_intent_def with_state_def split: option.split)

lemma load_with_intent [simp]:
  "intent_ok i \<Longrightarrow> load_intent (with_intent i d) = Inr (Some i)"
  "load_state g (with_intent i d) = load_state g d"
  "euid (with_intent i d) = euid d"
proof -
  show "intent_ok i \<Longrightarrow> load_intent (with_intent i d) = Inr (Some i)"
    using stored_intent.fits [of i] stored_intent.decode_enc [of i unique_hook] read_intent_sorted [of i]
    by (simp add: load_intent_def with_intent_def)
qed (simp_all add: load_state_def with_intent_def split: option.split)

lemma find_Some_set: "find P xs = Some x \<Longrightarrow> x \<in> set xs \<and> P x"
  by (induction xs) (auto split: if_splits)

lemma read_state_ok: "read_state_dict v = Inr s \<Longrightarrow> state_ok s"
  unfolding read_state_dict_def Let_def
  by (simp split: if_split_asm option.split_asm)
     (clarsimp simp: state_ok_def counter_value_def counter_def)

lemma read_intent_ok: "read_intent_dict v = Inr i \<Longrightarrow> intent_ok i"
  by (auto simp: read_intent_dict_def Let_def intent_ok_def counter_value_def counter_def
      split: if_splits option.splits)

lemma load_state_ok: "load_state g d = Inr s \<Longrightarrow> state_ok s"
  by (auto simp: load_state_def read_state_ok
      split: option.splits if_splits sum.splits decode_error.splits json_error.splits)
     (simp_all add: state_ok_def empty_state_def counter_def MAX_INT_def)

lemma load_intent_ok: "load_intent d = Inr (Some i) \<Longrightarrow> intent_ok i"
  by (auto simp: load_intent_def read_intent_ok
      split: option.splits if_splits sum.splits decode_error.splits json_error.splits)

end
