(* ===== verification/DeadmanProofs.thy ===== *)
theory DeadmanProofs
  imports Deadman
begin

text \<open>
  Properties of the dead-man receiver that hold at every point where the process can die.

  \<open>holds g s i d\<close> says that the disk \<open>d\<close> reads back as state \<open>s\<close> and outbox \<open>i\<close>; \<open>crash g K\<close> says
  that it reads back as some pair that satisfies \<open>K\<close>. Each stage of \<open>_reserve_delivery\<close> is shown
  to keep an arbitrary \<open>K\<close> that its own change keeps, and the claims instantiate \<open>K\<close>.
\<close>

definition holds :: "string \<Rightarrow> dstate \<Rightarrow> intent option \<Rightarrow> ddisk \<Rightarrow> bool" where
  "holds g s i d \<longleftrightarrow> load_state (Some g) d = Inr s \<and> load_intent d = Inr i"

definition crash :: "string \<Rightarrow> (dstate \<Rightarrow> intent option \<Rightarrow> bool) \<Rightarrow> ddisk \<Rightarrow> bool" where
  "crash g K d \<longleftrightarrow> (\<exists>s i. holds g s i d \<and> K s i)"

lemma crashI: "holds g s i d \<Longrightarrow> K s i \<Longrightarrow> crash g K d"
  by (auto simp: crash_def)

lemma safe_seq_pair:
  "safe P m (\<lambda>(a, b). R a b) C \<Longrightarrow> (\<And>a b. safe (R a b) (f a b) Q C) \<Longrightarrow> safe P (seq m (\<lambda>(a, b). f a b)) Q C"
  by (rule safe_seq) auto

lemma holds_ok: "holds g s i d \<Longrightarrow> state_ok s" "holds g s (Some q) d \<Longrightarrow> intent_ok q"
  by (auto simp: holds_def load_state_ok load_intent_ok)

lemma holds_with [simp]:
  "holds g s i d \<Longrightarrow> state_ok s' \<Longrightarrow> holds g s' i (with_state s' d)"
  "holds g s i d \<Longrightarrow> intent_ok q \<Longrightarrow> holds g s (Some q) (with_intent q d)"
  by (simp_all add: holds_def)

lemma safe_put_state:
  "state_ok s' \<Longrightarrow> K s' i \<Longrightarrow> safe (holds g s i) (put_state s') (\<lambda>_. holds g s' i) (crash g K)"
  unfolding put_state_eq crash_def by (rule safe_publish) (blast intro: holds_with)+

lemma safe_put_intent:
  "intent_ok q \<Longrightarrow> K s (Some q) \<Longrightarrow>
     safe (holds g s i) (put_intent q) (\<lambda>_. holds g s (Some q)) (crash g K)"
  unfolding put_intent_eq crash_def by (rule safe_publish) (blast intro: holds_with)+

lemma counter_0 [simp]: "counter 0"
  by (simp add: counter_def MAX_INT_def)

lemma safe_store_ret:
  "state_ok s' \<Longrightarrow> K s' i \<Longrightarrow> Q s' \<Longrightarrow>
     safe (holds g s i) (seq (put_state s') (\<lambda>_. ret s')) (\<lambda>t d. holds g t i d \<and> K t i \<and> Q t) (crash g K)"
  by (rule safe_seq [OF safe_put_state]) (auto intro: safe_ret)

lemma safe_by_ok:
  "(state_ok s \<Longrightarrow> (\<And>q. i = Some q \<Longrightarrow> intent_ok q) \<Longrightarrow> safe (holds g s i) m Q C) \<Longrightarrow> safe (holds g s i) m Q C"
  unfolding safe_def using holds_ok by blast

definition queued :: "intent option \<Rightarrow> bool" where
  "queued i \<longleftrightarrow> (\<exists>q. i = Some q \<and> phase q = Queued)"

section \<open>The stages of a reservation\<close>

lemma end_incident_safe:
  assumes "counter now" "K s i"
    and "\<And>q. \<not> late \<Longrightarrow> incident s \<Longrightarrow> phase q = Queued \<Longrightarrow> K s (Some q)"
    and "\<And>q. \<not> late \<Longrightarrow> incident s \<Longrightarrow> phase q = Queued \<Longrightarrow> K (s\<lparr>incident := False\<rparr>) (Some q)"
  shows "safe (holds g s i) (end_incident late now s i)
     (\<lambda>(t, j) d. holds g t j d \<and> K t j \<and> (t = s \<and> j = i \<or> t = s\<lparr>incident := False\<rparr> \<and> queued j)) (crash g K)"
proof (rule safe_by_ok)
  assume ok: "state_ok s" "\<And>q. i = Some q \<Longrightarrow> intent_ok q"
  let ?fresh = "\<lparr>phase = Queued, created_at = now, attempt_nonce = 0, next_attempt_at = now\<rparr>"
  let ?t = "s\<lparr>incident := False\<rparr>"
  have t: "state_ok ?t" using ok(1) by (simp add: state_ok_def)
  have f: "intent_ok ?fresh" using assms(1) by (simp add: intent_ok_def)
  have store: "safe (holds g s j) (seq (put_state ?t) (\<lambda>_. ret (?t, j)))
      (\<lambda>(t, j) d. holds g t j d \<and> K t j \<and> (t = s \<and> j = i \<or> t = ?t \<and> queued j)) (crash g K)"
    if "\<not> late" "incident s" "queued j" for j
    using that t assms(4)
    by (intro safe_seq [OF safe_put_state]) (auto intro!: safe_ret simp: queued_def)
  show ?thesis
  proof (cases "\<not> late \<and> incident s")
    case True
    define renew where "renew = (case i of None \<Rightarrow> True | Some i \<Rightarrow> phase i = Complete
        \<or> (pending_event s = ERecovery \<and> attempt_nonce i = pending_nonce s))"
    have eq: "end_incident late now s i = seq (only_if renew (put_intent ?fresh)) (\<lambda>_.
        seq (put_state ?t) (\<lambda>_. ret (?t, if renew then Some ?fresh else i)))"
      using True by (simp add: end_incident_def renew_def Let_def)
    show ?thesis
    proof (cases renew)
      case renew: True
      have "safe (holds g s (Some ?fresh)) (seq (put_state ?t) (\<lambda>_. ret (?t, Some ?fresh)))
          (\<lambda>(t, j) d. holds g t j d \<and> K t j \<and> (t = s \<and> j = i \<or> t = ?t \<and> queued j)) (crash g K)"
        using True by (intro store) (auto simp: queued_def)
      with renew True f assms(3) show ?thesis
        unfolding eq by (auto simp: only_if_def intro!: safe_seq [OF safe_put_intent])
    next
      case keep: False
      then have "queued i"
        by (auto simp: renew_def queued_def split: option.splits intro: phase.exhaust)
      with keep True store [of i] show ?thesis unfolding eq by (simp add: only_if_def)
    qed
  next
    case False
    then show ?thesis
      using assms(2) by (auto simp: end_incident_def intro!: safe_ret)
  qed
qed

lemma start_incident_safe:
  assumes "K s i" and "K (s\<lparr>incident := True, last_delivery_at := 0\<rparr>) i"
  shows "safe (holds g s i) (start_incident late s)
     (\<lambda>t d. holds g t i d \<and> K t i \<and> (t = s \<or> t = s\<lparr>incident := True, last_delivery_at := 0\<rparr>)) (crash g K)"
  by (rule safe_by_ok)
     (use assms in \<open>auto intro!: safe_store_ret safe_ret simp: start_incident_def Let_def state_ok_def\<close>)

lemma acknowledge_safe:
  assumes "K s i" and "K (s\<lparr>pending_event := ENone, pending_at := 0, last_delivery := DRecovery\<rparr>) i"
  shows "safe (holds g s i) (acknowledge s i)
     (\<lambda>t d. holds g t i d \<and> K t i
        \<and> (t = s \<or> t = s\<lparr>pending_event := ENone, pending_at := 0, last_delivery := DRecovery\<rparr>)) (crash g K)"
  by (rule safe_by_ok)
     (use assms in \<open>auto intro!: safe_store_ret safe_ret
        simp: acknowledge_def Let_def state_ok_def split: option.split\<close>)

text \<open>The fields that expiring a pending delivery leaves alone.\<close>

definition same_core :: "dstate \<Rightarrow> dstate \<Rightarrow> bool" where
  "same_core s t \<longleftrightarrow> incident t = incident s \<and> pending_nonce t = pending_nonce s
     \<and> source_generation t = source_generation s \<and> last_sequence t = last_sequence s
     \<and> last_expiry t = last_expiry s \<and> last_pulse t = last_pulse s
     \<and> last_reverse_sequence t = last_reverse_sequence s"

lemma expire_pending_safe:
  assumes "K s i" and "\<And>t. same_core s t \<Longrightarrow> K t i"
  shows "safe (holds g s i) (expire_pending config now s)
     (\<lambda>t d. holds g t i d \<and> K t i \<and> same_core s t) (crash g K)"
  by (rule safe_by_ok)
     (use assms in \<open>auto intro!: safe_store_ret safe_ret
        simp: expire_pending_def Let_def state_ok_def same_core_def\<close>)

lemma reserve_event_safe:
  assumes "counter now" "counter (now + reminder_interval_seconds config)"
    and "K s i"
    and "\<And>j. i = None \<Longrightarrow> j = None \<Longrightarrow> K s j"
    and "\<And>q r. i = Some q \<Longrightarrow> phase r = phase q \<Longrightarrow> K s (Some r)"
    and "\<And>t j. pending_nonce t = pending_nonce s + 1 \<Longrightarrow> incident s \<longrightarrow> incident t
          \<Longrightarrow> incident t \<longrightarrow> event = EFiring \<or> incident s
          \<Longrightarrow> map_option phase j = map_option phase i \<Longrightarrow> K t j"
  shows "safe (holds g s i) (reserve_event config now event s i) (\<lambda>_. crash g K) (crash g K)"
proof (rule safe_by_ok)
  assume ok: "state_ok s" "\<And>q. i = Some q \<Longrightarrow> intent_ok q"
  let ?s5 = "if event = EFiring then s\<lparr>incident := True\<rparr> else s"
  let ?s6 = "?s5\<lparr>pending_nonce := pending_nonce ?s5 + 1, pending_event := event, pending_at := now\<rparr>"
  have store: "safe (holds g s j) (seq (put_state ?s6) (\<lambda>_. ret (?s6, Some (event, pending_nonce ?s6))))
      (\<lambda>_. crash g K) (crash g K)"
    if "pending_nonce s < MAX_INT" "map_option phase j = map_option phase i" for j
  proof (rule safe_seq [OF safe_put_state])
    show "state_ok ?s6"
      using ok(1) that(1) assms(1) by (auto simp: state_ok_def counter_def)
    show K: "K ?s6 j" using that(2) by (intro assms(6)) auto
    show "safe (holds g ?s6 j) (ret (?s6, Some (event, pending_nonce ?s6))) (\<lambda>_. crash g K) (crash g K)"
      using K by (intro safe_ret) (auto simp: crash_def)
  qed
  show ?thesis
  proof (cases "event = ENone \<or> MAX_INT \<le> pending_nonce s")
    case True
    then show ?thesis
      using assms(3) by (auto simp: reserve_event_def Let_def intro!: safe_ret safe_fail crashI)
  next
    case False
    then have nonce: "pending_nonce s < MAX_INT" by simp
    have eq: "reserve_event config now event s i =
       seq (case i of Some q \<Rightarrow> only_if (event = ERecovery) (put_intent (q\<lparr>attempt_nonce := pending_nonce ?s6,
              next_attempt_at := now + reminder_interval_seconds config\<rparr>)) | None \<Rightarrow> ret ()) (\<lambda>_.
       seq (put_state ?s6) (\<lambda>_. ret (?s6, Some (event, pending_nonce ?s6))))"
      using False by (simp add: reserve_event_def Let_def)
    show ?thesis
    proof (cases "i \<noteq> None \<and> event = ERecovery")
      case True
      then obtain q where i: "i = Some q" by auto
      let ?q = "q\<lparr>attempt_nonce := pending_nonce ?s6,
              next_attempt_at := now + reminder_interval_seconds config\<rparr>"
      have "intent_ok ?q"
        using ok(2) [OF i] ok(1) nonce assms(2) by (auto simp: intent_ok_def state_ok_def counter_def)
      moreover have "K s (Some ?q)" by (rule assms(5) [OF i]) simp
      ultimately show ?thesis
        unfolding eq using True store [of "Some ?q"] nonce
        by (auto simp: i only_if_def intro!: safe_seq [OF safe_put_intent])
    next
      case False
      with store [of i] nonce show ?thesis
        unfolding eq by (auto simp: only_if_def split: option.split)
    qed
  qed
qed

text \<open>
  \<open>K\<close> of a whole reservation: the nonce never goes back, and once the incident flag the
  reservation found set is cleared, the outbox holds a queued recovery.
\<close>

definition kept :: "dstate \<Rightarrow> dstate \<Rightarrow> intent option \<Rightarrow> bool" where
  "kept s0 t j \<longleftrightarrow> pending_nonce s0 \<le> pending_nonce t \<and> pending_nonce t \<le> pending_nonce s0 + 1
     \<and> (incident s0 \<and> \<not> incident t \<longrightarrow> queued j)"

lemma kept_weaken:
  "safe P m Q (crash g (\<lambda>t j. kept s0 t j \<and> F t)) \<Longrightarrow> safe P m Q (crash g (kept s0))"
  by (erule safe_weaken) (auto simp: crash_def)

text \<open>The last three stages, as one program, and the whole reservation around them.\<close>

definition late_stages ::
  "dconfig \<Rightarrow> int \<Rightarrow> (dstate \<Rightarrow> event) \<Rightarrow> dstate \<Rightarrow> intent option \<Rightarrow>
   (ddisk, derr, dstate \<times> (event \<times> int) option) dio" where
  "late_stages config now pick s2 i =
     seq (acknowledge s2 i) (\<lambda>s3.
     seq (expire_pending config now s3) (\<lambda>s4.
     if pending_event s4 \<noteq> ENone then ret (s4, None) else reserve_event config now (pick s4) s4 i))"

lemma late_stages_safe:
  assumes "counter now" "counter (now + reminder_interval_seconds config)"
    and K: "kept s0 s2 j \<and> pending_nonce s2 = pending_nonce s0"
  shows "safe (holds g s2 j) (late_stages config now pick s2 j)
     (\<lambda>_. crash g (kept s0)) (crash g (kept s0))"
  unfolding late_stages_def
proof (rule safe_seq [OF kept_weaken [OF acknowledge_safe [where K = "\<lambda>t j. kept s0 t j \<and> pending_nonce t = pending_nonce s0"]]])
  fix s3
  show "safe (\<lambda>d. holds g s3 j d \<and> (kept s0 s3 j \<and> pending_nonce s3 = pending_nonce s0)
      \<and> (s3 = s2 \<or> s3 = s2\<lparr>pending_event := ENone, pending_at := 0, last_delivery := DRecovery\<rparr>))
    (seq (expire_pending config now s3) (\<lambda>s4.
      if pending_event s4 \<noteq> ENone then ret (s4, None) else reserve_event config now (pick s4) s4 j))
    (\<lambda>_. crash g (kept s0)) (crash g (kept s0))"
  proof (rule safe_pre_pure, rule safe_seq [OF kept_weaken [OF expire_pending_safe [where K = "\<lambda>t j. kept s0 t j \<and> pending_nonce t = pending_nonce s0"]]])
    fix s4
    have tail: "safe (holds g s4 j) (reserve_event config now (pick s4) s4 j)
        (\<lambda>_. crash g (kept s0)) (crash g (kept s0))" if "kept s0 s4 j \<and> pending_nonce s4 = pending_nonce s0"
      using that assms(1,2)
      by (intro reserve_event_safe) (auto simp: kept_def queued_def map_option_case split: option.splits)
    show "safe (\<lambda>d. holds g s4 j d \<and> (kept s0 s4 j \<and> pending_nonce s4 = pending_nonce s0) \<and> same_core s3 s4)
      (if pending_event s4 \<noteq> ENone then ret (s4, None) else reserve_event config now (pick s4) s4 j)
      (\<lambda>_. crash g (kept s0)) (crash g (kept s0))"
      by (rule safe_pre_pure) (auto intro!: tail safe_ret crashI)
  qed (auto simp: kept_def same_core_def)
qed (use K in \<open>auto simp: kept_def\<close>)

lemma reserve_delivery_eq:
  "reserve_delivery config now =
     seq (look (load_state (Some (config_generation config)))) (\<lambda>s0. seq (look load_intent) (\<lambda>i0.
     seq (end_incident (overdue config now s0) now s0 i0) (\<lambda>(s1, i1).
     seq (start_incident (overdue config now s0) s1) (\<lambda>s2.
     late_stages config now (\<lambda>s4. choose_event config now (overdue config now s0) (incident s0) s4 i1) s2 i1))))"
  by (simp add: reserve_delivery_def late_stages_def Let_def)

lemma reserve_delivery_safe:
  assumes "counter now" "counter (now + reminder_interval_seconds config)"
    and g: "g = config_generation config"
  shows "safe (holds g s0 i0) (reserve_delivery config now)
     (\<lambda>_. crash g (kept s0)) (crash g (kept s0))"
proof -
  let ?C = "crash g (kept s0)" and ?K = "\<lambda>t j. kept s0 t j \<and> pending_nonce t = pending_nonce s0"
  define pick where "pick = (\<lambda>i1 s4. choose_event config now (overdue config now s0) (incident s0) s4 i1)"
  define late where "late = overdue config now s0"
  have start: "safe (\<lambda>d. holds g s1 i1 d \<and> F) (seq (start_incident late s1) (\<lambda>s2. late_stages config now (pick i1) s2 i1))
      (\<lambda>_. ?C) ?C" if F: "F \<longrightarrow> ?K s1 i1" for s1 i1 F
  proof (rule safe_pre_pure, rule safe_seq [OF kept_weaken [OF start_incident_safe [where K = ?K]]])
    fix s2
    show "safe (\<lambda>d. holds g s2 i1 d \<and> ?K s2 i1 \<and> (s2 = s1 \<or> s2 = s1\<lparr>incident := True, last_delivery_at := 0\<rparr>))
      (late_stages config now (pick i1) s2 i1) (\<lambda>_. ?C) ?C"
      by (rule safe_pre_pure, rule late_stages_safe [OF assms(1,2)]) simp
  qed (use F in \<open>auto simp: kept_def\<close>)
  have main: "safe (holds g s0 i0) (seq (end_incident late now s0 i0) (\<lambda>(s1, i1).
      seq (start_incident late s1) (\<lambda>s2. late_stages config now (pick i1) s2 i1))) (\<lambda>_. ?C) ?C"
    by (rule safe_seq_pair [OF kept_weaken [OF end_incident_safe [where K = ?K]]], rule assms(1))
       (auto intro!: start simp: kept_def queued_def)
  have "reserve_delivery config now d = seq (end_incident late now s0 i0) (\<lambda>(s1, i1).
      seq (start_incident late s1) (\<lambda>s2. late_stages config now (pick i1) s2 i1)) d" if "holds g s0 i0 d" for d
    using that by (simp add: reserve_delivery_eq seq_look holds_def g late_def pick_def)
  with main show ?thesis by (simp add: safe_def after_def)
qed

section \<open>The reservation as a function\<close>

text \<open>
  \<open>plan\<close> is what a reservation does to the pair of state and outbox, with no disk: the abstract
  view that the durable program refines. \<open>yields\<close> relates a program to it.
\<close>

definition planned_end :: "bool \<Rightarrow> int \<Rightarrow> dstate \<Rightarrow> intent option \<Rightarrow> dstate \<times> intent option" where
  "planned_end late now s i =
     (if late \<or> \<not> incident s then (s, i)
      else (s\<lparr>incident := False\<rparr>,
        if (case i of None \<Rightarrow> False
            | Some q \<Rightarrow> phase q = Queued \<and> (pending_event s = ERecovery \<longrightarrow> attempt_nonce q \<noteq> pending_nonce s))
        then i else Some \<lparr>phase = Queued, created_at = now, attempt_nonce = 0, next_attempt_at = now\<rparr>))"

definition planned_ack :: "dstate \<Rightarrow> intent option \<Rightarrow> dstate" where
  "planned_ack s i = (if (case i of None \<Rightarrow> False | Some q \<Rightarrow>
       pending_event s = ERecovery \<and> phase q = Complete \<and> attempt_nonce q = pending_nonce s)
     then s\<lparr>pending_event := ENone, pending_at := 0, last_delivery := DRecovery\<rparr> else s)"

definition planned_pending :: "dconfig \<Rightarrow> int \<Rightarrow> dstate \<Rightarrow> intent option \<Rightarrow> dstate" where
  "planned_pending config now s i =
     (let t = planned_ack s i
      in if pending_event t = ENone
            \<or> now - pending_at t < retry_attempts config * retry_timeout_seconds config + 1 then t
         else (if pending_event t = ECanary
               then t\<lparr>last_canary_delivery := CFailed, last_canary := pending_at t\<rparr>
               else t\<lparr>last_delivery := DFailed,
                      last_delivery_at := (if pending_event t = ERecovery \<and> incident t then 0 else pending_at t)\<rparr>)
              \<lparr>pending_event := ENone, pending_at := 0\<rparr>)"

definition planned_start :: "bool \<Rightarrow> dstate \<Rightarrow> dstate" where
  "planned_start late s = (if late \<and> \<not> incident s then s\<lparr>incident := True, last_delivery_at := 0\<rparr> else s)"

definition planned_event ::
  "dconfig \<Rightarrow> int \<Rightarrow> event \<Rightarrow> dstate \<Rightarrow> intent option \<Rightarrow>
   derr + (dstate \<times> intent option \<times> (event \<times> int) option)" where
  "planned_event config now e t j =
     (let n = pending_nonce t + 1
      in if pending_event t \<noteq> ENone \<or> e = ENone then Inr (t, j, None)
         else if MAX_INT \<le> pending_nonce t then Inl (DeadmanError ''delivery sequence exhausted'')
         else Inr (t\<lparr>incident := incident t \<or> e = EFiring, pending_nonce := n, pending_event := e, pending_at := now\<rparr>,
                   (if e = ERecovery then map_option (\<lambda>q. q\<lparr>attempt_nonce := n,
                      next_attempt_at := now + reminder_interval_seconds config\<rparr>) j else j),
                   Some (e, n)))"

definition plan ::
  "dconfig \<Rightarrow> int \<Rightarrow> dstate \<Rightarrow> intent option \<Rightarrow>
   derr + (dstate \<times> intent option \<times> (event \<times> int) option)" where
  "plan config now s i =
     (let late = overdue config now s; (s1, j) = planned_end late now s i;
          t = planned_pending config now (planned_start late s1) j
      in planned_event config now (choose_event config now late (incident s) t j) t j)"

definition yields ::
  "string \<Rightarrow> (ddisk, derr, 'a) dio \<Rightarrow> ddisk \<Rightarrow> 'a \<Rightarrow> dstate \<Rightarrow> intent option \<Rightarrow> bool" where
  "yields g m d a t j \<longleftrightarrow> outcome m d = Inr a \<and> holds g t j (after m d)"

lemma yields_seq:
  "yields g m d a s i \<Longrightarrow> (\<And>d'. holds g s i d' \<Longrightarrow> yields g (f a) d' b t j) \<Longrightarrow> yields g (seq m f) d b t j"
  by (auto simp: yields_def seq_steps_outcome after_def last_Cons_append simp del: last.simps)

lemma outcome_seq_Inl:
  "yields g m d a s i \<Longrightarrow> (\<And>d'. holds g s i d' \<Longrightarrow> outcome (f a) d' = Inl e) \<Longrightarrow> outcome (seq m f) d = Inl e"
  by (auto simp: yields_def seq_steps_outcome)

lemma yields_ret [simp]: "yields g (ret a) d b t j \<longleftrightarrow> b = a \<and> holds g t j d"
  by (auto simp: yields_def ret_def after_def)

lemma yields_put_state: "state_ok t \<Longrightarrow> holds g s i d \<Longrightarrow> yields g (put_state t) d () t i"
  by (simp add: yields_def put_state_eq publish_def after_def)

lemma yields_put_intent: "intent_ok q \<Longrightarrow> holds g s i d \<Longrightarrow> yields g (put_intent q) d () s (Some q)"
  by (simp add: yields_def put_intent_eq publish_def after_def)

lemma yields_store:
  "state_ok t \<Longrightarrow> holds g s i d \<Longrightarrow> yields g (seq (put_state t) (\<lambda>_. ret (F t))) d (F t) t i"
  by (rule yields_seq [OF yields_put_state]) auto

lemma end_incident_yields:
  assumes "holds g s i d" "counter now" "planned_end late now s i = (t, j)"
  shows "yields g (end_incident late now s i) d (t, j) t j"
proof -
  let ?q = "\<lparr>phase = Queued, created_at = now, attempt_nonce = 0, next_attempt_at = now\<rparr>"
  let ?t = "s\<lparr>incident := False\<rparr>"
  have ok: "state_ok ?t" using holds_ok(1) [OF assms(1)] by (simp add: state_ok_def)
  have q: "intent_ok ?q" using assms(2) by (simp add: intent_ok_def)
  have phase_iff: "phase p = Queued \<longleftrightarrow> phase p \<noteq> Complete" for p by (cases "phase p") auto
  have store: "yields g (seq (put_state ?t) (\<lambda>_. ret (?t, k))) d' (?t, k) ?t k" if "holds g s k d'" for k d'
    using yields_store [OF ok that, of "\<lambda>t. (t, k)"] by simp
  have new: "yields g (seq (put_intent ?q) (\<lambda>_. seq (put_state ?t) (\<lambda>_. ret (?t, Some ?q)))) d
      (?t, Some ?q) ?t (Some ?q)"
    by (rule yields_seq [OF yields_put_intent [OF q assms(1)]]) (rule store)
  show ?thesis
    using assms(1,3) new store [OF assms(1)]
    by (auto simp: end_incident_def planned_end_def only_if_def Let_def phase_iff split: if_splits option.splits)
qed

lemma start_incident_yields:
  "holds g s i d \<Longrightarrow> yields g (start_incident late s) d (planned_start late s) (planned_start late s) i"
  using yields_store [of "s\<lparr>incident := True, last_delivery_at := 0\<rparr>" g s i d "\<lambda>t. t"] holds_ok(1) [of g s i d]
  by (auto simp: start_incident_def planned_start_def Let_def state_ok_def)

lemma acknowledge_yields:
  "holds g s i d \<Longrightarrow> yields g (acknowledge s i) d (planned_ack s i) (planned_ack s i) i"
  using yields_store [of "s\<lparr>pending_event := ENone, pending_at := 0, last_delivery := DRecovery\<rparr>" g s i d "\<lambda>t. t"]
    holds_ok(1) [of g s i d]
  by (auto simp: acknowledge_def planned_ack_def Let_def state_ok_def split: option.split)

lemma expire_pending_yields:
  assumes "holds g (planned_ack s i) i d"
  shows "yields g (expire_pending config now (planned_ack s i)) d
     (planned_pending config now s i) (planned_pending config now s i) i"
proof -
  let ?s = "planned_ack s i" and ?t = "planned_pending config now s i"
  have "state_ok ?t"
    using holds_ok(1) [OF assms] unfolding planned_pending_def Let_def
    by (auto simp: state_ok_def)
  from yields_store [OF this assms, of "\<lambda>t. t"] assms show ?thesis
    unfolding planned_pending_def Let_def expire_pending_def
    by (auto simp: not_less)
qed

lemma reserve_event_yields:
  assumes "holds g s i d" "counter now" "counter (now + reminder_interval_seconds config)"
    and "e \<noteq> ENone" "pending_nonce s < MAX_INT"
  defines "n \<equiv> pending_nonce s + 1"
  defines "t \<equiv> s\<lparr>incident := incident s \<or> e = EFiring, pending_nonce := n, pending_event := e, pending_at := now\<rparr>"
  defines "j \<equiv> (if e = ERecovery then map_option (\<lambda>q. q\<lparr>attempt_nonce := n,
                      next_attempt_at := now + reminder_interval_seconds config\<rparr>) i else i)"
  shows "yields g (reserve_event config now e s i) d (t, Some (e, n)) t j"
proof -
  have ok: "state_ok s" "\<And>q. i = Some q \<Longrightarrow> intent_ok q" using holds_ok assms(1) by auto
  have t: "state_ok t" "counter n"
    using ok assms(2,5) by (auto simp: t_def n_def state_ok_def counter_def)
  have s6: "(if e = EFiring then s\<lparr>incident := True\<rparr> else s)\<lparr>pending_nonce := n,
      pending_event := e, pending_at := now\<rparr> = t"
    by (auto simp: t_def)
  have eq: "reserve_event config now e s i = seq (case i of None \<Rightarrow> ret ()
       | Some q \<Rightarrow> only_if (e = ERecovery) (put_intent (q\<lparr>attempt_nonce := n,
              next_attempt_at := now + reminder_interval_seconds config\<rparr>)))
      (\<lambda>_. seq (put_state t) (\<lambda>_. ret (t, Some (e, n))))"
    using assms(4,5) unfolding reserve_event_def Let_def
    by (simp add: s6 [symmetric] n_def cong: option.case_cong if_cong)
  have outbox: "yields g (case i of None \<Rightarrow> ret ()
       | Some q \<Rightarrow> only_if (e = ERecovery) (put_intent (q\<lparr>attempt_nonce := n,
              next_attempt_at := now + reminder_interval_seconds config\<rparr>))) d () s j"
    using ok(2) assms(1,3) t(2)
    by (auto simp: j_def only_if_def intent_ok_def intro!: yields_put_intent split: option.split)
  show ?thesis
    unfolding eq
    by (rule yields_seq [OF outbox]) (rule yields_store [OF t(1), where F = "\<lambda>x. (x, Some (e, n))"])
qed

lemma planned_event_yields:
  assumes "holds g s i d" "counter now" "counter (now + reminder_interval_seconds config)"
    and m_def: "m = (if pending_event s \<noteq> ENone then ret (s, None) else reserve_event config now e s i)"
  shows "planned_event config now e s i = Inr (t, j, r) \<Longrightarrow> yields g m d (t, r) t j"
    and "planned_event config now e s i = Inl x \<Longrightarrow> outcome m d = Inl x"
proof -
  have none: "yields g (reserve_event config now ENone s i) d (s, None) s i"
    using assms(1) by (simp add: reserve_event_def)
  show "yields g m d (t, r) t j" if "planned_event config now e s i = Inr (t, j, r)"
  proof (cases "pending_event s \<noteq> ENone \<or> e = ENone")
    case True
    then show ?thesis using that none assms(1) by (auto simp: m_def planned_event_def)
  next
    case False
    then have "pending_nonce s < MAX_INT" using that by (auto simp: planned_event_def Let_def split: if_split_asm)
    with that False reserve_event_yields [OF assms(1-3), of e] show ?thesis
      by (auto simp: m_def planned_event_def Let_def)
  qed
  show "outcome m d = Inl x" if "planned_event config now e s i = Inl x"
    using that by (auto simp: m_def planned_event_def reserve_event_def fail_def Let_def split: if_split_asm)
qed

text \<open>The durable program and its plan agree, on errors too.\<close>

lemma reserve_delivery_plan:
  assumes "holds g s i d" "counter now" "counter (now + reminder_interval_seconds config)"
    and g: "g = config_generation config"
  shows "plan config now s i = Inr (t, j, r) \<Longrightarrow> yields g (reserve_delivery config now) d (t, r) t j"
    and "plan config now s i = Inl e \<Longrightarrow> outcome (reserve_delivery config now) d = Inl e"
proof -
  obtain s1 i1 where e: "planned_end (overdue config now s) now s i = (s1, i1)" by fastforce
  let ?s2 = "planned_start (overdue config now s) s1"
  let ?s4 = "planned_pending config now ?s2 i1"
  let ?e = "choose_event config now (overdue config now s) (incident s) ?s4 i1"
  let ?rest = "if pending_event ?s4 \<noteq> ENone then ret (?s4, None) else reserve_event config now ?e ?s4 i1"
  have run: "reserve_delivery config now d =
     seq (end_incident (overdue config now s) now s i) (\<lambda>(s1, i1). seq (start_incident (overdue config now s) s1)
     (\<lambda>s2. late_stages config now (\<lambda>s4. choose_event config now (overdue config now s) (incident s) s4 i1) s2 i1)) d"
    using assms(1) by (simp add: reserve_delivery_eq seq_look holds_def g)
  have stages: "yields g (reserve_delivery config now) d b t' j'"
    if "\<And>d'. holds g ?s4 i1 d' \<Longrightarrow> yields g ?rest d' b t' j'" for b t' j'
  proof -
    have "yields g (seq (end_incident (overdue config now s) now s i) (\<lambda>(s1, i1).
       seq (start_incident (overdue config now s) s1) (\<lambda>s2.
       late_stages config now (\<lambda>s4. choose_event config now (overdue config now s) (incident s) s4 i1) s2 i1))) d b t' j'"
      unfolding late_stages_def
      by (rule yields_seq [OF end_incident_yields [OF assms(1,2) e]], simp,
          rule yields_seq [OF start_incident_yields], assumption, rule yields_seq [OF acknowledge_yields], assumption,
          rule yields_seq [OF expire_pending_yields], assumption, rule that)
    then show ?thesis by (simp add: yields_def after_def run)
  qed
  have fails: "outcome (reserve_delivery config now) d = Inl x"
    if "\<And>d'. holds g ?s4 i1 d' \<Longrightarrow> outcome ?rest d' = Inl x" for x
    unfolding run late_stages_def
    by (rule outcome_seq_Inl [OF end_incident_yields [OF assms(1,2) e]], simp,
        rule outcome_seq_Inl [OF start_incident_yields], assumption, rule outcome_seq_Inl [OF acknowledge_yields],
        assumption, rule outcome_seq_Inl [OF expire_pending_yields], assumption, rule that)
  show "yields g (reserve_delivery config now) d (t, r) t j" if "plan config now s i = Inr (t, j, r)"
    using that unfolding plan_def Let_def e
    by (intro stages planned_event_yields(1) [OF _ assms(2,3) refl]) simp_all
  show "outcome (reserve_delivery config now) d = Inl e" if "plan config now s i = Inl e"
    using that unfolding plan_def Let_def e
    by (intro fails planned_event_yields(2) [OF _ assms(2,3) refl]) simp_all
qed

section \<open>Completing a delivery\<close>

definition completed :: "event \<Rightarrow> bool \<Rightarrow> int \<Rightarrow> dstate \<Rightarrow> dstate" where
  "completed e success now s =
     (let t = s\<lparr>pending_event := ENone, pending_at := 0\<rparr>
      in if e = ECanary then t\<lparr>last_canary_delivery := (if success then CSuccess else CFailed), last_canary := now\<rparr>
         else t\<lparr>last_delivery := (if success then (if e = ERecovery then DRecovery else DFiring) else DFailed),
                last_delivery_at := (if e = ERecovery \<and> incident s then 0 else now)\<rparr>)"

lemma completed_ok: "state_ok s \<Longrightarrow> counter now \<Longrightarrow> state_ok (completed e success now s)"
  by (simp add: completed_def state_ok_def Let_def)

lemma completed_simps [simp]:
  "pending_event (completed e success now s) = ENone" "pending_nonce (completed e success now s) = pending_nonce s"
  by (simp_all add: completed_def Let_def)

lemma complete_delivery_run:
  assumes "load_state None d = Inr s" "load_intent d = Inr i" "counter now"
    and t_def: "t = completed e success now s"
  shows "complete_delivery e n success now d =
    (if pending_event s \<noteq> e \<or> pending_nonce s \<noteq> n then ([], Inr s)
     else if e \<noteq> ERecovery then ([with_state t d], Inr t)
     else (case i of None \<Rightarrow> ([], Inr s) | Some q \<Rightarrow>
       if attempt_nonce q \<noteq> n \<or> phase q \<noteq> Queued then ([], Inr s)
       else if success then
         ([with_intent (q\<lparr>phase := Complete\<rparr>) d, with_state t (with_intent (q\<lparr>phase := Complete\<rparr>) d)], Inr t)
       else ([with_state t d], Inr t)))"
proof -
  have t: "state_ok t" using load_state_ok [OF assms(1)] assms(3) unfolding t_def by (rule completed_ok)
  have q: "intent_ok (q\<lparr>phase := Complete\<rparr>)" if "i = Some q" for q
    using load_intent_ok [of d q] assms(2) that by (simp add: intent_ok_def)
  have store: "seq (put_state t) (\<lambda>_. ret t) d' = ([with_state t d'], Inr t)" for d'
    unfolding put_state_eq [OF t] by (simp add: dio_eval)
  have fold: "(if e = ECanary then s\<lparr>pending_event := ENone, pending_at := 0,
        last_canary_delivery := (if success then CSuccess else CFailed), last_canary := now\<rparr>
      else s\<lparr>pending_event := ENone, pending_at := 0,
        last_delivery := (if success then (if e = ERecovery then DRecovery else DFiring) else DFailed),
        last_delivery_at := (if e = ERecovery \<and> incident s then 0 else now)\<rparr>) = t"
    by (simp add: t_def completed_def)
  have run: "complete_delivery e n success now d =
    (if pending_event s \<noteq> e \<or> pending_nonce s \<noteq> n then ret s
     else if e = ERecovery then
       (case i of None \<Rightarrow> ret s | Some q \<Rightarrow> if attempt_nonce q \<noteq> n \<or> phase q \<noteq> Queued then ret s
         else seq (only_if success (put_intent (q\<lparr>phase := Complete\<rparr>))) (\<lambda>_. seq (put_state t) (\<lambda>_. ret t)))
     else seq (put_state t) (\<lambda>_. ret t)) d"
    unfolding complete_delivery_def seq_look assms(1) fold [symmetric] Let_def
    by (simp add: seq_look assms(2) cong: if_cong)
  show ?thesis
    unfolding run by (auto simp: store put_intent_eq [OF q] dio_eval split: option.split)
qed

section \<open>Pulses\<close>

lemma accept_pulse_accepted:
  assumes "accept_pulse isoparse hmac raw token s config now = Inr t"
  obtains pulse sequence expiry stamp where
    "decode_json unique_hook raw = Inr (PDict pulse)" "item pulse ''generation'' = PStr (config_generation config)"
    "item pulse ''sequence'' = PInt sequence" "item pulse ''expires_at'' = PStr stamp"
    "isoparse (butlast stamp @ ''+00:00'') = Some (True, expiry)"
    "hmac token (canonical pulse) = str_of (item pulse ''signature'')"
    "source_generation s = config_generation config \<longrightarrow> last_sequence s < sequence"
    "last_expiry s < expiry" "now < expiry" "expiry \<le> now + max_future_seconds config"
    "t = s\<lparr>source_generation := config_generation config, last_sequence := sequence,
           last_expiry := expiry, last_pulse := now\<rparr>"
    "0 < sequence \<or> source_generation s = config_generation config" "sequence \<le> MAX_INT" "0 \<le> expiry"
    "GENERATION (config_generation config)" "int (length raw) \<le> max_pulse_bytes config"
proof -
  obtain v issued expiry where
    size: "int (length raw) \<le> max_pulse_bytes config" and v: "decode_json unique_hook raw = Inr v" "is_dict v"
    and generation: "is_str (item (dict_of v) ''generation'')" "GENERATION (config_generation config)"
      "str_of (item (dict_of v) ''generation'') = config_generation config"
    and sequence: "type_is_int (item (dict_of v) ''sequence'')" "int_of (item (dict_of v) ''sequence'') \<le> MAX_INT"
      "(if source_generation s = config_generation config then last_sequence s else 0) < int_of (item (dict_of v) ''sequence'')"
    and expiry: "instant isoparse (item (dict_of v) ''expires_at'') now (max_future_seconds config) = Inr expiry"
      "now < expiry" "last_expiry s < expiry"
    and signature: "hmac token (canonical (dict_of v)) = str_of (item (dict_of v) ''signature'')"
    and t: "t = s\<lparr>source_generation := config_generation config, last_sequence := int_of (item (dict_of v) ''sequence''),
           last_expiry := expiry, last_pulse := now\<rparr>"
    using assms unfolding accept_pulse_def Let_def res_iffs decode_case_eq_Inr by (clarsimp simp: not_le not_less)
  obtain stamp where stamp: "item (dict_of v) ''expires_at'' = PStr stamp"
    "isoparse (butlast stamp @ ''+00:00'') = Some (True, expiry)" "0 \<le> expiry" "expiry \<le> now + max_future_seconds config"
    using expiry(1) unfolding instant_def Let_def res_iffs by (auto simp: res_iffs pv_test_iff)
  show ?thesis
    by (rule that [of "dict_of v" "int_of (item (dict_of v) ''sequence'')" stamp expiry])
       (use size v generation sequence expiry signature t stamp in \<open>auto simp: pv_test_iff split: if_split_asm\<close>)
qed

text \<open>
  A history: the pulses offered one after the other, each with the configuration and the clock it
  met, starting from a state. A refused pulse leaves the state alone.
\<close>

fun offered ::
  "(string \<Rightarrow> (bool \<times> int) option) \<Rightarrow> (string \<Rightarrow> string \<Rightarrow> string) \<Rightarrow> dstate \<Rightarrow>
   (string \<times> string \<times> dconfig \<times> int) list \<Rightarrow> dstate" where
  "offered isoparse hmac s [] = s"
| "offered isoparse hmac s ((raw, token, config, now) # rest) =
     offered isoparse hmac (case accept_pulse isoparse hmac raw token s config now of Inl _ \<Rightarrow> s | Inr t \<Rightarrow> t) rest"

lemma accept_pulse_expiry: "accept_pulse isoparse hmac raw token s config now = Inr t \<Longrightarrow> last_expiry s < last_expiry t"
  by (erule accept_pulse_accepted) simp

lemma offered_expiry: "last_expiry s \<le> last_expiry (offered isoparse hmac s h)"
proof (induction isoparse hmac s h rule: offered.induct)
  case (2 isoparse hmac s raw token config now rest)
  then show ?case
    using accept_pulse_expiry [of isoparse hmac raw token s config now] by (fastforce split: sum.splits)
qed simp

section \<open>The claims\<close>

text \<open>A configuration, and the disk of a host that has never received a pulse.\<close>

definition sample_config :: dconfig where
  "sample_config = \<lparr>pulse_interval_seconds = 60, missed_pulse_limit = 5, max_future_seconds = 30,
     max_pulse_bytes = 1024, retry_attempts = 2, retry_timeout_seconds = 5, reminder_interval_seconds = 3600,
     canary_interval_seconds = 86400, reverse_health_url = [], reverse_health_max_bytes = 4096,
     config_generation = replicate 40 (CHR ''a''), required_units = [''x.service''],
     chat_id = ''-100000'', topic_id = 0\<rparr>"

definition sample_disk :: ddisk where
  "sample_disk = \<lparr>state_file = None, recovery_file = None, euid = 0\<rparr>"

lemma sample_holds:
  "load_state (Some (config_generation sample_config)) sample_disk = Inr (empty_state (config_generation sample_config))"
  "load_intent sample_disk = Inr None"
  by (simp_all add: load_state_def load_intent_def sample_disk_def sample_config_def GENERATION_def is_hex_def
      is_digit_def list_all_iff)

lemma sample_simps:
  "reminder_interval_seconds sample_config = 3600" "counter (n + 3600) \<longleftrightarrow> - 3600 \<le> n \<and> n \<le> MAX_INT - 3600"
  by (auto simp: sample_config_def counter_def)

lemma plan_sample: "plan sample_config 1000 (empty_state (config_generation sample_config)) None =
    Inr (empty_state (config_generation sample_config)\<lparr>incident := True, pending_event := EFiring, pending_nonce := 1, pending_at := 1000\<rparr>,
      None, Some (EFiring, 1))"
  by (simp add: plan_def planned_end_def planned_start_def planned_pending_def planned_ack_def planned_event_def
      choose_event_def overdue_def empty_state_def sample_config_def MAX_INT_def Let_def)

lemma sample_outcome:
  "outcome (reserve_delivery sample_config 1000) sample_disk =
     Inr (empty_state (config_generation sample_config)\<lparr>incident := True, pending_event := EFiring, pending_nonce := 1, pending_at := 1000\<rparr>, Some (EFiring, 1))"
proof -
  have "holds (config_generation sample_config) (empty_state (config_generation sample_config)) None sample_disk"
    using sample_holds by (simp add: holds_def)
  from reserve_delivery_plan(1) [OF this _ _ refl plan_sample] show ?thesis
    by (simp add: yields_def sample_simps counter_def MAX_INT_def)
qed

lemma planned_nonce:
  "pending_nonce (planned_pending config now s i) = pending_nonce s"
  "pending_nonce (planned_start late s) = pending_nonce s"
  "pending_nonce (fst (planned_end late now s i)) = pending_nonce s"
  by (simp_all add: planned_pending_def planned_ack_def planned_start_def planned_end_def Let_def)

lemma planned_end_nonce: "planned_end late now s i = (t, j) \<Longrightarrow> pending_nonce t = pending_nonce s"
  using planned_nonce(3) [of late now s i] by simp

text \<open>
  C1: the receiver may die at any point of a delivery reservation. Every disk it publishes on
  the way reads back as a state and an outbox; the delivery nonce never goes back and advances by
  at most one; and an incident is cleared on disk only once the outbox on the same disk holds a
  queued recovery notification, so no crash loses the recovery of an incident.
\<close>

theorem reserve_delivery_crash_safe:
  assumes "load_state (Some (config_generation config)) d = Inr s" "load_intent d = Inr i"
    and "counter now" "counter (now + reminder_interval_seconds config)"
    and "d' \<in> set (steps (reserve_delivery config now) d)"
  shows "\<exists>t j. load_state (Some (config_generation config)) d' = Inr t \<and> load_intent d' = Inr j
     \<and> pending_nonce s \<le> pending_nonce t \<and> pending_nonce t \<le> pending_nonce s + 1
     \<and> (incident s \<and> \<not> incident t \<longrightarrow> (\<exists>q. j = Some q \<and> phase q = Queued))"
proof -
  have "holds (config_generation config) s i d" using assms(1,2) by (simp add: holds_def)
  from safe_stepsD [OF reserve_delivery_safe [OF assms(3,4) refl] this assms(5)]
  show ?thesis unfolding crash_def kept_def queued_def holds_def by blast
qed

theorem reserve_delivery_crash_safe_witness:
  "steps (reserve_delivery sample_config 1000) sample_disk \<noteq> []
   \<and> (\<exists>t j. load_state (Some (config_generation sample_config)) (hd (steps (reserve_delivery sample_config 1000) sample_disk)) = Inr t
       \<and> load_intent (hd (steps (reserve_delivery sample_config 1000) sample_disk)) = Inr j)"
proof -
  have "holds (config_generation sample_config) (empty_state (config_generation sample_config)) None sample_disk"
    using sample_holds by (simp add: holds_def)
  from reserve_delivery_plan(1) [OF this _ _ refl plan_sample] sample_holds(1)
  have "steps (reserve_delivery sample_config 1000) sample_disk \<noteq> []"
    by (auto simp: yields_def holds_def after_def sample_simps counter_def MAX_INT_def empty_state_def)
  then show ?thesis
    using reserve_delivery_crash_safe [OF sample_holds, of 1000 "hd (steps (reserve_delivery sample_config 1000) sample_disk)"]
    by (auto simp: sample_simps counter_def MAX_INT_def)
qed



text \<open>
  A reserved delivery is fresh and recorded before it is sent: the nonce handed out is one more
  than the last one on disk, the event is a real one, and the disk the reservation leaves reads
  back with exactly this event and nonce pending.
\<close>

theorem reservation_fresh:
  assumes "load_state (Some (config_generation config)) d = Inr s" "load_intent d = Inr i"
    and "counter now" "counter (now + reminder_interval_seconds config)"
    and "outcome (reserve_delivery config now) d = Inr (t, Some (e, n))"
  shows "n = pending_nonce s + 1 \<and> e \<noteq> ENone
     \<and> load_state (Some (config_generation config)) (after (reserve_delivery config now) d) = Inr t
     \<and> pending_event t = e \<and> pending_nonce t = n \<and> pending_at t = now"
proof -
  have h: "holds (config_generation config) s i d" using assms(1,2) by (simp add: holds_def)
  obtain t' j r where p: "plan config now s i = Inr (t', j, r)"
    using reserve_delivery_plan(2) [OF h assms(3,4) refl] assms(5) by (cases "plan config now s i") auto
  from reserve_delivery_plan(1) [OF h assms(3,4) refl p] assms(5) have "t' = t" "r = Some (e, n)"
    and l: "load_state (Some (config_generation config)) (after (reserve_delivery config now) d) = Inr t"
    by (auto simp: yields_def holds_def)
  with p have "n = pending_nonce s + 1 \<and> e \<noteq> ENone \<and> pending_event t = e \<and> pending_nonce t = n \<and> pending_at t = now"
    by (auto simp: plan_def planned_event_def Let_def planned_nonce planned_end_nonce split: prod.splits if_split_asm)
  with l show ?thesis by simp
qed

theorem reservation_fresh_witness:
  "pending_nonce (empty_state (config_generation sample_config)\<lparr>incident := True, pending_event := EFiring, pending_nonce := 1, pending_at := 1000\<rparr>) = 1
   \<and> (1 :: int) = pending_nonce (empty_state (config_generation sample_config)) + 1"
  using reservation_fresh [OF sample_holds _ _ sample_outcome] by (simp add: sample_simps counter_def MAX_INT_def)



text \<open>
  C36: a recovery notification that was delivered is not sent again. If the outbox on disk is
  complete under the pending nonce (the process died after recording the delivery in the outbox
  and before clearing the pending event) and no incident is open, then the next reservation
  clears the pending recovery, keeps the outbox and does not return a recovery event.
\<close>

theorem delivered_recovery_not_repeated:
  assumes "load_state (Some (config_generation config)) d = Inr s" "load_intent d = Inr (Some q)"
    and "counter now" "counter (now + reminder_interval_seconds config)"
    and "pending_event s = ERecovery" "phase q = Complete" "attempt_nonce q = pending_nonce s" "\<not> incident s"
    and "outcome (reserve_delivery config now) d = Inr (t, r)"
  shows "(\<forall>n. r \<noteq> Some (ERecovery, n)) \<and> pending_event t \<noteq> ERecovery
     \<and> load_intent (after (reserve_delivery config now) d) = Inr (Some q)"
proof -
  have h: "holds (config_generation config) s (Some q) d" using assms(1,2) by (simp add: holds_def)
  obtain t' j r' where p: "plan config now s (Some q) = Inr (t', j, r')"
    using reserve_delivery_plan(2) [OF h assms(3,4) refl] assms(9) by (cases "plan config now s (Some q)") auto
  from reserve_delivery_plan(1) [OF h assms(3,4) refl p] assms(9) have eqs: "t' = t" "r' = r"
    and l: "load_intent (after (reserve_delivery config now) d) = Inr j"
    by (auto simp: yields_def holds_def)
  have a: "planned_ack (planned_start l s) (Some q) = (planned_start l s)\<lparr>pending_event := ENone, pending_at := 0, last_delivery := DRecovery\<rparr>" for l
    using assms(5-8) by (simp add: planned_ack_def planned_start_def)
  have e: "choose_event config now l w u (Some q) \<noteq> ERecovery" for l w u
    using assms(6) by (simp add: choose_event_def Let_def)
  have "pending_event t \<noteq> ERecovery \<and> (\<forall>n. r \<noteq> Some (ERecovery, n)) \<and> j = Some q"
    using p e unfolding eqs plan_def Let_def planned_end_def planned_pending_def
    by (auto simp: assms(8) a planned_event_def Let_def split: if_split_asm)
  with l show ?thesis by simp
qed

definition sample_pending :: dstate where
  "sample_pending = empty_state (config_generation sample_config)\<lparr>pending_event := ERecovery, pending_nonce := 1\<rparr>"

definition sample_delivered :: intent where
  "sample_delivered = \<lparr>phase = Complete, created_at = 10, attempt_nonce = 1, next_attempt_at = 10\<rparr>"

definition sample_complete :: ddisk where
  "sample_complete = with_intent sample_delivered (with_state sample_pending sample_disk)"

lemma sample_complete_holds:
  "load_state (Some (config_generation sample_config)) sample_complete = Inr sample_pending"
  "load_intent sample_complete = Inr (Some sample_delivered)"
proof -
  have "state_ok sample_pending" "intent_ok sample_delivered"
    by (simp_all add: sample_pending_def sample_delivered_def state_ok_def intent_ok_def empty_state_def counter_def
        MAX_INT_def sample_config_def GENERATION_def is_hex_def is_digit_def list_all_iff)
  then show "load_state (Some (config_generation sample_config)) sample_complete = Inr sample_pending"
    "load_intent sample_complete = Inr (Some sample_delivered)"
    by (simp_all add: sample_complete_def)
qed

lemma sample_complete_outcome:
  "\<exists>t. outcome (reserve_delivery sample_config 1000) sample_complete = Inr (t, Some (EFiring, 2))"
proof -
  have h: "holds (config_generation sample_config) sample_pending (Some sample_delivered) sample_complete"
    using sample_complete_holds by (simp add: holds_def)
  have "\<exists>t j. plan sample_config 1000 sample_pending (Some sample_delivered) = Inr (t, j, Some (EFiring, 2))"
    by (simp add: plan_def planned_end_def planned_start_def planned_pending_def planned_ack_def planned_event_def
        choose_event_def overdue_def empty_state_def sample_config_def MAX_INT_def Let_def sample_pending_def
        sample_delivered_def)
  then obtain t j where p: "plan sample_config 1000 sample_pending (Some sample_delivered) = Inr (t, j, Some (EFiring, 2))"
    by blast
  from reserve_delivery_plan(1) [OF h _ _ refl p] show ?thesis
    by (simp add: yields_def sample_simps counter_def MAX_INT_def)
qed

theorem delivered_recovery_not_repeated_witness:
  "\<exists>t. outcome (reserve_delivery sample_config 1000) sample_complete = Inr (t, Some (EFiring, 2))
     \<and> pending_event t \<noteq> ERecovery
     \<and> load_intent (after (reserve_delivery sample_config 1000) sample_complete) = Inr (Some sample_delivered)"
proof -
  obtain t where t: "outcome (reserve_delivery sample_config 1000) sample_complete = Inr (t, Some (EFiring, 2))"
    using sample_complete_outcome by blast
  from delivered_recovery_not_repeated [OF sample_complete_holds _ _ _ _ _ _ t] t show ?thesis
    by (simp add: sample_simps counter_def MAX_INT_def sample_pending_def sample_delivered_def empty_state_def)
qed

text \<open>
  C24: completing a delivery. A completion that does not name the pending event and nonce changes
  nothing and returns the stored state. Otherwise every disk it publishes reads back as a state
  and an outbox, and once a delivered recovery is no longer pending on disk the outbox on that
  disk is complete, so a crash between the two writes cannot queue the notification again.
\<close>

theorem complete_delivery_crash_safe:
  assumes "load_state None d = Inr s" "load_intent d = Inr i" "counter now"
  shows "(pending_event s \<noteq> e \<or> pending_nonce s \<noteq> n \<longrightarrow> complete_delivery e n success now d = ([], Inr s))
    \<and> (\<forall>d' \<in> set (steps (complete_delivery e n success now) d). \<exists>t j.
       load_state None d' = Inr t \<and> load_intent d' = Inr j \<and> pending_nonce t = pending_nonce s
       \<and> (e = ERecovery \<and> success \<and> pending_event t \<noteq> ERecovery
           \<longrightarrow> (\<exists>q. j = Some q \<and> phase q = Complete \<and> attempt_nonce q = n)))"
proof -
  have "state_ok s" "\<And>q. i = Some q \<Longrightarrow> intent_ok q"
    using assms(1,2) by (auto intro: load_state_ok load_intent_ok)
  with assms show ?thesis
    by (auto simp: complete_delivery_run [OF _ _ _ refl] completed_ok intent_ok_def split: option.split if_splits)
qed

theorem complete_delivery_crash_safe_witness:
  "complete_delivery EFiring 7 True 1000 sample_complete = ([], Inr sample_pending)"
proof -
  have "load_state None sample_complete = Inr sample_pending"
    using sample_complete_holds(1) by (simp add: sample_complete_def load_state_def with_state_def with_intent_def)
  from complete_delivery_crash_safe [OF this sample_complete_holds(2), of 1000 EFiring 7 True] show ?thesis
    by (simp add: counter_def MAX_INT_def sample_pending_def empty_state_def)
qed

text \<open>
  C7: replay. A pulse that was accepted once is never accepted again: not under the same
  configuration or another one (a different generation included), not at any later clock, and not
  after any further history of accepted and refused pulses.
\<close>

theorem pulse_never_replayed:
  assumes "accept_pulse isoparse hmac raw token s config now = Inr t"
  shows "accept_pulse isoparse hmac raw token' (offered isoparse hmac t history) config' now' \<noteq> Inr u"
proof
  assume again: "accept_pulse isoparse hmac raw token' (offered isoparse hmac t history) config' now' = Inr u"
  obtain pulse expiry stamp where first: "decode_json unique_hook raw = Inr (PDict pulse)"
      "item pulse ''expires_at'' = PStr stamp" "isoparse (butlast stamp @ ''+00:00'') = Some (True, expiry)"
      "last_expiry t = expiry"
    using assms by (rule accept_pulse_accepted) simp
  from again first have "last_expiry (offered isoparse hmac t history) < expiry"
    by (elim accept_pulse_accepted) simp
  with first(4) offered_expiry [of t isoparse hmac history] show False by simp
qed

definition sample_pulse :: dict where
  "sample_pulse = [(''schema'', PInt 1), (''generation'', PStr (config_generation sample_config)),
     (''sequence'', PInt 5), (''issued_at'', PStr ''1000Z''), (''expires_at'', PStr ''1020Z''),
     (''health'', PDict [(''prometheus'', PBool True), (''alertmanager'', PBool True), (''canary'', PBool True),
        (''primary_telegram'', PBool True)]), (''signature'', PStr (replicate 64 (CHR ''0'')))]"

text \<open>The parameters of the sample: an instant is its number of seconds, and one signature fits all.\<close>

definition sample_isoparse :: "string \<Rightarrow> (bool \<times> int) option" where
  "sample_isoparse s = Some (True, int (read_nat (takeWhile is_digit s)))"

definition sample_hmac :: "string \<Rightarrow> string \<Rightarrow> string" where
  "sample_hmac key message = replicate 64 (CHR ''0'')"

lemma sample_pulse_text:
  "decode_json unique_hook (dumps (PDict sample_pulse)) = Inr (PDict sample_pulse)"
  "length (dumps (PDict sample_pulse)) \<le> 1024"
proof -
  have "plain (PDict sample_pulse)"
    by (simp add: sample_pulse_def sample_config_def show_nat_small is_ascii_def list_all_iff)
  then show "decode_json unique_hook (dumps (PDict sample_pulse)) = Inr (PDict sample_pulse)"
    by (intro decode_json_dumps keeps_distinct_unique)
  show "length (dumps (PDict sample_pulse)) \<le> 1024"
    by (simp add: sample_pulse_def sample_config_def length_join show_int_def show_nat_small quote_unescaped unescaped_def list_all_iff)
qed

lemma sample_accepted:
  "accept_pulse sample_isoparse sample_hmac (dumps (PDict sample_pulse)) [] (empty_state (config_generation sample_config)) sample_config 1000
   = Inr (empty_state (config_generation sample_config)\<lparr>last_sequence := 5, last_expiry := 1020, last_pulse := 1000\<rparr>)"
proof -
  have "accept_pulse sample_isoparse sample_hmac raw [] (empty_state (config_generation sample_config)) sample_config 1000
    = Inr (empty_state (config_generation sample_config)\<lparr>last_sequence := 5, last_expiry := 1020, last_pulse := 1000\<rparr>)"
    if "decode_json unique_hook raw = Inr (PDict sample_pulse)" "length raw \<le> 1024" for raw
    using that
    by (simp add: accept_pulse_def instant_def Let_def sample_pulse_def sample_isoparse_def sample_hmac_def sample_config_def
        keys_are_iff pulse_fields_def health_fields_def ends_with_def GENERATION_def SIGNATURE_def hex64_def repeated_def is_hex_def is_digit_def
        list_all_iff read_nat_def digit_val_def empty_state_def MAX_INT_def)
  then show ?thesis using sample_pulse_text by blast
qed

theorem pulse_never_replayed_witness:
  "accept_pulse sample_isoparse sample_hmac (dumps (PDict sample_pulse)) []
     (empty_state (config_generation sample_config)\<lparr>last_sequence := 5, last_expiry := 1020, last_pulse := 1000\<rparr>) sample_config 1001
   \<noteq> Inr (empty_state (config_generation sample_config))"
  using pulse_never_replayed [OF sample_accepted, of "[]" "[]"] by simp

end
