(* ===== verification/DeadmanService.thy ===== *)
theory DeadmanService
  imports DeadmanProofs
begin

text \<open>
  The rest of the dead-man receiver: credentials, the bounded request reader and the HTTP handlers,
  the Telegram and reverse-health exchanges with their retries, the periodic tick, and the
  admission control of the listener.

  An exchange over the network is a function from the attempt number to what that attempt met.
  \<open>isoformat\<close> is the text of an instant as \<open>datetime\<close> prints it.
\<close>

section \<open>Credentials\<close>

definition byte_space :: "char \<Rightarrow> bool" where
  \<comment> \<open>what \<open>bytes.strip\<close> removes\<close>
  "byte_space c \<longleftrightarrow> ord_of c = 32 \<or> (9 \<le> ord_of c \<and> ord_of c \<le> 13)"

definition read_token :: "string option \<Rightarrow> derr + string" where
  "read_token raw = (case raw of
     None \<Rightarrow> Inl (DeadmanError ''credential unavailable'')
   | Some bytes \<Rightarrow>
       let content = strip byte_space bytes in
       if \<not> (20 \<le> length content \<and> length content \<le> 128) \<or> list_ex latin_space content
       then Inl (DeadmanError ''credential unavailable'') else Inr content)"

section \<open>The bounded request reader\<close>

record reader =
  stream :: string
  remaining :: int

datatype read_method = Read | Readline

definition take_line :: "nat \<Rightarrow> string \<Rightarrow> string" where
  "take_line n s = (let before = takeWhile (\<lambda>c. c \<noteq> CHR 0x0A) s in
     take n (if length before < length s then before @ [CHR 0x0A] else before))"

definition bounded_read :: "read_method \<Rightarrow> int \<Rightarrow> reader \<Rightarrow> reader \<times> (derr + string)" where
  "bounded_read meth want r =
     (let requested = (if want < 0 then remaining r + 1 else min want (remaining r + 1));
          body = (case meth of Read \<Rightarrow> take (nat requested) (stream r) | Readline \<Rightarrow> take_line (nat requested) (stream r));
          r' = \<lparr>stream = drop (length body) (stream r), remaining = remaining r - int (length body)\<rparr>
      in (r', if remaining r' < 0 then Inl (DeadmanError ''invalid pulse'') else Inr body))"

fun bounded_reads :: "(read_method \<times> int) list \<Rightarrow> reader \<Rightarrow> reader \<times> (derr + string)" where
  "bounded_reads [] r = (r, Inr [])"
| "bounded_reads ((meth, n) # rest) r = (case bounded_read meth n r of
     (r', Inl e) \<Rightarrow> (r', Inl e)
   | (r', Inr body) \<Rightarrow> (case bounded_reads rest r' of
       (r'', Inl e) \<Rightarrow> (r'', Inl e) | (r'', Inr others) \<Rightarrow> (r'', Inr (body @ others))))"

definition read_pulse_body :: "reader \<Rightarrow> int \<Rightarrow> int \<Rightarrow> derr + string" where
  "read_pulse_body r want maximum =
     (if want < 0 \<or> maximum < want then Inl (DeadmanError ''invalid pulse'')
      else (case snd (bounded_read Read want r) of
          Inl e \<Rightarrow> Inl e
        | Inr body \<Rightarrow> if int (length body) \<noteq> want then Inl (DeadmanError ''invalid pulse'') else Inr body))"

section \<open>Telegram\<close>

definition telegram_retry_after :: "string \<Rightarrow> derr + int option" where
  "telegram_retry_after body =
     (if body = [] \<or> MAX_TELEGRAM_ERROR_BYTES < length body then Inr None
      else (case decode_json unique_hook body of
          Inl (Json JDigits) \<Rightarrow> Inl (Raised ValueError)
        | Inl _ \<Rightarrow> Inr None
        | Inr v \<Rightarrow>
            if \<not> is_dict v
              \<or> \<not> list_all (\<lambda>kv. fst kv \<in> {''ok'', ''error_code'', ''description'', ''parameters''}) (dict_of v)
            then Inr None
            else let parameters = item (dict_of v) ''parameters'' in
              if \<not> is_dict parameters then Inr None
              else let retry_after = item (dict_of parameters) ''retry_after'' in
                if is_bool retry_after \<or> \<not> isinstance_int retry_after then Inr None
                else if 0 \<le> int_of retry_after \<and> int_of retry_after \<le> 999999 then Inr (Some (int_of retry_after))
                else Inr None))"

definition telegram_retry_delay :: "string option \<Rightarrow> string \<Rightarrow> nat \<Rightarrow> int \<Rightarrow> derr + int" where
  "telegram_retry_delay header body attempt maximum = (case header of
     Some h \<Rightarrow> if repeated is_digit 1 6 h then Inr (min (int (read_nat h)) maximum)
       else bind_res (telegram_retry_after body) (\<lambda>d. case d of
           Some n \<Rightarrow> Inr (min n maximum) | None \<Rightarrow> Inr (min (2 ^ attempt) maximum))
   | None \<Rightarrow> bind_res (telegram_retry_after body) (\<lambda>d. case d of
           Some n \<Rightarrow> Inr (min n maximum) | None \<Rightarrow> Inr (min (2 ^ attempt) maximum)))"

text \<open>
  What one attempt meets: a response or an \<open>HTTPError\<close> with its status, its \<open>Retry-After\<close> header and
  its body (\<open>None\<close> when reading it fails), a transport failure (\<open>OSError\<close> or \<open>ValueError\<close>), or a
  malformed answer, for which \<open>urlopen\<close> raises an \<open>HTTPException\<close> that no handler here catches.
\<close>

datatype reply = Response int "string option" "string option"
  | HTTPError int "string option" "string option"
  | TransportFailure
  | MalformedAnswer

definition telegram_payload :: "dconfig \<Rightarrow> event \<Rightarrow> dict" where
  "telegram_payload config event =
     [(''chat_id'', PStr (chat_id config)),
      (''text'', PStr (''[secondary dead-man] monitoring-plane '' @ event_name event)),
      (''disable_web_page_preview'', PBool True)]
     @ (if topic_id config \<noteq> 0 then [(''message_thread_id'', PInt (topic_id config))] else [])"

definition retriable :: "int \<Rightarrow> bool" where
  "retriable status \<longleftrightarrow> status = 429 \<or> (500 \<le> status \<and> status \<le> 599)"

definition error_body :: "int \<Rightarrow> string option \<Rightarrow> string" where
  "error_body status body = (if status = 429 then
     (case body of None \<Rightarrow> [] | Some b \<Rightarrow> take (MAX_TELEGRAM_ERROR_BYTES + 1) b) else [])"

text \<open>The final answer of an attempt, or the metadata with which the loop goes on.\<close>

definition telegram_attempt :: "reply \<Rightarrow> bool + string option \<times> string" where
  "telegram_attempt r = (case r of
     Response status header body \<Rightarrow>
       if status = 200 then Inl True else if \<not> retriable status then Inl False
       else Inr (header, error_body status body)
   | HTTPError code header body \<Rightarrow>
       if \<not> retriable code then Inl False else Inr (header, error_body code body)
   | _ \<Rightarrow> Inr (None, []))"

record exchange =
  sent :: nat
  slept :: "int list"
  delivered :: bool

fun telegram_loop :: "dconfig \<Rightarrow> (nat \<Rightarrow> reply) \<Rightarrow> nat \<Rightarrow> nat \<Rightarrow> derr + exchange" where
  "telegram_loop config replies attempt 0 = Inr \<lparr>sent = 0, slept = [], delivered = False\<rparr>"
| "telegram_loop config replies attempt (Suc left) =
    (if replies attempt = MalformedAnswer then Inl (Raised HTTPException)
     else case telegram_attempt (replies attempt) of
     Inl answer \<Rightarrow> Inr \<lparr>sent = 1, slept = [], delivered = answer\<rparr>
   | Inr (header, body) \<Rightarrow>
       bind_res (if left = 0 then Inr []
          else bind_res (telegram_retry_delay header body attempt (retry_timeout_seconds config))
                 (\<lambda>delay. Inr (if delay \<noteq> 0 then [delay] else []))) (\<lambda>pause.
       bind_res (telegram_loop config replies (Suc attempt) left) (\<lambda>x.
       Inr (x\<lparr>sent := Suc (sent x), slept := pause @ slept x\<rparr>))))"

definition telegram :: "dconfig \<Rightarrow> string \<Rightarrow> event \<Rightarrow> (nat \<Rightarrow> reply) \<Rightarrow> derr + exchange" where
  "telegram config credential event replies =
     (if event = ENone then Inl (DeadmanError ''invalid event'')
      else if \<not> is_ascii credential then Inl (Raised ValueError)
      else telegram_loop config replies 0 (nat (retry_attempts config)))"

section \<open>Host health\<close>

text \<open>What the probes of \<open>_host_health\<close> read; \<open>None\<close> where a probe raises.\<close>

record probes =
  loadavg :: "rat list option"
  free_pages :: "(int \<times> int) option"
  statvfs :: "(int \<times> int) option"
  wall_clock :: int
  interfaces :: "(string \<times> string option) list option"
  systemctl :: "int option"

fun any_up :: "(string \<times> string option) list \<Rightarrow> bool option" where
  "any_up [] = Some False"
| "any_up ((name, operstate) # rest) =
     (if name = ''lo'' then any_up rest
      else (case operstate of
          None \<Rightarrow> None
        | Some t \<Rightarrow> if \<not> is_ascii t then None
            else if strip latin_space t = ''up'' then Some True
            else any_up rest))"

definition ok_if :: "bool \<Rightarrow> pv" where
  "ok_if b = PStr (if b then ''ok'' else ''error'')"

definition host_health :: "dconfig \<Rightarrow> probes \<Rightarrow> int \<Rightarrow> dict" where
  "host_health config p now =
     [(''cpu'', ok_if (case loadavg p of None \<Rightarrow> False | Some vs \<Rightarrow> list_all (\<lambda>v. 0 \<le> v) vs)),
      (''memory'', ok_if (case free_pages p of None \<Rightarrow> False | Some (pages, page_bytes) \<Rightarrow> 0 < pages \<and> 0 < page_bytes)),
      (''disk'', ok_if (case statvfs p of None \<Rightarrow> False | Some (bavail, favail) \<Rightarrow> 0 \<le> bavail)),
      (''inode'', ok_if (case statvfs p of None \<Rightarrow> False | Some (bavail, favail) \<Rightarrow> 0 \<le> favail)),
      (''clock'', ok_if (\<bar>wall_clock p - now\<bar> \<le> 5)),
      (''network'', ok_if (case interfaces p of None \<Rightarrow> False | Some es \<Rightarrow> any_up es = Some True)),
      (''unit'', ok_if (systemctl p = Some 0)),
      (''collector'', ok_if True),
      (''source'', ok_if (GENERATION (config_generation config)))]"

section \<open>Reverse health\<close>

fun post_reverse_loop :: "(nat \<Rightarrow> reply) \<Rightarrow> nat \<Rightarrow> nat \<Rightarrow> nat \<times> (derr + bool)" where
  "post_reverse_loop replies attempt 0 = (0, Inr False)"
| "post_reverse_loop replies attempt (Suc left) =
     (let again = (case post_reverse_loop replies (Suc attempt) left of (n, b) \<Rightarrow> (Suc n, b)) in
      case replies attempt of
        Response status _ _ \<Rightarrow> if status = 204 then (1, Inr True) else again
      | HTTPError code _ _ \<Rightarrow> if code \<in> {301, 302, 307, 308} then (1, Inr False) else again
      | TransportFailure \<Rightarrow> again
      | MalformedAnswer \<Rightarrow> (1, Inl (Raised HTTPException)))"

definition post_reverse :: "dconfig \<Rightarrow> dict \<Rightarrow> (nat \<Rightarrow> reply) \<Rightarrow> nat \<times> (derr + bool)" where
  "post_reverse config payload replies =
     (if reverse_health_max_bytes config < int (length (dumps (PDict payload)))
      then (0, Inl (DeadmanError ''invalid reverse health''))
      else post_reverse_loop replies 0 (nat (retry_attempts config)))"

definition reverse_payload ::
  "(string \<Rightarrow> string \<Rightarrow> string) \<Rightarrow> (int \<Rightarrow> string) \<Rightarrow> dconfig \<Rightarrow> string \<Rightarrow> dstate \<Rightarrow> probes \<Rightarrow> int \<Rightarrow> dict" where
  "reverse_payload hmac isoformat config token state p now =
     (let payload =
        [(''schema'', PInt 1), (''generation'', PStr (config_generation config)),
         (''issued_at'', PStr (isoformat now)), (''sequence'', PInt (last_reverse_sequence state)),
         (''health'', PDict ([(''receiver'', PStr (if incident state then ''incident'' else ''healthy'')),
            (''delivery'', PStr (delivery_name (last_delivery state)))] @ host_health config p now))]
      in payload @ [(''signature'', PStr (hmac token (canonical payload)))])"

definition reverse_health ::
  "(string \<Rightarrow> string \<Rightarrow> string) \<Rightarrow> (int \<Rightarrow> string) \<Rightarrow> dconfig \<Rightarrow> string \<Rightarrow> dstate \<Rightarrow> probes \<Rightarrow> bool \<Rightarrow>
   (nat \<Rightarrow> reply) \<Rightarrow> int \<Rightarrow> nat \<times> (derr + bool)" where
  "reverse_health hmac isoformat config token state p context_loads replies now =
     (if \<not> context_loads then (0, Inl (DeadmanError ''invalid reverse health''))
      else post_reverse config (reverse_payload hmac isoformat config token state p now) replies)"

section \<open>The tick\<close>

record network =
  telegram_replies :: "nat \<Rightarrow> reply"
  reverse_replies :: "nat \<Rightarrow> reply"
  context_loads :: bool

definition tick ::
  "(string \<Rightarrow> string \<Rightarrow> string) \<Rightarrow> (int \<Rightarrow> string) \<Rightarrow> dconfig \<Rightarrow> string \<Rightarrow> string \<Rightarrow> probes \<Rightarrow> network \<Rightarrow> int \<Rightarrow>
   (ddisk, derr, dstate) dio" where
  "tick hmac isoformat config telegram_token pulse_token p net now =
     seq (reserve_delivery config now) (\<lambda>(_, reservation).
     seq (case reservation of
         None \<Rightarrow> ret ()
       | Some (event, nonce) \<Rightarrow>
           seq (look (\<lambda>_. telegram config telegram_token event (telegram_replies net))) (\<lambda>x.
           seq (complete_delivery event nonce (delivered x) now) (\<lambda>_. ret ()))) (\<lambda>_.
     seq reserve_reverse_sequence (\<lambda>state.
     seq (look (\<lambda>_. snd (reverse_health hmac isoformat config pulse_token state p (context_loads net) (reverse_replies net) now))) (\<lambda>_.
     ret state))))"

definition status_payload :: "dstate \<Rightarrow> string" where
  "status_payload state = dumps (PDict
     [(''schema'', PInt 1), (''incident'', PBool (incident state)),
      (''last_delivery'', PStr (delivery_name (last_delivery state))),
      (''last_pulse'', PInt (last_pulse state)),
      (''last_canary_delivery'', PStr (canary_name (last_canary_delivery state)))])"

section \<open>The HTTP handlers\<close>

record http_request =
  req_path :: string
  content_lengths :: "string list"
  transfer_encoding :: "string option"
  body_reader :: reader

text \<open>
  \<open>do_POST\<close>: the status code it sends, or the exception that it does not catch. \<open>DeadmanError\<close>,
  \<open>OSError\<close> and \<open>ValueError\<close> become 400; everything published before stays published.
\<close>

definition caught :: "derr \<Rightarrow> bool" where
  "caught e = (case e of DeadmanError _ \<Rightarrow> True | Raised OSError \<Rightarrow> True | Raised ValueError \<Rightarrow> True | _ \<Rightarrow> False)"

definition do_POST ::
  "(string \<Rightarrow> (bool \<times> int) option) \<Rightarrow> (string \<Rightarrow> string \<Rightarrow> string) \<Rightarrow> dconfig \<Rightarrow> string \<Rightarrow> http_request \<Rightarrow> int \<Rightarrow>
   (ddisk, derr, nat) dio" where
  "do_POST isoparse hmac config token req now =
     (if req_path req \<noteq> ''/v1/pulse'' then ret 404
      else
        let lengths = content_lengths req;
            body = (if length lengths \<noteq> 1 \<or> \<not> repeated is_digit 1 4 (hd lengths) \<or> transfer_encoding req \<noteq> None
              then Inl (DeadmanError ''invalid pulse'')
              else read_pulse_body (body_reader req) (int (read_nat (hd lengths))) (max_pulse_bytes config))
        in (\<lambda>disk. case seq (look (\<lambda>_. body)) (\<lambda>raw. accept_and_save isoparse hmac raw token config now) disk of
              (published, Inr _) \<Rightarrow> (published, Inr 204)
            | (published, Inl e) \<Rightarrow> (published, if caught e then Inr 400 else Inl e)))"

definition do_GET :: "dconfig \<Rightarrow> string \<Rightarrow> ddisk \<Rightarrow> derr + nat \<times> string" where
  "do_GET config path disk =
     (if path \<noteq> ''/v1/status'' then Inr (404, [])
      else (case load_state (Some (config_generation config)) disk of
          Inr state \<Rightarrow> Inr (200, status_payload state)
        | Inl (DeadmanError _) \<Rightarrow> Inr (503, [])
        | Inl e \<Rightarrow> Inl e))"

section \<open>Admission control\<close>

text \<open>
  The listener as a machine over the permits of its semaphore and the number of live request
  threads. \<open>process_request\<close> takes a permit or drops the connection; a failure to start the thread
  gives the permit back; the thread gives it back when it ends, whatever it raised. A
  \<open>BoundedSemaphore\<close> raises \<open>ValueError\<close> when released above its initial value: \<open>overrun\<close>.
\<close>

record listener =
  permits :: nat
  threads :: nat
  overrun :: bool

definition admission_limit :: nat where
  "admission_limit = 4"

definition listener_start :: listener where
  "listener_start = \<lparr>permits = admission_limit, threads = 0, overrun = False\<rparr>"

definition acquire :: "listener \<Rightarrow> listener option" where
  "acquire l = (if permits l = 0 then None else Some (l\<lparr>permits := permits l - 1\<rparr>))"

definition release :: "listener \<Rightarrow> listener" where
  "release l = (if admission_limit \<le> permits l then l\<lparr>overrun := True\<rparr> else l\<lparr>permits := Suc (permits l)\<rparr>)"

definition process_request :: "bool \<Rightarrow> listener \<Rightarrow> listener" where
  "process_request starts l = (case acquire l of
     None \<Rightarrow> l
   | Some l' \<Rightarrow> if starts then l'\<lparr>threads := Suc (threads l')\<rparr> else release l')"

definition end_thread :: "listener \<Rightarrow> listener" where
  "end_thread l = (release l)\<lparr>threads := threads l - 1\<rparr>"

inductive serves :: "listener \<Rightarrow> listener \<Rightarrow> bool" where
  connection: "serves l (process_request starts l)"
| finished: "0 < threads l \<Longrightarrow> serves l (end_thread l)"

inductive_cases serves_cases: "serves l l'"

section \<open>Lemmas\<close>

lemma find_eq_range:
  "in_range v lo hi \<Longrightarrow> lo \<le> range_value v lo hi \<and> range_value v lo hi < hi"
  by (auto simp: in_range_def range_value_def list_ex_iff dest: find_Some_set split: option.split)

lemma validate_config_bounds:
  "validate_config v = Inr c \<Longrightarrow> 1 \<le> retry_attempts c \<and> retry_attempts c \<le> 2 \<and> 1 \<le> retry_timeout_seconds c
     \<and> retry_timeout_seconds c \<le> 5 \<and> 512 \<le> max_pulse_bytes c \<and> max_pulse_bytes c \<le> 4096
     \<and> GENERATION (config_generation c) \<and> 1 \<le> length (required_units c) \<and> length (required_units c) \<le> 8"
  unfolding validate_config_def Let_def
  by (simp split: if_split_asm)
     (use find_eq_range [of "item (dict_of v) ''retry_attempts''" 1 3]
        find_eq_range [of "item (dict_of v) ''retry_timeout_seconds''" 1 6] in auto)

lemma load_config_validated: "load_config raw = Inr c \<Longrightarrow> \<exists>v. validate_config v = Inr c"
  by (auto simp: load_config_def split: option.splits if_splits sum.splits decode_error.splits json_error.splits)

lemma retry_after_bounds: "telegram_retry_after body = Inr (Some n) \<Longrightarrow> 0 \<le> n"
  unfolding telegram_retry_after_def Let_def
  by (simp split: if_split_asm sum.split_asm decode_error.split_asm json_error.split_asm)

lemma retry_delay_bounds:
  "telegram_retry_delay h body k maximum = Inr n \<Longrightarrow> 0 \<le> maximum \<Longrightarrow> 0 \<le> n \<and> n \<le> maximum"
  unfolding telegram_retry_delay_def
  by (auto simp: bind_res_Inr retry_after_bounds split: option.split_asm if_split_asm)

lemma telegram_loop_bounds:
  assumes "telegram_loop config replies k left = Inr x" "0 \<le> retry_timeout_seconds config"
  shows "sent x \<le> left \<and> sum_list (slept x) \<le> int (left - 1) * retry_timeout_seconds config
     \<and> (\<forall>n \<in> set (slept x). 0 < n \<and> n \<le> retry_timeout_seconds config)
     \<and> (delivered x \<longrightarrow> 0 < sent x \<and> (\<exists>h b. replies (k + sent x - 1) = Response 200 h b))"
  using assms
proof (induction config replies k left arbitrary: x rule: telegram_loop.induct)
  case (2 config replies k left)
  have nm: "replies k \<noteq> MalformedAnswer" using "2.prems"(1) by (auto split: if_split_asm)
  show ?case
  proof (cases "telegram_attempt (replies k)")
    case (Inl answer)
    then show ?thesis
      using "2.prems" nm by (auto simp: telegram_attempt_def split: reply.splits if_splits)
  next
    case (Inr hb)
    obtain h b where hb: "hb = (h, b)" by (cases hb)
    from "2.prems"(1) Inr hb obtain pause y where
      p: "(if left = 0 then Inr [] else bind_res (telegram_retry_delay h b k (retry_timeout_seconds config))
             (\<lambda>delay. Inr (if delay \<noteq> 0 then [delay] else []))) = Inr pause"
      and y: "telegram_loop config replies (Suc k) left = Inr y"
      and x: "x = y\<lparr>sent := Suc (sent y), slept := pause @ slept y\<rparr>"
      using nm by (auto simp: bind_res_Inr)
    from y Inr hb "2.prems"(2) have IH: "sent y \<le> left \<and> sum_list (slept y) \<le> int (left - 1) * retry_timeout_seconds config
       \<and> (\<forall>n \<in> set (slept y). 0 < n \<and> n \<le> retry_timeout_seconds config)
       \<and> (delivered y \<longrightarrow> 0 < sent y \<and> (\<exists>h b. replies (Suc k + sent y - 1) = Response 200 h b))"
      by (intro "2.IH") (use p nm in simp_all)
    have pause: "\<forall>n \<in> set pause. 0 < n \<and> n \<le> retry_timeout_seconds config" "left = 0 \<longrightarrow> pause = []"
      "sum_list pause \<le> retry_timeout_seconds config"
      using p "2.prems"(2) by (auto simp: bind_res_Inr split: if_splits dest!: retry_delay_bounds)
    have "sum_list (slept x) \<le> int left * retry_timeout_seconds config"
    proof (cases left)
      case (Suc m)
      with IH pause(3) show ?thesis by (simp add: x algebra_simps)
    qed (use IH pause in \<open>simp add: x\<close>)
    then show ?thesis using IH pause(1) by (auto simp: x)
  qed
qed simp

text \<open>The replies at which the reverse exchange stops.\<close>

definition final :: "reply \<Rightarrow> bool" where
  "final r = (case r of Response status _ _ \<Rightarrow> status = 204
     | HTTPError code _ _ \<Rightarrow> code \<in> {301, 302, 307, 308} | TransportFailure \<Rightarrow> False | MalformedAnswer \<Rightarrow> True)"

lemma post_reverse_loop_unfold:
  "post_reverse_loop replies k (Suc left) =
     (if final (replies k) then (1, if replies k = MalformedAnswer then Inl (Raised HTTPException)
        else Inr (\<exists>h t. replies k = Response 204 h t))
      else (case post_reverse_loop replies (Suc k) left of (n, b) \<Rightarrow> (Suc n, b)))"
  by (auto simp: final_def Let_def split: reply.split)

lemma post_reverse_bounds:
  "post_reverse_loop replies k left = (n, b) \<Longrightarrow>
     n \<le> left \<and> (b = Inr True \<longrightarrow> 0 < n \<and> (\<exists>h t. replies (k + n - 1) = Response 204 h t))
     \<and> (\<forall>j < n - 1. \<not> final (replies (k + j)))"
proof (induction left arbitrary: k n b)
  case (Suc left)
  obtain m c where r: "post_reverse_loop replies (Suc k) left = (m, c)" by fastforce
  note IH = Suc.IH [OF r]
  show ?case
  proof (cases "final (replies k)")
    case True
    then show ?thesis using Suc.prems by (auto simp: post_reverse_loop_unfold simp del: post_reverse_loop.simps split: if_splits)
  next
    case False
    then have n: "n = Suc m" "b = c"
      using Suc.prems r by (simp_all add: post_reverse_loop_unfold del: post_reverse_loop.simps)
    have "\<not> final (replies (k + j))" if "j < m" for j
      using False IH that by (cases j) auto
    with IH n show ?thesis by auto
  qed
qed simp

lemma bounded_read_ok:
  "bounded_read meth n r = (r', Inr body) \<Longrightarrow>
     int (length body) + remaining r' = remaining r \<and> 0 \<le> remaining r'"
  by (auto simp: bounded_read_def Let_def split: if_splits read_method.splits)

lemma takeWhile_split:
  "length (takeWhile P s) < length s \<Longrightarrow> \<exists>c t. s = takeWhile P s @ c # t \<and> \<not> P c"
proof (induction s)
  case (Cons x s)
  then show ?case by (cases "P x") auto
qed simp

lemma take_line_prefix: "\<exists>t. s = take_line n s @ t"
proof (cases "length (takeWhile (\<lambda>c. c \<noteq> CHR 0x0A) s) < length s")
  case True
  then obtain t where t: "s = (takeWhile (\<lambda>c. c \<noteq> CHR 0x0A) s @ [CHR 0x0A]) @ t"
    using takeWhile_split [OF True] by auto
  have "s = take n p @ (drop n p @ t)" if "s = p @ t" for p using that by simp
  from this [OF t] have "\<exists>u. s = take n (takeWhile (\<lambda>c. c \<noteq> CHR 0x0A) s @ [CHR 0x0A]) @ u" by blast
  then show ?thesis using True by (simp only: take_line_def Let_def if_True)
next
  case False
  have "takeWhile (\<lambda>c. c \<noteq> CHR 0x0A) s = s"
    using False takeWhile_dropWhile_id [of "\<lambda>c. c \<noteq> CHR 0x0A" s] length_takeWhile_le [of "\<lambda>c. c \<noteq> CHR 0x0A" s]
    by (metis append.right_neutral append_eq_conv_conj drop_all not_less)
  then have "take_line n s = take n s" unfolding take_line_def Let_def by (simp only: less_irrefl if_False)
  then show ?thesis by (metis append_take_drop_id)
qed

lemma bounded_read_stream: "bounded_read meth n r = (r', q) \<Longrightarrow> \<exists>taken. stream r = taken @ stream r'
    \<and> remaining r' = remaining r - int (length taken) \<and> (q = Inr taken \<or> (\<exists>e. q = Inl e))
    \<and> (0 \<le> remaining r \<longrightarrow> int (length taken) \<le> remaining r + 1)"
proof -
  assume a: "bounded_read meth n r = (r', q)"
  let ?k = "nat (if n < 0 then remaining r + 1 else min n (remaining r + 1))"
  define taken where "taken = (case meth of Read \<Rightarrow> take ?k (stream r) | Readline \<Rightarrow> take_line ?k (stream r))"
  obtain t where t: "stream r = taken @ t"
  proof (cases meth)
    case Read
    then show ?thesis using that [of "drop ?k (stream r)"] by (simp add: taken_def)
  next
    case Readline
    then show ?thesis using that take_line_prefix [of "stream r" ?k] by (auto simp: taken_def)
  qed
  have "length taken \<le> ?k" by (cases meth) (simp_all add: taken_def take_line_def Let_def)
  then have "0 \<le> remaining r \<longrightarrow> int (length taken) \<le> remaining r + 1" by (auto split: if_splits)
  moreover from a have "r' = \<lparr>stream = drop (length taken) (stream r), remaining = remaining r - int (length taken)\<rparr>"
    "q = Inr taken \<or> (\<exists>e. q = Inl e)"
    by (auto simp: bounded_read_def taken_def Let_def split: if_splits)
  ultimately show ?thesis using t by auto
qed

lemma bounded_reads_stream:
  "bounded_reads ops r = (r', q) \<Longrightarrow> 0 \<le> remaining r \<Longrightarrow> \<exists>taken. stream r = taken @ stream r'
     \<and> int (length taken) \<le> remaining r + 1
     \<and> (q = Inr taken \<and> int (length taken) + remaining r' = remaining r \<and> 0 \<le> remaining r' \<or> (\<exists>e. q = Inl e))"
proof (induction ops r arbitrary: r' q rule: bounded_reads.induct)
  case (2 meth n rest r)
  obtain r1 q1 where one: "bounded_read meth n r = (r1, q1)" by fastforce
  from bounded_read_stream [OF one] "2.prems"(2) obtain taken where t: "stream r = taken @ stream r1"
    "remaining r1 = remaining r - int (length taken)" "q1 = Inr taken \<or> (\<exists>e. q1 = Inl e)" "int (length taken) \<le> remaining r + 1"
    by auto
  show ?case
  proof (cases q1)
    case (Inl e)
    with "2.prems"(1) one t show ?thesis by auto
  next
    case (Inr body)
    with t have b: "body = taken" by auto
    have r1: "0 \<le> remaining r1" using bounded_read_ok one Inr by blast
    obtain q2 where rest: "bounded_reads rest r1 = (r', q2)"
      using "2.prems"(1) one Inr by (auto split: prod.splits sum.splits)
    from "2.IH" [OF one [symmetric] Inr rest r1] obtain more' where m: "stream r1 = more' @ stream r'"
      "int (length more') \<le> remaining r1 + 1"
      "q2 = Inr more' \<and> int (length more') + remaining r' = remaining r1 \<and> 0 \<le> remaining r' \<or> (\<exists>e. q2 = Inl e)"
      by blast
    from "2.prems"(1) one Inr rest have "q = (case q2 of Inl e \<Rightarrow> Inl e | Inr x \<Rightarrow> Inr (body @ x))"
      by (auto split: sum.splits)
    with m t b show ?thesis by (intro exI [of _ "taken @ more'"]) auto
  qed
qed simp

lemma accept_pulse_ok:
  assumes "accept_pulse isoparse hmac raw token s config now = Inr t" "state_ok s" "counter now"
    "counter (now + max_future_seconds config)"
  shows "state_ok t \<and> int (length raw) \<le> max_pulse_bytes config"
proof (rule accept_pulse_accepted [OF assms(1)])
  fix sequence expiry
  assume "t = s\<lparr>source_generation := config_generation config, last_sequence := sequence,
           last_expiry := expiry, last_pulse := now\<rparr>"
    "GENERATION (config_generation config)" "sequence \<le> MAX_INT" "0 \<le> expiry" "expiry \<le> now + max_future_seconds config"
    "source_generation s = config_generation config \<longrightarrow> last_sequence s < sequence"
    "0 < sequence \<or> source_generation s = config_generation config" "int (length raw) \<le> max_pulse_bytes config"
  with assms(2-4) show ?thesis by (auto simp: state_ok_def counter_def)
qed

lemma accept_and_save_run:
  assumes "load_state (Some (config_generation config)) d = Inr s" "counter now" "counter (now + max_future_seconds config)"
  shows "accept_and_save isoparse hmac raw token config now d =
    (case accept_pulse isoparse hmac raw token s config now of
       Inl e \<Rightarrow> ([], Inl e) | Inr t \<Rightarrow> ([with_state t d], Inr t))"
  using accept_pulse_ok [of isoparse hmac raw token s config now] load_state_ok [OF assms(1)] assms
  by (auto simp: accept_and_save_def dio_eval put_state_eq split: sum.split)

lemma reserve_reverse_run:
  assumes "load_state None d = Inr s"
  shows "reserve_reverse_sequence d =
    (if MAX_INT \<le> last_reverse_sequence s then ([], Inl (DeadmanError ''reverse sequence exhausted''))
     else ([with_state (s\<lparr>last_reverse_sequence := last_reverse_sequence s + 1\<rparr>) d],
           Inr (s\<lparr>last_reverse_sequence := last_reverse_sequence s + 1\<rparr>)))"
proof -
  have "state_ok s" using assms by (rule load_state_ok)
  then have "state_ok (s\<lparr>last_reverse_sequence := last_reverse_sequence s + 1\<rparr>)" if "\<not> MAX_INT \<le> last_reverse_sequence s"
    using that by (auto simp: state_ok_def counter_def)
  then show ?thesis
    using assms by (simp add: reserve_reverse_sequence_def dio_eval put_state_eq Let_def)
qed

lemma plan_keeps_reverse:
  "plan config now s i = Inr (t, j, r) \<Longrightarrow> last_reverse_sequence t = last_reverse_sequence s
     \<and> last_sequence t = last_sequence s \<and> last_expiry t = last_expiry s"
  unfolding plan_def planned_event_def planned_pending_def planned_ack_def planned_start_def planned_end_def Let_def
  by (auto split: if_split_asm prod.split_asm)

lemma load_state_none: "load_state None d = Inr u \<Longrightarrow> load_state g d = Inr u"
  by (auto simp: load_state_def split: option.splits)

lemma load_state_differs:
  "load_state (Some g) d = Inr u \<Longrightarrow> load_state None d = Inr v \<Longrightarrow> v = u"
  using load_state_none [of d v "Some g"] by simp

definition tick_tail ::
  "(string \<Rightarrow> string \<Rightarrow> string) \<Rightarrow> (int \<Rightarrow> string) \<Rightarrow> dconfig \<Rightarrow> string \<Rightarrow> string \<Rightarrow> probes \<Rightarrow> network \<Rightarrow> int \<Rightarrow>
   (event \<times> int) option \<Rightarrow> (ddisk, derr, dstate) dio" where
  "tick_tail hmac isoformat config telegram_token pulse_token p net now reservation =
     seq (case reservation of
         None \<Rightarrow> ret ()
       | Some (event, nonce) \<Rightarrow>
           seq (look (\<lambda>_. telegram config telegram_token event (telegram_replies net))) (\<lambda>x.
           seq (complete_delivery event nonce (delivered x) now) (\<lambda>_. ret ()))) (\<lambda>_.
     seq reserve_reverse_sequence (\<lambda>state.
     seq (look (\<lambda>_. snd (reverse_health hmac isoformat config pulse_token state p (context_loads net) (reverse_replies net) now))) (\<lambda>_.
     ret state)))"

lemma tick_split: "tick hmac isoformat config telegram_token pulse_token p net now =
    seq (reserve_delivery config now) (\<lambda>(_, r). tick_tail hmac isoformat config telegram_token pulse_token p net now r)"
  by (simp add: tick_def tick_tail_def)

definition guards_kept :: "dstate \<Rightarrow> dstate \<Rightarrow> bool" where
  "guards_kept s t \<longleftrightarrow> last_reverse_sequence t = last_reverse_sequence s \<and> last_sequence t = last_sequence s
     \<and> last_expiry t = last_expiry s"

lemma completed_guards: "guards_kept s (completed e success now s)"
  by (simp add: guards_kept_def completed_def Let_def)

lemma complete_delivery_keeps:
  assumes "load_state (Some g) d = Inr u" "load_intent d = Inr j" "counter now"
    and "outcome (complete_delivery e n success now) d = Inr v"
  shows "\<exists>w. load_state None (after (complete_delivery e n success now) d) = Inr w \<and> guards_kept u w"
proof -
  have "load_state None d = Inr u"
    using assms(1,4) load_state_differs [of g d u]
    by (cases "load_state None d") (auto simp: complete_delivery_def dio_eval)
  moreover have "state_ok (completed e success now u)"
    using assms(1,3) by (intro completed_ok load_state_ok)
  ultimately show ?thesis
    using assms(2,3) completed_guards [of u e success now]
    by (auto simp: complete_delivery_run [OF _ _ _ refl] after_def guards_kept_def split: option.split)
qed

lemma tick_tail_result:
  assumes "load_state (Some g) d = Inr u" "load_intent d = Inr j" "counter now"
    and "outcome (tick_tail hmac isoformat config telegram_token pulse_token p net now r) d = Inr t"
  shows "last_reverse_sequence t = last_reverse_sequence u + 1 \<and> last_sequence t = last_sequence u
     \<and> last_expiry t = last_expiry u
     \<and> load_state (Some g) (after (tick_tail hmac isoformat config telegram_token pulse_token p net now r) d) = Inr t"
proof -
  let ?m = "case r of None \<Rightarrow> ret () | Some (event, nonce) \<Rightarrow>
           seq (look (\<lambda>_. telegram config telegram_token event (telegram_replies net))) (\<lambda>x.
           seq (complete_delivery event nonce (delivered x) now) (\<lambda>_. ret ()))"
  let ?rest = "seq reserve_reverse_sequence (\<lambda>state.
     seq (look (\<lambda>_. snd (reverse_health hmac isoformat config pulse_token state p (context_loads net) (reverse_replies net) now))) (\<lambda>_.
     ret state))"
  from assms(4) have m: "outcome ?m d = Inr ()" "outcome ?rest (after ?m d) = Inr t"
    and aft: "after (tick_tail hmac isoformat config telegram_token pulse_token p net now r) d = after ?rest (after ?m d)"
    unfolding tick_tail_def by (auto elim!: seq_InrE)
  have "\<exists>w. (load_state None (after ?m d) = Inr w \<or> (\<exists>e. load_state None (after ?m d) = Inl e)) \<and> guards_kept u w"
    if "r = None"
    using that assms(1) load_state_differs [of g d u]
    by (cases "load_state None d") (auto simp: run_prims guards_kept_def)
  moreover have "\<exists>w. load_state None (after ?m d) = Inr w \<and> guards_kept u w" if r: "r = Some (e, n)" for e n
  proof -
    obtain x :: exchange and v where "outcome (complete_delivery e n (delivered x) now) d = Inr v"
      "after ?m d = after (complete_delivery e n (delivered x) now) d"
      using m(1) unfolding r by (auto elim!: seq_InrE simp: run_prims)
    with complete_delivery_keeps [OF assms(1-3)] show ?thesis by metis
  qed
  ultimately obtain w where w: "load_state None (after ?m d) = Inr w \<or> (\<exists>e. load_state None (after ?m d) = Inl e)"
    "guards_kept u w" by (cases r) auto
  have l: "load_state None (after ?m d) = Inr w"
    using w(1) m(2) by (auto simp: reserve_reverse_sequence_def seq_assoc dio_eval)
  have t: "t = w\<lparr>last_reverse_sequence := last_reverse_sequence w + 1\<rparr>" "after ?rest (after ?m d) = with_state t (after ?m d)"
    "state_ok t"
    using m(2) reserve_reverse_run [OF l] load_state_ok [OF l]
    by (auto elim!: seq_InrE simp: run_prims after_def [of reserve_reverse_sequence] state_ok_def counter_def split: if_splits)
  then show ?thesis using aft w(2) by (simp add: guards_kept_def)
qed

lemma serves_invariant:
  "serves\<^sup>*\<^sup>* listener_start l \<Longrightarrow> permits l + threads l = admission_limit \<and> \<not> overrun l"
proof (induction rule: rtranclp_induct)
  case base
  show ?case by (simp add: listener_start_def)
next
  case (step l l')
  from step.hyps(2) step.IH show ?case
    by (cases rule: serves.cases)
       (auto simp: process_request_def acquire_def release_def end_thread_def split: option.splits if_splits)
qed

section \<open>The claims\<close>

text \<open>
  A Telegram exchange is bounded. Under a configuration that the loader accepted, the receiver
  makes at most two requests and sleeps at most five seconds between them, every pause being
  between one second and the configured timeout, whatever the server answers; and it reports a
  delivery only if the last request it made was answered with status 200.
\<close>

theorem telegram_bounded:
  assumes "load_config raw = Inr config" "telegram config credential event replies = Inr x"
  shows "sent x \<le> 2 \<and> sum_list (slept x) \<le> 5 \<and> (\<forall>n \<in> set (slept x). 1 \<le> n \<and> n \<le> retry_timeout_seconds config)
     \<and> (delivered x \<longrightarrow> (\<exists>h b. replies (sent x - 1) = Response 200 h b))"
proof -
  obtain v where "validate_config v = Inr config" using load_config_validated [OF assms(1)] by blast
  note c = validate_config_bounds [OF this]
  from assms(2) have x: "telegram_loop config replies 0 (nat (retry_attempts config)) = Inr x"
    by (auto simp: telegram_def split: if_splits)
  have b: "sent x \<le> nat (retry_attempts config)"
    "sum_list (slept x) \<le> int (nat (retry_attempts config) - 1) * retry_timeout_seconds config"
    "\<forall>n \<in> set (slept x). 0 < n \<and> n \<le> retry_timeout_seconds config"
    "delivered x \<longrightarrow> (\<exists>h b. replies (sent x - 1) = Response 200 h b)"
    using telegram_loop_bounds [OF x] c by auto
  have "int (nat (retry_attempts config) - 1) * retry_timeout_seconds config \<le> 1 * 5"
    using c by (intro mult_mono) auto
  with b c show ?thesis by force
qed

definition sample_document :: dict where
  "sample_document = [(''schema'', PInt 1), (''pulse_path'', PStr ''/v1/pulse''),
     (''pulse_interval_seconds'', PInt 60), (''missed_pulse_limit'', PInt 5), (''max_future_seconds'', PInt 30),
     (''max_pulse_bytes'', PInt 1024), (''retry_attempts'', PInt 2), (''retry_timeout_seconds'', PInt 5),
     (''reminder_interval_seconds'', PInt 3600), (''canary_interval_seconds'', PInt 86400),
     (''reverse_health_url'', PStr ''https://m:9443/observability/v1/deadman/reverse''),
     (''reverse_health_max_bytes'', PInt 4096), (''source_generation'', PStr (replicate 40 (CHR ''a''))),
     (''required_units'', PList [PStr ''x.service'']),
     (''pulse_tls'', PDict [(''server_name'', PStr ''localhost''),
        (''server_cert_credential'', PStr ''pulse-server-cert''), (''server_key_credential'', PStr ''pulse-server-key'')]),
     (''reverse_health_tls'', PDict [(''ca_credential'', PStr ''ca''), (''client_cert_credential'', PStr ''cert''),
        (''client_key_credential'', PStr ''key''), (''client_cn'', PStr ''deadman-control''),
        (''client_cert_fingerprint_sha256'', PStr (replicate 64 (CHR ''0''))),
        (''ca_fingerprint_sha256'', PStr (replicate 64 (CHR ''1'')))]),
     (''telegram'', PDict [(''chat_id'', PStr ''-100000''), (''topic_id'', PInt 0)])]"

lemma in_range_PInt:
  assumes "lo \<le> n" "n < hi"
  shows "in_range (PInt n) lo hi" "range_value (PInt n) lo hi = n"
proof -
  show i: "in_range (PInt n) lo hi" using assms by (auto simp: in_range_def list_ex_iff)
  then obtain m where "find (eq_int (PInt n)) [lo..hi - 1] = Some m"
    by (cases "find (eq_int (PInt n)) [lo..hi - 1]") (auto simp: in_range_def find_None_iff list_ex_iff)
  then show "range_value (PInt n) lo hi = n" by (auto simp: range_value_def dest: find_Some_set)
qed

lemma sample_document_valid:
  "validate_config (PDict sample_document) =
     Inr (sample_config\<lparr>reverse_health_url := ''https://m:9443/observability/v1/deadman/reverse''\<rparr>)"
proof -
  have keys: "keys_are sample_document config_fields"
    by (simp add: keys_are_iff config_fields_def sample_document_def insert_commute)
  have tls: "\<not> bad_pulse_tls (item sample_document ''pulse_tls'')" "\<not> bad_reverse_tls (item sample_document ''reverse_health_tls'')"
    by (simp_all add: bad_pulse_tls_def bad_reverse_tls_def sample_document_def keys_are_iff PULSE_SERVER_NAME_def Let_def
        credential_name_def head_tail_def SIGNATURE_def hex64_def repeated_def list_all_iff is_lower_def is_hex_def is_digit_def
        is_alnum_lower_def replicate_eq_replicate)
  have range: "in_range (PInt 2) 1 3" "in_range (PInt 5) 1 6" "in_range (PInt 4096) 256 4097"
    "range_value (PInt 2) 1 3 = 2" "range_value (PInt 5) 1 6 = 5" "range_value (PInt 4096) 256 4097 = 4096"
    by (simp_all add: in_range_PInt)
  have chat: "keys_are [(''chat_id'', PStr ''-100000''), (''topic_id'', PInt 0)] [''chat_id'', ''topic_id'']"
    by (simp add: keys_are_iff)
  show ?thesis
    using keys tls chat unfolding validate_config_def Let_def
    by (simp add: sample_document_def range bad_units_def unit_name_def ends_with_def head_tail_def is_alnum_lower_def is_lower_def
       REVERSE_HEALTH_URL_def starts_with_def is_alnum_def GENERATION_def list_all_iff is_hex_def is_digit_def unhashable_def pv_tests
       chat_id_pattern_def repeated_def sample_config_def Let_def)
qed

lemma sample_document_text:
  "load_config (Some (dumps (PDict sample_document))) =
     Inr (sample_config\<lparr>reverse_health_url := ''https://m:9443/observability/v1/deadman/reverse''\<rparr>)"
proof -
  have "plain (PDict sample_document)"
    by (simp add: sample_document_def is_ascii_def list_all_iff show_nat.simps)
  then have "decode_json unique_hook (dumps (PDict sample_document)) = Inr (PDict sample_document)"
    by (intro decode_json_dumps keeps_distinct_unique)
  moreover have "length (dumps (PDict sample_document)) \<le> 4096"
    by (simp add: sample_document_def length_join show_int_def show_nat.simps quote_unescaped unescaped_def list_all_iff)
  ultimately show ?thesis
    unfolding load_config_def by (simp only: option.case sum.case sample_document_valid MAX_STATE_BYTES_def not_less [symmetric] if_False)
qed

theorem telegram_bounded_witness:
  "\<exists>x. telegram (sample_config\<lparr>reverse_health_url := ''https://m:9443/observability/v1/deadman/reverse''\<rparr>) ''token'' EFiring
      (\<lambda>k. if k = 0 then Response 429 (Some ''900'') None else Response 200 None None) = Inr x
    \<and> sent x = 2 \<and> slept x = [5] \<and> delivered x \<and> sum_list (slept x) \<le> 5"
proof -
  let ?c = "sample_config\<lparr>reverse_health_url := ''https://m:9443/observability/v1/deadman/reverse''\<rparr>"
  let ?r = "\<lambda>k :: nat. if k = 0 then Response 429 (Some ''900'') None else Response 200 None None"
  have "telegram ?c ''token'' EFiring ?r = Inr \<lparr>sent = 2, slept = [5], delivered = True\<rparr>"
    by (simp add: telegram_def sample_config_def is_ascii_def numeral_2_eq_2 telegram_attempt_def retriable_def error_body_def
        telegram_retry_delay_def repeated_def is_digit_def read_nat_def digit_val_def)
  from this telegram_bounded [OF sample_document_text this] show ?thesis by simp
qed

text \<open>
  The request reader bounds the whole request. Over any sequence of \<open>read\<close> and \<open>readline\<close> calls
  with any length arguments, what the calls return is a prefix of what the client sent and never
  more than the budget in total; and at most one byte beyond the budget is ever taken from the
  client, on the failing call.
\<close>

theorem request_reader_bounded:
  assumes "bounded_reads ops r = (r', q)" "0 \<le> remaining r"
  shows "(\<exists>taken. stream r = taken @ stream r' \<and> int (length taken) \<le> remaining r + 1)
     \<and> (\<forall>body. q = Inr body \<longrightarrow> stream r = body @ stream r' \<and> int (length body) \<le> remaining r)"
  using bounded_reads_stream [OF assms] by auto

theorem request_reader_bounded_witness:
  "snd (bounded_reads [(Readline, 5), (Read, - 1)] \<lparr>stream = ''ab'' @ [CHR 0x0A] @ ''cd'', remaining = 5\<rparr>)
     = Inr (''ab'' @ [CHR 0x0A] @ ''cd'')
   \<and> int (length (''ab'' @ [CHR 0x0A] @ ''cd'')) \<le> 5"
proof -
  have "snd (bounded_reads [(Readline, 5), (Read, - 1)] \<lparr>stream = ''ab'' @ [CHR 0x0A] @ ''cd'', remaining = 5\<rparr>)
     = Inr (''ab'' @ [CHR 0x0A] @ ''cd'')"
    by (simp add: bounded_read_def take_line_def)
  then show ?thesis
    using request_reader_bounded [where ops = "[(Readline, 5), (Read, - 1)]"
      and r = "\<lparr>stream = ''ab'' @ [CHR 0x0A] @ ''cd'', remaining = 5\<rparr>", OF surjective_pairing] by simp
qed


definition sample_request :: http_request where
  "sample_request = \<lparr>req_path = ''/v1/pulse'', content_lengths = [], transfer_encoding = None,
     body_reader = \<lparr>stream = [], remaining = 9216\<rparr>\<rparr>"


text \<open>
  A tick numbers its reverse-health summary before it sends it. When a tick ends normally, the
  sequence number of the summary is one more than the last one on disk at the start, and the disk it
  leaves reads back with that number, so no two ticks ever use the same one. The replay guards
  (last sequence and last expiry) are untouched.
\<close>

theorem tick_numbers_reverse:
  assumes "load_state (Some (config_generation config)) d = Inr s" "load_intent d = Inr i" "counter now"
    and "counter (now + reminder_interval_seconds config)"
    and "outcome (tick hmac isoformat config telegram_token pulse_token p net now) d = Inr t"
  shows "last_reverse_sequence t = last_reverse_sequence s + 1 \<and> last_sequence t = last_sequence s
     \<and> last_expiry t = last_expiry s
     \<and> load_state (Some (config_generation config)) (after (tick hmac isoformat config telegram_token pulse_token p net now) d) = Inr t"
proof -
  let ?g = "config_generation config"
  have h: "holds ?g s i d" using assms(1,2) by (simp add: holds_def)
  from assms(5) obtain u r where
    r: "outcome (reserve_delivery config now) d = Inr (u, r)" and
    rest: "outcome (tick_tail hmac isoformat config telegram_token pulse_token p net now r) (after (reserve_delivery config now) d) = Inr t"
      "after (tick hmac isoformat config telegram_token pulse_token p net now) d =
       after (tick_tail hmac isoformat config telegram_token pulse_token p net now r) (after (reserve_delivery config now) d)"
    unfolding tick_split by (elim seq_InrE) (auto split: prod.splits)
  obtain j where plan: "plan config now s i = Inr (u, j, r)"
    using reserve_delivery_plan [OF h assms(3,4) refl] r
    by (cases "plan config now s i") (auto simp: yields_def)
  with reserve_delivery_plan(1) [OF h assms(3,4) refl plan]
  have h1: "load_state (Some ?g) (after (reserve_delivery config now) d) = Inr u"
    "load_intent (after (reserve_delivery config now) d) = Inr j"
    by (auto simp: yields_def holds_def)
  from tick_tail_result [OF h1 assms(3) rest(1)] plan_keeps_reverse [OF plan] rest(2) show ?thesis by simp
qed

definition sample_probes :: probes where
  "sample_probes = \<lparr>loadavg = Some [0, 0, 0], free_pages = Some (1, 4096), statvfs = Some (1, 1), wall_clock = 1000,
     interfaces = Some [(''eth0'', Some ''up'')], systemctl = Some 0\<rparr>"

definition sample_network :: network where
  "sample_network = \<lparr>telegram_replies = (\<lambda>_. TransportFailure), reverse_replies = (\<lambda>_. TransportFailure), context_loads = True\<rparr>"

definition sample_waiting :: dstate where
  "sample_waiting = empty_state (config_generation sample_config)
     \<lparr>last_pulse := 990, pending_event := ECanary, pending_at := 995, pending_nonce := 1\<rparr>"

lemma sample_waiting_holds:
  "load_state g (with_state sample_waiting sample_disk) = Inr sample_waiting"
  "load_intent (with_state sample_waiting sample_disk) = Inr None"
proof -
  have "state_ok sample_waiting"
    by (simp add: sample_waiting_def state_ok_def empty_state_def counter_def
        MAX_INT_def sample_config_def GENERATION_def is_hex_def is_digit_def list_all_iff)
  then show "load_state g (with_state sample_waiting sample_disk) = Inr sample_waiting" by simp
  show "load_intent (with_state sample_waiting sample_disk) = Inr None"
    using sample_holds(2) by simp
qed

lemma sample_tick:
  "outcome (tick sample_hmac (\<lambda>_. []) sample_config [] [] sample_probes sample_network 1000) (with_state sample_waiting sample_disk)
     = Inr (sample_waiting\<lparr>last_reverse_sequence := 1\<rparr>)"
proof -
  let ?d = "with_state sample_waiting sample_disk" and ?t = "sample_waiting\<lparr>last_reverse_sequence := 1\<rparr>"
  have r: "reserve_delivery sample_config 1000 ?d = ([], Inr (sample_waiting, None))"
    unfolding reserve_delivery_eq seq_look sample_waiting_holds
    by (simp add: seq_look sample_waiting_holds end_incident_def start_incident_def late_stages_def acknowledge_def
        expire_pending_def overdue_def empty_state_def sample_config_def sample_waiting_def run_prims)
  have q: "reserve_reverse_sequence ?d = ([with_state ?t ?d], Inr ?t)"
    using reserve_reverse_run [OF sample_waiting_holds(1)] by (simp add: sample_waiting_def empty_state_def MAX_INT_def)
  have "length (dumps (PDict (reverse_payload sample_hmac (\<lambda>_. []) sample_config [] ?t sample_probes 1000))) \<le> 4096"
    by (simp add: reverse_payload_def host_health_def ok_if_def sample_hmac_def sample_probes_def sample_waiting_def
        sample_config_def empty_state_def Let_def
        length_join show_int_def show_nat.simps quote_unescaped unescaped_def list_all_iff)
  then have "\<exists>x. snd (reverse_health sample_hmac (\<lambda>_. []) sample_config [] ?t sample_probes True (\<lambda>_. TransportFailure) 1000) = Inr x"
    by (auto simp: reverse_health_def post_reverse_def sample_config_def numeral_2_eq_2)
  then show ?thesis
    by (auto simp: tick_split tick_tail_def seq_def r q run_prims sample_network_def)
qed

theorem tick_numbers_reverse_witness:
  "last_reverse_sequence (sample_waiting\<lparr>last_reverse_sequence := 1\<rparr>) = last_reverse_sequence sample_waiting + 1
   \<and> load_state (Some (config_generation sample_config)) (after (tick sample_hmac (\<lambda>_. []) sample_config [] []
        sample_probes sample_network 1000) (with_state sample_waiting sample_disk)) = Inr (sample_waiting\<lparr>last_reverse_sequence := 1\<rparr>)"
  using tick_numbers_reverse [OF sample_waiting_holds _ _ sample_tick]
  by (simp add: sample_simps counter_def MAX_INT_def)

text \<open>
  Admission control. However connections arrive, threads fail to start and requests end, at
  most four request threads live at any time, every admitted request holds exactly one permit, and
  the bounded semaphore is never released above its limit.
\<close>

theorem listener_bounded:
  assumes "serves\<^sup>*\<^sup>* listener_start l"
  shows "threads l \<le> admission_limit \<and> permits l + threads l = admission_limit \<and> \<not> overrun l"
  using serves_invariant [OF assms] by simp

theorem listener_bounded_witness:
  "threads (end_thread (process_request True listener_start)) \<le> admission_limit"
proof -
  have "serves\<^sup>*\<^sup>* listener_start (end_thread (process_request True listener_start))"
  proof (rule rtranclp.rtrancl_into_rtrancl)
    show "serves\<^sup>*\<^sup>* listener_start (process_request True listener_start)" by (blast intro: serves.connection)
    show "serves (process_request True listener_start) (end_thread (process_request True listener_start))"
      by (rule serves.finished) (simp add: process_request_def acquire_def listener_start_def admission_limit_def)
  qed
  from listener_bounded [OF this] show ?thesis by simp
qed

end
