(* ===== verification/FleetRotation.thy ===== *)
theory FleetRotation
  imports Json
begin

text \<open>
  The durable fleet rotation (\<^verbatim>\<open>scripts/fleet_rotation.py\<close>) and the liveness evidence it rests on
  (\<^verbatim>\<open>scripts/fleet_rotation_liveness.py\<close>).

  The world is the journal, its pending marker and, as a ghost, the list of rotations whose script
  was started. One invocation of \<open>run_plan\<close> is a durable program over it, so a crash leaves any prefix
  of what it published. What the invocation meets outside (the documents that \<open>yaml\<close> reads, the
  survivor sets, the operator's answers, the migration plans and the exit codes of the script) is a
  record of functions. \<open>hash\<close> is the hexadecimal digest of a text.
\<close>

section \<open>Errors, patterns and paths\<close>

datatype rerr = RotationError string | ROSError | RFileNotFound | RRaised pyexc

definition LIMIT :: nat where
  "LIMIT = 65536"

definition NAME :: "string \<Rightarrow> bool" where
  "NAME s = head_tail is_alnum_lower (\<lambda>c. is_alnum_lower c \<or> c = CHR ''-'') 0 63 s"

definition ALIAS :: "string \<Rightarrow> bool" where
  "ALIAS s = head_tail is_alnum (\<lambda>c. is_alnum c \<or> c = CHR ''_'' \<or> c = CHR ''.'' \<or> c = CHR ''-'') 0 63 s"

definition PAIR :: "string \<Rightarrow> bool" where
  "PAIR s = (case partition_on (CHR '':'') s of (provider, found, name) \<Rightarrow>
     found \<and> provider \<in> {''upcloud'', ''hetzner'', ''vultr'', ''scaleway''} \<and> NAME name)"

definition matches :: "(string \<Rightarrow> bool) \<Rightarrow> pv \<Rightarrow> bool" where
  "matches pattern value \<longleftrightarrow> is_str value \<and> pattern (str_of value)"

definition bad_keys :: "pv \<Rightarrow> string list \<Rightarrow> string list \<Rightarrow> bool" where
  "bad_keys value required optional \<longleftrightarrow> \<not> is_dict value
     \<or> \<not> list_all (has_key (dict_of value)) required
     \<or> list_ex (\<lambda>kv. fst kv \<notin> set required \<and> fst kv \<notin> set optional) (dict_of value)"

text \<open>\<open>os.path.abspath(os.path.join(parent, p))\<close> for an absolute \<open>parent\<close>.\<close>

fun normal_comps :: "string list \<Rightarrow> string list \<Rightarrow> string list" where
  "normal_comps acc [] = rev acc"
| "normal_comps acc (c # cs) =
     (if c = [] \<or> c = ''.'' then normal_comps acc cs
      else if c = ''..'' then normal_comps (tl acc) cs
      else normal_comps (c # acc) cs)"

definition abspath_join :: "string \<Rightarrow> string \<Rightarrow> string" where
  "abspath_join parent p =
     (let joined = (if starts_with ''/'' p then p else if ends_with ''/'' parent then parent @ p else parent @ ''/'' @ p);
          slashes = (if starts_with ''//'' joined \<and> \<not> starts_with ''///'' joined then ''//'' else ''/'')
      in slashes @ join ''/'' (normal_comps [] (split_on (CHR ''/'') joined)))"

definition bad_path :: "pv \<Rightarrow> bool" where
  "bad_path v \<longleftrightarrow> \<not> is_str v \<or> str_of v = [] \<or> 4096 < ulen (str_of v) \<or> list_ex (\<lambda>c. ord_of c < 32) (str_of v)"

section \<open>The plan\<close>

definition invalid_plan :: rerr where
  "invalid_plan = RotationError ''invalid-plan''"

fun check_nodes :: "pv list \<Rightarrow> string list \<Rightarrow> string list \<Rightarrow> rerr + string list" where
  "check_nodes [] pairs aliases = Inr pairs"
| "check_nodes (node # rest) pairs aliases =
     (let current = item (dict_of node) ''current''; name = item (dict_of node) ''inventory_alias'' in
      if bad_keys node [''current'', ''inventory_alias''] [] then Inl invalid_plan
      else if \<not> matches PAIR current \<or> ends_with '':default'' (str_of current) \<or> \<not> matches ALIAS name
        \<or> str_of current \<in> set pairs \<or> str_of name \<in> set aliases then Inl invalid_plan
      else check_nodes rest (str_of current # pairs) (str_of name # aliases))"

definition provider_of :: "string \<Rightarrow> string" where
  "provider_of pair = fst (partition_on (CHR '':'') pair)"

definition environment_of :: "string \<Rightarrow> string" where
  "environment_of pair = snd (snd (partition_on (CHR '':'') pair))"

definition rotation_keys :: "string list" where
  "rotation_keys = [''current'', ''new_env'', ''green_sops_file'', ''migration_plan'', ''migration_approval'']"

fun check_rotations ::
  "string \<Rightarrow> string list \<Rightarrow> pv list \<Rightarrow> string list \<Rightarrow> string list \<Rightarrow> rerr + pv list" where
  "check_rotations parent pairs [] sources destinations = Inr []"
| "check_rotations parent pairs (v # rest) sources destinations =
     (let entry = dict_of v; current = item entry ''current''; new_env = item entry ''new_env'' in
      if bad_keys v rotation_keys [''new_zone''] then Inl invalid_plan
      else if \<not> is_str current \<or> str_of current \<notin> set pairs \<or> str_of current \<in> set sources
        \<or> \<not> matches NAME new_env \<or> str_of new_env = ''default''
        \<or> (has_key entry ''new_zone'' \<and> \<not> matches ALIAS (item entry ''new_zone'')) then Inl invalid_plan
      else if bad_path (item entry ''green_sops_file'') \<or> bad_path (item entry ''migration_plan'') then Inl invalid_plan
      else if \<not> matches hex64 (item entry ''migration_approval'') then Inl invalid_plan
      else
        let destination = provider_of (str_of current) @ '':'' @ str_of new_env;
            absolute = (\<lambda>field d. AList.update field (PStr (abspath_join parent (str_of (item entry field)))) d)
        in if destination \<in> set pairs \<or> destination \<in> set destinations then Inl invalid_plan
           else bind_res (check_rotations parent pairs rest (str_of current # sources) (destination # destinations))
             (\<lambda>vs. Inr (PDict (absolute ''migration_plan'' (absolute ''green_sops_file'' entry)) # vs)))"

definition plan_of :: "string \<Rightarrow> pv \<Rightarrow> rerr + dict" where
  "plan_of parent v =
     (let plan = dict_of v; h = item plan ''health''; health = dict_of h;
          nodes = item health ''nodes''; rotations = item plan ''rotations'' in
      if bad_keys v [''schema_version'', ''id'', ''min_active'', ''health'', ''rotations''] [] then Inl invalid_plan
      else if item plan ''schema_version'' \<noteq> PInt 1 \<or> \<not> matches NAME (item plan ''id'')
        \<or> \<not> type_is_int (item plan ''min_active'')
        \<or> \<not> (1 \<le> int_of (item plan ''min_active'') \<and> int_of (item plan ''min_active'') \<le> 100) then Inl invalid_plan
      else if bad_keys h [''config'', ''nodes''] [] then Inl invalid_plan
      else if bad_path (item health ''config'') then Inl invalid_plan
      else if \<not> is_list nodes \<or> \<not> (1 \<le> length (list_of nodes) \<and> length (list_of nodes) \<le> 100)
        \<or> \<not> is_list rotations \<or> \<not> (1 \<le> length (list_of rotations) \<and> length (list_of rotations) \<le> 100)
        then Inl invalid_plan
      else bind_res (check_nodes (list_of nodes) [] []) (\<lambda>pairs.
           bind_res (check_rotations parent pairs (list_of rotations) [] []) (\<lambda>entries.
           Inr (AList.update ''rotations'' (PList entries)
                 (AList.update ''health'' (PDict (AList.update ''config''
                    (PStr (abspath_join parent (str_of (item health ''config'')))) health)) plan)))))"

text \<open>
  \<open>load_plan\<close>: what reading the file and \<open>yaml.load\<close> gave, then the checks. A \<open>RotationError\<close> of the
  reader passes through, every other exception becomes \<open>invalid-plan\<close>.
\<close>

definition load_plan :: "string \<Rightarrow> rerr + pv \<Rightarrow> rerr + dict" where
  "load_plan parent document = (case document of
     Inl (RotationError m) \<Rightarrow> Inl (RotationError m)
   | Inl _ \<Rightarrow> Inl invalid_plan
   | Inr v \<Rightarrow> plan_of parent v)"

definition plan_digest :: "(string \<Rightarrow> string) \<Rightarrow> dict \<Rightarrow> string" where
  "plan_digest hash plan = hash (dumps_sorted (PDict plan))"

definition rotations_of :: "dict \<Rightarrow> pv list" where
  "rotations_of plan = list_of (item plan ''rotations'')"

definition nodes_of :: "dict \<Rightarrow> pv list" where
  "nodes_of plan = list_of (item (dict_of (item plan ''health'')) ''nodes'')"

definition min_active_of :: "dict \<Rightarrow> int" where
  "min_active_of plan = int_of (item plan ''min_active'')"

section \<open>The journal\<close>

record rworld =
  journal :: "inode option"
  pending :: "inode option"
  started :: "nat list"
  ruid :: int

definition read_regular :: "bool \<Rightarrow> int \<Rightarrow> inode option \<Rightarrow> rerr + string" where
  "read_regular private uid f = (case f of
     None \<Rightarrow> Inl RFileNotFound
   | Some i \<Rightarrow>
       if fkind i = Symlink then Inl ROSError
       else if fkind i \<noteq> Regular \<or> LIMIT < length (fbytes i)
         \<or> (private \<and> (fuid i \<noteq> uid \<or> fnlink i \<noteq> 1 \<or> fmode i \<noteq> 384)) then Inl (RotationError ''unsafe-file'')
       else Inr (fbytes i))"

definition enter_journal :: "rworld \<Rightarrow> rerr + unit" where
  "enter_journal w = refuse_if (pending w \<noteq> None) (RotationError ''journal-publication-uncertain'')"

definition journal_read :: "rworld \<Rightarrow> rerr + pv option" where
  "journal_read w = (case read_regular True (ruid w) (journal w) of
     Inl RFileNotFound \<Rightarrow> Inr None
   | Inl (RotationError m) \<Rightarrow> Inl (RotationError m)
   | Inl _ \<Rightarrow> Inl (RotationError ''invalid-journal'')
   | Inr bytes \<Rightarrow> (case decode_json unique_hook bytes of
       Inl _ \<Rightarrow> Inl (RotationError ''invalid-journal'')
     | Inr v \<Rightarrow> Inr (Some v)))"

definition journal_text :: "dict \<Rightarrow> string" where
  "journal_text state = dumps_sorted (PDict state) @ [CHR 0x0A]"

definition journal_write :: "dict \<Rightarrow> (rworld, rerr, unit) dio" where
  "journal_write state =
     seq (look (\<lambda>w. if journal w = None then Inr (''null'' @ [CHR 0x0A]) else read_regular True (ruid w) (journal w))) (\<lambda>previous.
     seq (look (\<lambda>w. refuse_if (pending w \<noteq> None) ROSError)) (\<lambda>_.
     seq (publish (\<lambda>w. w\<lparr>pending := Some (atomic_write (ruid w) previous)\<rparr>)) (\<lambda>_.
     seq (publish (\<lambda>w. w\<lparr>journal := Some (atomic_write (ruid w) (journal_text state))\<rparr>)) (\<lambda>_.
     publish (\<lambda>w. w\<lparr>pending := None\<rparr>)))))"

section \<open>The run\<close>

definition initial_state :: "(string \<Rightarrow> string) \<Rightarrow> dict \<Rightarrow> dict" where
  "initial_state hash plan =
     [(''schema_version'', PInt 1), (''id'', item plan ''id''), (''plan_sha256'', PStr (plan_digest hash plan)),
      (''next_idx'', PInt 0), (''completed'', PList []), (''in_flight'', PNone)]"

definition validate_state :: "(string \<Rightarrow> string) \<Rightarrow> pv \<Rightarrow> dict \<Rightarrow> rerr + dict" where
  "validate_state hash v plan =
     (let state = dict_of v; expected = initial_state hash plan; bad = RotationError ''invalid-journal'';
          next_idx = item state ''next_idx''; flight = item state ''in_flight''; total = int (length (rotations_of plan)) in
      if \<not> is_dict v \<or> \<not> keys_are state (map fst expected) then Inl bad
      else if item state ''schema_version'' \<noteq> PInt 1 then Inl bad
      else if \<not> py_eq (item expected ''id'') (item state ''id'')
        \<or> \<not> py_eq (item expected ''plan_sha256'') (item state ''plan_sha256'') then Inl (RotationError ''plan-mismatch'')
      else if \<not> type_is_int next_idx \<or> \<not> (0 \<le> int_of next_idx \<and> int_of next_idx \<le> total)
        \<or> \<not> py_eq (item state ''completed'') (PList (take (nat (int_of next_idx)) (rotations_of plan)))
        \<or> (flight \<noteq> PNone \<and> (\<not> type_is_int flight \<or> int_of flight \<noteq> int_of next_idx \<or> total \<le> int_of next_idx))
        then Inl bad
      else if flight \<noteq> PNone then Inl (RotationError ''in-flight-outcome-requires-operator-reconciliation'')
      else Inr state)"

record fenv =
  parent_dir :: string
  document :: "rerr + pv"
  reloads :: "nat \<Rightarrow> nat \<Rightarrow> rerr + pv"
  survivors :: "nat \<Rightarrow> nat \<Rightarrow> rerr + string list"
  confirms :: "nat \<Rightarrow> bool"
  migrations :: "nat \<Rightarrow> pv option"
  exits :: "nat \<Rightarrow> int"

text \<open>The checks of \<open>execute_rotation\<close> against the migration plan; a missing key raises inside the same \<open>try\<close>.\<close>

definition migration_matches :: "dict \<Rightarrow> pv option \<Rightarrow> bool" where
  "migration_matches entry migration = (case migration of
     None \<Rightarrow> False
   | Some m \<Rightarrow>
       let source = item (dict_of m) ''source''; target = item (dict_of m) ''target'';
           current = str_of (item entry ''current'') in
       is_dict m \<and> is_dict source \<and> is_dict target
       \<and> item (dict_of source) ''host'' = PStr current
       \<and> item (dict_of target) ''host'' = PStr (provider_of current @ '':'' @ str_of (item entry ''new_env''))
       \<and> item (dict_of target) ''secrets_file'' = item entry ''green_sops_file'')"

definition execute_rotation :: "fenv \<Rightarrow> dict \<Rightarrow> nat \<Rightarrow> (rworld, rerr, unit) dio" where
  "execute_rotation env entry index =
     (if \<not> migration_matches entry (migrations env index)
      then fail (RotationError ''migration-plan-does-not-match-rotation'')
      else seq (publish (\<lambda>w. w\<lparr>started := started w @ [index]\<rparr>)) (\<lambda>_.
        if exits env index \<noteq> 0 then fail (RotationError ''rotation-failed-in-flight-retained'') else ret ()))"

definition require_health ::
  "(string \<Rightarrow> string) \<Rightarrow> fenv \<Rightarrow> dict \<Rightarrow> pv list \<Rightarrow> string \<Rightarrow> nat \<Rightarrow> nat \<Rightarrow> rerr + unit" where
  "require_health hash env plan nodes current_alias index visit =
     (let same = (\<lambda>k. bind_res (load_plan (parent_dir env) (reloads env index k)) (\<lambda>again.
            refuse_if (plan_digest hash again \<noteq> plan_digest hash plan) (RotationError ''plan-mismatch'')));
          admitted = filter (\<lambda>a. a \<noteq> current_alias) (map (\<lambda>n. str_of (item (dict_of n) ''inventory_alias'')) nodes)
      in bind_res (same (2 * visit)) (\<lambda>_.
         bind_res (survivors env index visit) (\<lambda>healthy.
         bind_res (refuse_if (\<not> list_all (\<lambda>a. a \<in> set admitted) healthy
             \<or> int (length (remdups healthy)) < min_active_of plan) (RotationError ''authenticated-survivor-floor-not-met'')) (\<lambda>_.
         same (2 * visit + 1)))))"

text \<open>The nodes that take part in rotation \<open>index\<close>, and the alias of the node that it rotates away.\<close>

definition current_of :: "pv \<Rightarrow> string" where
  "current_of v = str_of (item (dict_of v) ''current'')"

definition active_nodes :: "dict \<Rightarrow> nat \<Rightarrow> pv list" where
  "active_nodes plan index =
     filter (\<lambda>n. current_of n \<notin> set (map current_of (take index (rotations_of plan)))) (nodes_of plan)"

definition alias_at :: "dict \<Rightarrow> nat \<Rightarrow> string option" where
  "alias_at plan index = map_option (\<lambda>n. str_of (item (dict_of n) ''inventory_alias''))
     (find (\<lambda>n. current_of n = current_of (rotations_of plan ! index)) (active_nodes plan index))"

fun rotate ::
  "(string \<Rightarrow> string) \<Rightarrow> fenv \<Rightarrow> dict \<Rightarrow> dict \<Rightarrow> nat list \<Rightarrow> (rworld, rerr, nat) dio" where
  "rotate hash env plan state [] = ret 0"
| "rotate hash env plan state (index # rest) = (case alias_at plan index of
     None \<Rightarrow> fail (RRaised StopIteration)
   | Some current_alias \<Rightarrow>
       let entry = dict_of (rotations_of plan ! index);
           health = (\<lambda>visit. look (\<lambda>_. require_health hash env plan (active_nodes plan index) current_alias index visit));
           flying = AList.update ''in_flight'' (PInt (int index)) state;
           landed = AList.update ''in_flight'' PNone (AList.update ''completed'' (PList (take (Suc index) (rotations_of plan)))
                      (AList.update ''next_idx'' (PInt (int index + 1)) flying))
       in seq (health 0) (\<lambda>_.
          if \<not> confirms env index then ret 1
          else seq (health 1) (\<lambda>_.
               seq (journal_write flying) (\<lambda>_.
               seq (execute_rotation env entry index) (\<lambda>_.
               seq (journal_write landed) (\<lambda>_.
               rotate hash env plan landed rest))))))"

definition run_plan :: "(string \<Rightarrow> string) \<Rightarrow> fenv \<Rightarrow> bool \<Rightarrow> bool \<Rightarrow> (rworld, rerr, nat) dio" where
  "run_plan hash env resume dry_run =
     seq (look (\<lambda>_. load_plan (parent_dir env) (document env))) (\<lambda>plan.
     if dry_run then ret 0
     else
       seq (look enter_journal) (\<lambda>_.
       seq (look journal_read) (\<lambda>found.
       seq (case found of
           None \<Rightarrow> if resume then fail (RotationError ''resume-journal-missing'')
             else seq (journal_write (initial_state hash plan)) (\<lambda>_. ret (PDict (initial_state hash plan)))
         | Some v \<Rightarrow> if resume then ret v else fail (RotationError ''journal-already-exists-use-resume'')) (\<lambda>v.
       seq (look (\<lambda>_. validate_state hash v plan)) (\<lambda>state.
       rotate hash env plan state [nat (int_of (item state ''next_idx'')) ..< length (rotations_of plan)])))))"

section \<open>Authenticated survivors\<close>

text \<open>
  The part of \<open>healthy_survivors\<close> that decides: binding sentinels to the active aliases, and
  accepting an alias when all of its sentinels have a complete positive report. The validated
  liveness configuration, the selected hosts and the validated reports are inputs.
\<close>

record sentinel =
  sentinel_id :: string
  target :: pv
  target_alias :: string
  target_address_sha256 :: string

fun bind_sentinels ::
  "(string \<times> string) list \<Rightarrow> string list \<Rightarrow> sentinel list \<Rightarrow> (string \<times> pv) list \<Rightarrow> rerr + sentinel list" where
  "bind_sentinels addresses aliases [] targets = Inr []"
| "bind_sentinels addresses aliases (s # rest) targets =
     (let a = target_alias s in
      if a \<notin> set aliases then bind_sentinels addresses aliases rest targets
      else if map_of addresses a \<noteq> Some (target_address_sha256 s) then
        Inl (RotationError ''liveness-public-target-mismatch'')
      else if (case map_of targets a of None \<Rightarrow> False | Some t \<Rightarrow> \<not> py_eq t (target s)) then
        Inl (RotationError ''liveness-generation-mismatch'')
      else bind_res (bind_sentinels addresses aliases rest (AList.update a (target s) targets)) (\<lambda>more.
        Inr (s # more)))"

definition verdict_ok :: "pv \<Rightarrow> bool" where
  "verdict_ok v \<longleftrightarrow> item (dict_of v) ''verdict'' = PStr ''ok''"

definition profile_ok :: "pv \<Rightarrow> bool" where
  "profile_ok p \<longleftrightarrow> verdict_ok p
     \<and> list_all verdict_ok (list_of (item (dict_of p) ''variants''))
     \<and> (item (dict_of p) ''profile'' = PStr ''p2-amneziawg'' \<longrightarrow>
          list_all (\<lambda>kv. verdict_ok (snd kv)) (dict_of (item (dict_of p) ''family_results'')))"

definition report_ok :: "pv \<Rightarrow> bool" where
  "report_ok r \<longleftrightarrow> verdict_ok (item (dict_of r) ''control'') \<and> list_all profile_ok (list_of (item (dict_of r) ''profiles''))"

definition healthy_survivors ::
  "(string \<Rightarrow> string) \<Rightarrow> (string \<times> string) list \<Rightarrow> sentinel list \<Rightarrow> int \<Rightarrow> pv list \<Rightarrow> string list \<Rightarrow>
   (string \<Rightarrow> pv option) \<Rightarrow> rerr + string list" where
  "healthy_survivors hash hosts sentinels stale nodes excluded reports =
     (let named = map (\<lambda>n. str_of (item (dict_of n) ''inventory_alias'')) nodes in
      if nodes = [] then Inr []
      else if 100 < length sentinels \<or> 300 < stale then Inl (RotationError ''liveness-scope-or-freshness-refused'')
      else if map fst hosts \<noteq> named then Inl (RotationError ''liveness-inventory-binding-mismatch'')
      else if \<not> distinct (map snd hosts) then Inl (RotationError ''liveness-distinct-targets-required'')
      else
        let aliases = filter (\<lambda>a. a \<notin> set excluded) named;
            addresses = map (\<lambda>(n, a). (n, hash a)) hosts in
        bind_res (bind_sentinels addresses aliases sentinels []) (\<lambda>selected.
        let positive = (\<lambda>s. case reports (sentinel_id s) of None \<Rightarrow> False | Some r \<Rightarrow> report_ok r) in
        Inr (filter (\<lambda>a. let mine = filter (\<lambda>s. target_alias s = a) selected in mine \<noteq> [] \<and> list_all positive mine) aliases)))"

section \<open>Crashes and resumptions\<close>

text \<open>
  \<open>describes d k\<close>: a journal \<open>d\<close> that fits a history in which the first \<open>k\<close> rotations were started.
  While a rotation is marked in flight, its script may have been started or not.
\<close>

definition describes :: "dict \<Rightarrow> nat \<Rightarrow> bool" where
  "describes d k \<longleftrightarrow> plain (PDict d) \<and> (\<exists>n. item d ''next_idx'' = PInt (int n)
     \<and> (item d ''in_flight'' = PNone \<and> k = n \<or> item d ''in_flight'' \<noteq> PNone \<and> (k = n \<or> k = Suc n)))"

definition journal_fits :: "rworld \<Rightarrow> nat \<Rightarrow> bool" where
  "journal_fits w k \<longleftrightarrow> (journal w = None \<longrightarrow> k = 0)
     \<and> (\<forall>v. journal_read w = Inr (Some v) \<longrightarrow> is_dict v \<and> describes (dict_of v) k)"

definition fleet_inv :: "nat set \<Rightarrow> rworld \<Rightarrow> bool" where
  "fleet_inv A w \<longleftrightarrow> (\<exists>k. started w = [0..<k] \<and> set [0..<k] \<subseteq> A \<and> (pending w = None \<longrightarrow> journal_fits w k))"

definition recorded :: "dict \<Rightarrow> nat \<Rightarrow> rworld \<Rightarrow> bool" where
  "recorded d k w \<longleftrightarrow> started w = [0..<k] \<and> pending w = None
     \<and> journal w = Some (atomic_write (ruid w) (journal_text d))"

lemma journal_read_text:
  assumes "journal w = Some (atomic_write (ruid w) (journal_text d))" "plain (PDict d)"
  shows "journal_read w = (if LIMIT < length (journal_text d) then Inl (RotationError ''unsafe-file'')
     else Inr (Some (sort_keys (PDict d))))"
  using assms decode_json_line [OF keeps_distinct_unique assms(2)]
  by (simp add: journal_read_def read_regular_def journal_text_def del: sort_keys.simps)

lemma describes_sorted: "describes d k \<Longrightarrow> describes (dict_of (sort_keys (PDict d))) k"
proof -
  assume a: "describes d k"
  then have p: "plain (PDict d)" by (simp add: describes_def)
  then have "distinct (map fst d)" by simp
  note i = item_sorted [OF this]
  obtain e where e: "sort_keys (PDict d) = PDict e" by simp
  with plain_sort_keys [OF p] have "plain (PDict (dict_of (sort_keys (PDict d))))" by simp
  with a show ?thesis unfolding describes_def i by auto
qed

lemma recorded_fits: "recorded d k w \<Longrightarrow> describes d k \<Longrightarrow> journal_fits w k"
proof -
  assume r: "recorded d k w" and d: "describes d k"
  obtain e where e: "sort_keys (PDict d) = PDict e" by simp
  have j: "journal w = Some (atomic_write (ruid w) (journal_text d))" "plain (PDict d)"
    using r d by (simp_all add: recorded_def describes_def)
  from journal_read_text [OF this] describes_sorted [OF d] j(1) show ?thesis
    unfolding e journal_fits_def by simp
qed

lemma recorded_inv: "recorded d k w \<Longrightarrow> describes d k \<Longrightarrow> set [0..<k] \<subseteq> A \<Longrightarrow> fleet_inv A w"
  using recorded_fits [of d k w] by (auto simp: fleet_inv_def recorded_def)

lemma journal_write_safe:
  assumes "describes d k" "set [0..<k] \<subseteq> A"
  shows "safe (\<lambda>w. started w = [0..<k] \<and> pending w = None) (journal_write d) (\<lambda>_. recorded d k) (fleet_inv A)"
proof -
  have inv: "fleet_inv A w" if "started w = [0..<k]" "pending w \<noteq> None" for w
    using that assms(2) by (auto simp: fleet_inv_def)
  have fin: "fleet_inv A w" if "recorded d k w" for w
    using recorded_inv [OF that assms] .
  let ?open = "\<lambda>w. started w = [0..<k] \<and> pending w \<noteq> None"
  have closing: "safe (\<lambda>w. ?open w \<and> journal w = Some (atomic_write (ruid w) (journal_text d)))
      (publish (\<lambda>w. w\<lparr>pending := None\<rparr>)) (\<lambda>_. recorded d k) (fleet_inv A)"
    by (rule safe_publish) (auto intro!: fin simp: recorded_def)
  have replacing: "safe ?open (seq (publish (\<lambda>w. w\<lparr>journal := Some (atomic_write (ruid w) (journal_text d))\<rparr>)) (\<lambda>_.
      publish (\<lambda>w. w\<lparr>pending := None\<rparr>))) (\<lambda>_. recorded d k) (fleet_inv A)"
    by (rule safe_seq [OF safe_publish closing]) (auto intro!: inv)
  have marking: "safe (\<lambda>w. started w = [0..<k] \<and> pending w = None)
      (seq (publish (\<lambda>w. w\<lparr>pending := Some (atomic_write (ruid w) previous)\<rparr>)) (\<lambda>_.
       seq (publish (\<lambda>w. w\<lparr>journal := Some (atomic_write (ruid w) (journal_text d))\<rparr>)) (\<lambda>_.
      publish (\<lambda>w. w\<lparr>pending := None\<rparr>)))) (\<lambda>_. recorded d k) (fleet_inv A)" for previous
    by (rule safe_seq [OF safe_publish replacing]) (auto intro!: inv)
  show ?thesis
    unfolding journal_write_def
    by (rule safe_seq [OF safe_look safe_seq [OF safe_look marking]]) auto
qed

lemma flying_describes:
  assumes "describes d k" "item d ''next_idx'' = PInt (int k)" "plain (PInt (int k))"
  shows "describes (AList.update ''in_flight'' (PInt (int k)) d) k"
    "describes (AList.update ''in_flight'' (PInt (int k)) d) (Suc k)"
  using assms plain_update [of d "''in_flight''" "PInt (int k)"]
  by (auto simp: describes_def item_update is_ascii_def simp del: plain.simps)

lemma landed_describes:
  assumes "plain (PDict d)" "plain (PList es)" "plain (PInt (int k))"
  shows "describes (AList.update ''in_flight'' PNone (AList.update ''completed'' (PList es)
           (AList.update ''next_idx'' (PInt (int k)) d))) k"
proof -
  have "plain (PDict (AList.update ''in_flight'' PNone (AList.update ''completed'' (PList es)
           (AList.update ''next_idx'' (PInt (int k)) d))))"
    using assms by (intro plain_update) (simp_all add: is_ascii_def)
  then show ?thesis by (simp add: describes_def item_update del: plain.simps)
qed

text \<open>What the run required before it started rotation \<open>index\<close>.\<close>

definition cleared :: "(string \<Rightarrow> string) \<Rightarrow> fenv \<Rightarrow> dict \<Rightarrow> nat \<Rightarrow> bool" where
  "cleared hash env plan index \<longleftrightarrow> (\<exists>a. alias_at plan index = Some a \<and> confirms env index
     \<and> migration_matches (dict_of (rotations_of plan ! index)) (migrations env index)
     \<and> (\<forall>visit \<in> {0, 1}. require_health hash env plan (active_nodes plan index) a index visit = Inr ()))"

lemma safe_look_const:
  "(\<And>a. m = Inr a \<Longrightarrow> safe P (f a) Q C) \<Longrightarrow> safe P (seq (look (\<lambda>_. m)) f) Q C"
  by (cases m) (auto simp: safe_def seq_look after_def)

lemma rotate_safe:
  assumes "plain (PList (rotations_of plan))" "\<And>i. i \<le> length (rotations_of plan) \<Longrightarrow> plain (PInt (int i))"
  shows "describes d k \<Longrightarrow> item d ''next_idx'' = PInt (int k) \<Longrightarrow> set [0..<k] \<subseteq> A \<Longrightarrow>
     (\<And>i. k \<le> i \<Longrightarrow> cleared hash env plan i \<Longrightarrow> i \<in> A) \<Longrightarrow> k + n = length (rotations_of plan) \<Longrightarrow>
     safe (\<lambda>w. started w = [0..<k] \<and> pending w = None) (rotate hash env plan d [k..<k + n])
       (\<lambda>_ w. True) (fleet_inv A)"
proof (induction n arbitrary: d k)
  case 0
  then show ?case by (auto intro: safe_ret)
next
  case (Suc n)
  note d = Suc.prems(1,2)
  define fly where "fly = AList.update ''in_flight'' (PInt (int k)) d"
  define land where "land = AList.update ''in_flight'' PNone (AList.update ''completed'' (PList (take (Suc k) (rotations_of plan)))
                      (AList.update ''next_idx'' (PInt (int k + 1)) fly))"
  have k: "plain (PInt (int k))" "plain (PInt (int (Suc k)))" using assms(2) Suc.prems(5) by auto
  have fly: "describes fly k" "describes fly (Suc k)"
    using flying_describes [OF d k(1)] by (simp_all add: fly_def)
  have "plain (PList (take (Suc k) (rotations_of plan)))"
    using assms(1) by (auto simp: list_all_iff dest: in_set_takeD)
  from landed_describes [OF _ this k(2), of fly] fly have land: "describes land (Suc k)"
    by (simp add: land_def describes_def del: plain.simps) (simp add: add.commute)
  have nxt: "item land ''next_idx'' = PInt (int (Suc k))" by (simp add: land_def item_update)
  show ?case
  proof (cases "alias_at plan k")
    case None
    then show ?thesis by (simp add: upt_rec [of k] safe_fail)
  next
    case (Some a)
    have rec: "safe (recorded land (Suc k)) (rotate hash env plan land [Suc k..<Suc k + n]) (\<lambda>_ w. True) (fleet_inv A)"
      if "k \<in> A"
    proof (rule safe_weaken [OF Suc.IH [OF land nxt]])
      show "set [0..<Suc k] \<subseteq> A" using Suc.prems(3) that by auto
    qed (use Suc.prems in \<open>auto simp: recorded_def\<close>)
    have run: "safe (recorded fly k) (seq (execute_rotation env (dict_of (rotations_of plan ! k)) k) (\<lambda>_.
        seq (journal_write land) (\<lambda>_. rotate hash env plan land [Suc k..<Suc k + n]))) (\<lambda>_ w. True) (fleet_inv A)"
      if c: "confirms env k" "\<forall>visit \<in> {0, 1}. require_health hash env plan (active_nodes plan k) a k visit = Inr ()"
    proof (cases "migration_matches (dict_of (rotations_of plan ! k)) (migrations env k)")
      case True
      then have A: "k \<in> A" using c Some Suc.prems(4) [of k] by (auto simp: cleared_def)
      then have sub: "set [0..<Suc k] \<subseteq> A" using Suc.prems(3) by auto
      have exec: "safe (recorded fly k) (execute_rotation env (dict_of (rotations_of plan ! k)) k)
          (\<lambda>_ w. started w = [0..<Suc k] \<and> pending w = None) (fleet_inv A)"
        using True recorded_inv [OF _ fly(2) sub]
        by (auto simp: execute_rotation_def recorded_def
            intro!: safe_seq [OF safe_publish [where Q = "\<lambda>_ w. started w = [0..<Suc k] \<and> pending w = None"]] safe_fail safe_ret)
      show ?thesis
        by (rule safe_seq [OF exec], rule safe_seq [OF journal_write_safe [OF land sub]], rule rec [OF A])
    next
      case False
      then show ?thesis by (simp add: execute_rotation_def safe_fail)
    qed
    have upt: "[k..<k + Suc n] = k # [Suc k..<Suc k + n]" by (simp add: upt_rec [of k])
    show ?thesis
      unfolding upt rotate.simps Some option.case Let_def fly_def [symmetric] land_def [symmetric]
      by (intro safe_look_const safe_if safe_seq [OF journal_write_safe [OF fly(1) Suc.prems(3)]] run)
         (auto intro: safe_ret)
  qed
qed

lemma check_rotations_length: "check_rotations parent pairs vs ss ds = Inr es \<Longrightarrow> length es = length vs"
  by (induction parent pairs vs ss ds arbitrary: es rule: check_rotations.induct)
     (auto simp: Let_def bind_res_Inr split: if_split_asm)

lemma load_plan_rotations:
  assumes "load_plan parent doc = Inr plan"
  shows "\<exists>es. item plan ''rotations'' = PList es \<and> 1 \<le> length es \<and> length es \<le> 100"
proof -
  obtain v where "plan_of parent v = Inr plan"
    using assms by (auto simp: load_plan_def split: sum.splits rerr.splits)
  then show ?thesis
    unfolding plan_of_def Let_def res_iffs
    by (auto simp: item_update dest: check_rotations_length)
qed

lemma load_plan_id:
  assumes "load_plan parent doc = Inr plan"
  shows "matches NAME (item plan ''id'')"
proof -
  obtain v where "plan_of parent v = Inr plan"
    using assms by (auto simp: load_plan_def split: sum.splits rerr.splits)
  then show ?thesis unfolding plan_of_def Let_def res_iffs by (auto simp: item_update)
qed

lemma journal_read_None: "journal_read w = Inr None \<Longrightarrow> journal w = None"
  by (auto simp: journal_read_def read_regular_def split: option.splits if_splits sum.splits)

lemma validate_state_ok:
  assumes "validate_state hash v plan = Inr d"
  shows "d = dict_of v \<and> item d ''in_flight'' = PNone \<and> (\<exists>n. item d ''next_idx'' = PInt (int n) \<and> n \<le> length (rotations_of plan))"
  using assms unfolding validate_state_def Let_def res_iffs
  by (auto simp: pv_test_iff) (metis int_of_def nat_0_le nat_le_iff of_nat_le_iff pv.case(3) zero_le_imp_eq_int)

lemma initial_describes:
  assumes "plain (PDict plan)" "is_ascii (plan_digest hash plan)"
  shows "describes (initial_state hash plan) 0"
  using assms plain_item [OF assms(1)]
  by (auto simp: describes_def initial_state_def plain_small is_ascii_def show_nat_small)

lemma continue_safe:
  assumes plan: "load_plan parent doc = Inr plan" "plain (PDict plan)"
    and v: "describes (dict_of v) k" "set [0..<k] \<subseteq> A" "\<And>i. k \<le> i \<Longrightarrow> cleared hash env plan i \<Longrightarrow> i \<in> A"
  shows "safe (\<lambda>w. started w = [0..<k] \<and> pending w = None)
     (seq (look (\<lambda>_. validate_state hash v plan)) (\<lambda>state.
       rotate hash env plan state [nat (int_of (item state ''next_idx'')) ..< length (rotations_of plan)]))
     (\<lambda>_ _. True) (fleet_inv A)"
proof (rule safe_look_const)
  fix d assume "validate_state hash v plan = Inr d"
  from validate_state_ok [OF this] obtain n where d: "d = dict_of v" "item d ''in_flight'' = PNone"
    "item d ''next_idx'' = PInt (int n)" "n \<le> length (rotations_of plan)" by blast
  with v(1) have k: "n = k" "describes d k" by (auto simp: describes_def)
  obtain es where es: "item plan ''rotations'' = PList es" "length es \<le> 100"
    using load_plan_rotations [OF plan(1)] by blast
  have "plain (PList (rotations_of plan))" using plain_item [OF plan(2), of "''rotations''"] es by (simp add: rotations_of_def)
  moreover have "plain (PInt (int i))" if "i \<le> length (rotations_of plan)" for i
    using that es by (intro plain_small) (auto simp: rotations_of_def)
  ultimately have "safe (\<lambda>w. started w = [0..<k] \<and> pending w = None)
      (rotate hash env plan d [k..<k + (length (rotations_of plan) - k)]) (\<lambda>_ _. True) (fleet_inv A)"
    using d k v(2,3) by (intro rotate_safe) auto
  with d k show "safe (\<lambda>w. started w = [0..<k] \<and> pending w = None)
      (rotate hash env plan d [nat (int_of (item d ''next_idx''))..<length (rotations_of plan)]) (\<lambda>_ _. True) (fleet_inv A)"
    by simp
qed

lemma fleet_inv_cases:
  "(\<And>k. set [0..<k] \<subseteq> A \<Longrightarrow> safe (\<lambda>w. started w = [0..<k] \<and> (pending w = None \<longrightarrow> journal_fits w k)) m Q C)
     \<Longrightarrow> safe (fleet_inv A) m Q C"
proof -
  assume a: "\<And>k. set [0..<k] \<subseteq> A \<Longrightarrow> safe (\<lambda>w. started w = [0..<k] \<and> (pending w = None \<longrightarrow> journal_fits w k)) m Q C"
  show ?thesis
    unfolding safe_def
  proof (intro allI impI)
    fix w assume "fleet_inv A w"
    then obtain k where k: "set [0..<k] \<subseteq> A" "started w = [0..<k]" "pending w = None \<longrightarrow> journal_fits w k"
      by (auto simp: fleet_inv_def)
    from a [OF k(1)] k(2,3) show "(\<forall>t \<in> set (steps m w). C t) \<and> (\<forall>a. outcome m w = Inr a \<longrightarrow> Q a (after m w))"
      unfolding safe_def by (elim allE [of _ w]) simp
  qed
qed

lemma run_plan_safe:
  assumes "\<And>plan. load_plan (parent_dir env) (document env) = Inr plan \<Longrightarrow> plain (PDict plan)"
    and "\<And>t. is_ascii (hash t)" and "A \<subseteq> B"
    and "\<And>plan i. load_plan (parent_dir env) (document env) = Inr plan \<Longrightarrow> cleared hash env plan i \<Longrightarrow> i \<in> B"
  shows "safe (fleet_inv A) (run_plan hash env resume dry_run) (\<lambda>_ _. True) (fleet_inv B)"
  unfolding run_plan_def
proof (rule safe_look_const)
  fix plan assume plan: "load_plan (parent_dir env) (document env) = Inr plan"
  note p = assms(1) [OF plan]
  have digest: "is_ascii (plan_digest hash plan)" using assms(2) by (simp add: plan_digest_def)
  note go = continue_safe [OF plan p]
  let ?rest = "\<lambda>v. seq (look (\<lambda>_. validate_state hash v plan)) (\<lambda>state.
       rotate hash env plan state [nat (int_of (item state ''next_idx'')) ..< length (rotations_of plan)])"
  have found: "safe (\<lambda>w. started w = [0..<k] \<and> pending w = None \<and> journal_fits w k \<and> journal_read w = Inr found)
      (seq (case found of
           None \<Rightarrow> if resume then fail (RotationError ''resume-journal-missing'')
             else seq (journal_write (initial_state hash plan)) (\<lambda>_. ret (PDict (initial_state hash plan)))
         | Some v \<Rightarrow> if resume then ret v else fail (RotationError ''journal-already-exists-use-resume'')) ?rest)
      (\<lambda>_ _. True) (fleet_inv B)" if k: "set [0..<k] \<subseteq> A" for k found
  proof (cases found)
    case None
    have "safe (\<lambda>w. started w = [0..<0] \<and> pending w = None) (journal_write (initial_state hash plan))
        (\<lambda>_. recorded (initial_state hash plan) 0) (fleet_inv B)"
      by (rule journal_write_safe [OF initial_describes [OF p digest]]) simp
    moreover have "safe (recorded (initial_state hash plan) 0) (?rest (PDict (initial_state hash plan))) (\<lambda>_ _. True) (fleet_inv B)"
      using assms(4) [OF plan] initial_describes [OF p digest]
      by (intro safe_weaken [OF go [where k = 0]]) (auto simp: recorded_def)
    ultimately have "safe (\<lambda>w. started w = [0..<0] \<and> pending w = None)
        (seq (journal_write (initial_state hash plan)) (\<lambda>_. ?rest (PDict (initial_state hash plan)))) (\<lambda>_ _. True) (fleet_inv B)"
      by (rule safe_seq)
    then show ?thesis
      using None by (auto simp: seq_assoc safe_fail journal_fits_def dest!: journal_read_None elim!: safe_weaken)
  next
    case (Some v)
    show ?thesis
    proof (cases "is_dict v \<and> describes (dict_of v) k")
      case True
      then show ?thesis
        using Some k assms(3) assms(4) [OF plan] by (auto simp: safe_fail intro!: safe_weaken [OF go [where k = k and A = B]])
    next
      case False
      then show ?thesis using Some by (auto simp: safe_def journal_fits_def)
    qed
  qed
  show "safe (fleet_inv A) (if dry_run then ret 0 else seq (look enter_journal) (\<lambda>_. seq (look journal_read) (\<lambda>found. seq (case found of
           None \<Rightarrow> if resume then fail (RotationError ''resume-journal-missing'')
             else seq (journal_write (initial_state hash plan)) (\<lambda>_. ret (PDict (initial_state hash plan)))
         | Some v \<Rightarrow> if resume then ret v else fail (RotationError ''journal-already-exists-use-resume'')) ?rest)))
      (\<lambda>_ _. True) (fleet_inv B)"
  proof (rule safe_if, rule safe_ret, simp)
    have one: "safe (\<lambda>w. started w = [0..<k] \<and> (pending w = None \<longrightarrow> journal_fits w k)) (seq (look enter_journal) (\<lambda>_. seq (look journal_read) (\<lambda>found. seq (case found of
           None \<Rightarrow> if resume then fail (RotationError ''resume-journal-missing'')
             else seq (journal_write (initial_state hash plan)) (\<lambda>_. ret (PDict (initial_state hash plan)))
         | Some v \<Rightarrow> if resume then ret v else fail (RotationError ''journal-already-exists-use-resume'')) ?rest)))
      (\<lambda>_ _. True) (fleet_inv B)" if "set [0..<k] \<subseteq> A" for k
      by (rule safe_seq [where R = "\<lambda>_ w. started w = [0..<k] \<and> pending w = None \<and> journal_fits w k", OF safe_look
            safe_seq [OF safe_look found [OF that]]]) (auto simp: enter_journal_def)
    show "safe (fleet_inv A) (seq (look enter_journal) (\<lambda>_. seq (look journal_read) (\<lambda>found. seq (case found of
           None \<Rightarrow> if resume then fail (RotationError ''resume-journal-missing'')
             else seq (journal_write (initial_state hash plan)) (\<lambda>_. ret (PDict (initial_state hash plan)))
         | Some v \<Rightarrow> if resume then ret v else fail (RotationError ''journal-already-exists-use-resume'')) ?rest)))
      (\<lambda>_ _. True) (fleet_inv B)"
      by (rule fleet_inv_cases) (rule one)
  qed
qed

text \<open>
  A fleet history: invocations one after the other, each with its own environment and flags, and
  each cut off after any of its published steps or run to its end.
\<close>

definition ascii_plans :: "fenv \<Rightarrow> bool" where
  "ascii_plans env \<longleftrightarrow> (case load_plan (parent_dir env) (document env) of Inl _ \<Rightarrow> True | Inr plan \<Rightarrow> plain (PDict plan))"

inductive invoked :: "(string \<Rightarrow> string) \<Rightarrow> rworld \<Rightarrow> rworld \<Rightarrow> bool" for hash where
  "ascii_plans env \<Longrightarrow> w' \<in> set (w # steps (run_plan hash env resume dry_run) w) \<Longrightarrow> invoked hash w w'"

definition fresh_world :: "int \<Rightarrow> rworld" where
  "fresh_world uid = \<lparr>journal = None, pending = None, started = [], ruid = uid\<rparr>"

lemma fresh_inv: "fleet_inv A (fresh_world uid)"
  by (auto simp: fleet_inv_def fresh_world_def journal_fits_def journal_read_def read_regular_def)

lemma invoked_inv:
  assumes "\<And>t. is_ascii (hash t)" "(invoked hash)\<^sup>*\<^sup>* (fresh_world uid) w"
  shows "fleet_inv UNIV w"
  using assms(2)
proof (induction rule: rtranclp_induct)
  case base
  show ?case by (rule fresh_inv)
next
  case (step w w')
  from step.hyps(2) obtain env resume dry_run where i: "ascii_plans env" "w' \<in> set (w # steps (run_plan hash env resume dry_run) w)"
    by (auto elim: invoked.cases)
  have "safe (fleet_inv UNIV) (run_plan hash env resume dry_run) (\<lambda>_ _. True) (fleet_inv UNIV)"
    using assms(1) i(1) by (intro run_plan_safe) (auto simp: ascii_plans_def)
  from safe_stepsD [OF this step.IH] i(2) step.IH show ?case by auto
qed

section \<open>A run with no obstacle\<close>

definition progress :: "(string \<Rightarrow> string) \<Rightarrow> dict \<Rightarrow> nat \<Rightarrow> pv \<Rightarrow> dict" where
  "progress hash plan n flight =
     [(''schema_version'', PInt 1), (''id'', item plan ''id''), (''plan_sha256'', PStr (plan_digest hash plan)),
      (''next_idx'', PInt (int n)), (''completed'', PList (take n (rotations_of plan))), (''in_flight'', flight)]"

lemma progress_updates:
  "initial_state hash plan = progress hash plan 0 PNone"
  "AList.update ''in_flight'' (PInt (int n)) (progress hash plan n PNone) = progress hash plan n (PInt (int n))"
  "AList.update ''in_flight'' PNone (AList.update ''completed'' (PList (take (Suc n) (rotations_of plan)))
      (AList.update ''next_idx'' (PInt (int n + 1)) (progress hash plan n (PInt (int n))))) = progress hash plan (Suc n) PNone"
  by (simp_all add: initial_state_def progress_def add.commute)

definition readable :: "rworld \<Rightarrow> bool" where
  "readable w \<longleftrightarrow> pending w = None \<and> (journal w = None \<or> (\<exists>b. read_regular True (ruid w) (journal w) = Inr b))"

lemma journal_write_run:
  assumes "readable w"
  shows "outcome (journal_write d) w = Inr ()"
    "after (journal_write d) w = w\<lparr>journal := Some (atomic_write (ruid w) (journal_text d)), pending := None\<rparr>"
proof -
  obtain b where b: "(if journal w = None then Inr (''null'' @ [CHR 0x0A]) else read_regular True (ruid w) (journal w)) = Inr b"
    using assms by (cases "journal w = None") (auto simp: readable_def)
  have run: "journal_write d w =
      (let w1 = w\<lparr>pending := Some (atomic_write (ruid w) b)\<rparr>; w2 = w1\<lparr>journal := Some (atomic_write (ruid w1) (journal_text d))\<rparr>
       in ([w1, w2, w2\<lparr>pending := None\<rparr>], Inr ()))"
    unfolding journal_write_def seq_look b using assms
    by (simp add: dio_eval readable_def refuse_if_eval Let_def)
  show "outcome (journal_write d) w = Inr ()"
    "after (journal_write d) w = w\<lparr>journal := Some (atomic_write (ruid w) (journal_text d)), pending := None\<rparr>"
    by (simp_all add: after_def run Let_def)
qed

lemma run_look: "outcome (look m) w = m w"
  by (simp add: look_def)

lemma ret_run: "outcome (ret a) w = Inr a"
  by (simp add: ret_def)

lemma progress_items: "item (progress hash plan n flight) ''next_idx'' = PInt (int n)"
  by (simp add: progress_def)

definition small_journal :: "(string \<Rightarrow> string) \<Rightarrow> dict \<Rightarrow> bool" where
  "small_journal hash plan \<longleftrightarrow> (\<forall>n \<le> length (rotations_of plan).
     length (journal_text (progress hash plan n PNone)) \<le> LIMIT \<and> length (journal_text (progress hash plan n (PInt (int n)))) \<le> LIMIT)"

lemma rotate_run:
  assumes "small_journal hash plan"
  shows "(\<And>i. k \<le> i \<Longrightarrow> i < k + n \<Longrightarrow> cleared hash env plan i \<and> exits env i = 0) \<Longrightarrow>
     k + n = length (rotations_of plan) \<Longrightarrow> readable w \<Longrightarrow> started w = [0..<k] \<Longrightarrow>
     outcome (rotate hash env plan (progress hash plan k PNone) [k..<k + n]) w = Inr 0
     \<and> started (after (rotate hash env plan (progress hash plan k PNone) [k..<k + n]) w) = [0..<k + n]"
proof (induction n arbitrary: k w)
  case 0
  then show ?case by (simp add: ret_run)
next
  case (Suc n)
  let ?fly = "progress hash plan k (PInt (int k))" and ?land = "progress hash plan (Suc k) PNone"
  obtain a where a: "alias_at plan k = Some a" and c: "confirms env k" "exits env k = 0"
      "migration_matches (dict_of (rotations_of plan ! k)) (migrations env k)"
      "\<And>visit. visit \<in> {0, 1} \<Longrightarrow> require_health hash env plan (active_nodes plan k) a k visit = Inr ()"
    using Suc.prems(1) [of k] by (auto simp: cleared_def)
  define w1 where "w1 = w\<lparr>journal := Some (atomic_write (ruid w) (journal_text ?fly)), pending := None\<rparr>"
  define w2 where "w2 = w1\<lparr>started := started w1 @ [k]\<rparr>"
  define w3 where "w3 = w2\<lparr>journal := Some (atomic_write (ruid w2) (journal_text ?land)), pending := None\<rparr>"
  have sizes: "length (journal_text ?fly) \<le> LIMIT" "length (journal_text ?land) \<le> LIMIT"
    using assms Suc.prems(2) by (auto simp: small_journal_def)
  have e: "execute_rotation env (dict_of (rotations_of plan ! k)) k w1 = ([w2], Inr ())"
    using c by (simp add: execute_rotation_def w2_def dio_eval)
  have r2: "readable w2" using sizes(1) by (simp add: readable_def read_regular_def w2_def w1_def)
  have r3: "readable w3" "started w3 = [0..<Suc k]"
    using sizes(2) Suc.prems(4) by (auto simp: readable_def read_regular_def w3_def w2_def w1_def)
  let ?rest = "rotate hash env plan ?land [Suc k..<Suc k + n]"
  have upt: "[k..<k + Suc n] = k # [Suc k..<Suc k + n]" by (simp add: upt_rec [of k])
  have one: "outcome (rotate hash env plan (progress hash plan k PNone) [k..<k + Suc n]) w = outcome ?rest w3
      \<and> after (rotate hash env plan (progress hash plan k PNone) [k..<k + Suc n]) w = after ?rest w3"
    unfolding upt rotate.simps a option.case Let_def progress_updates
    using c(1,4) journal_write_run [OF Suc.prems(3), of ?fly] journal_write_run [OF r2, of ?land] e
    by (simp add: seq_run run_look w1_def [symmetric] w3_def [symmetric] after_def [of "execute_rotation env _ k"])
  have "outcome ?rest w3 = Inr 0 \<and> started (after ?rest w3) = [0..<Suc k + n]"
    using Suc.prems r3 by (intro Suc.IH) auto
  with one show ?case by simp
qed

lemma run_completes:
  assumes plan: "load_plan (parent_dir env) (document env) = Inr plan"
    and "\<And>i. i < length (rotations_of plan) \<Longrightarrow> cleared hash env plan i \<and> exits env i = 0"
    and "small_journal hash plan"
    and w: "journal w = None" "pending w = None" "started w = []"
  shows "outcome (run_plan hash env False False) w = Inr 0
     \<and> started (after (run_plan hash env False False) w) = [0..<length (rotations_of plan)]"
proof -
  let ?s = "progress hash plan 0 PNone"
  define w1 where "w1 = w\<lparr>journal := Some (atomic_write (ruid w) (journal_text ?s)), pending := None\<rparr>"
  have "readable w" using w by (simp add: readable_def)
  note jw = journal_write_run [OF this, of ?s, folded w1_def]
  have v: "validate_state hash (PDict ?s) plan = Inr ?s"
    using load_plan_id [OF plan]
    by (auto simp: validate_state_def progress_updates progress_def keys_are_iff Let_def matches_def pv_test_iff)
  have "length (journal_text ?s) \<le> LIMIT" using assms(3) by (auto simp: small_journal_def)
  then have "readable w1" "started w1 = [0..<0]" using w by (simp_all add: readable_def read_regular_def w1_def)
  from rotate_run [OF assms(3), where k = 0 and n = "length (rotations_of plan)", OF _ _ this] assms(2)
  have r: "outcome (rotate hash env plan ?s [0..<length (rotations_of plan)]) w1 = Inr 0"
    "started (after (rotate hash env plan ?s [0..<length (rotations_of plan)]) w1) = [0..<length (rotations_of plan)]"
    by simp_all
  have "journal_read w = Inr None" "enter_journal w = Inr ()"
    using w by (simp_all add: journal_read_def read_regular_def enter_journal_def)
  with plan jw v r show ?thesis
    unfolding run_plan_def progress_updates
    by (simp add: seq_run run_look seq_assoc progress_items)
qed

section \<open>The claims\<close>

text \<open>A plan of one rotation over two nodes, in an environment that lets it pass.\<close>

definition sample_entry :: "string \<Rightarrow> string \<Rightarrow> pv" where
  "sample_entry green migration = PDict [(''current'', PStr ''vultr:a''), (''new_env'', PStr ''c''),
     (''green_sops_file'', PStr green), (''migration_plan'', PStr migration),
     (''migration_approval'', PStr (replicate 64 (CHR ''0'')))]"

definition sample_plan :: "string \<Rightarrow> pv \<Rightarrow> dict" where
  "sample_plan config entry = [(''schema_version'', PInt 1), (''id'', PStr ''p''), (''min_active'', PInt 1),
     (''health'', PDict [(''config'', PStr config), (''nodes'', PList [
        PDict [(''current'', PStr ''vultr:a''), (''inventory_alias'', PStr ''a'')],
        PDict [(''current'', PStr ''vultr:b''), (''inventory_alias'', PStr ''b'')]])]),
     (''rotations'', PList [entry])]"

definition sample_env :: fenv where
  "sample_env = \<lparr>parent_dir = ''/d'', document = Inr (PDict (sample_plan ''h'' (sample_entry ''g'' ''m''))),
     reloads = (\<lambda>_ _. Inr (PDict (sample_plan ''h'' (sample_entry ''g'' ''m'')))),
     survivors = (\<lambda>_ _. Inr [''b'']), confirms = (\<lambda>_. True),
     migrations = (\<lambda>_. Some (PDict [(''source'', PDict [(''host'', PStr ''vultr:a'')]),
        (''target'', PDict [(''host'', PStr ''vultr:c''), (''secrets_file'', PStr ''/d/g'')])])),
     exits = (\<lambda>_. 0)\<rparr>"

abbreviation sample_loaded :: dict where
  "sample_loaded \<equiv> sample_plan ''/d/h'' (sample_entry ''/d/g'' ''/d/m'')"

lemma sample_loads: "load_plan ''/d'' (Inr (PDict (sample_plan ''h'' (sample_entry ''g'' ''m'')))) = Inr sample_loaded"
  by (simp add: load_plan_def plan_of_def sample_plan_def sample_entry_def bad_keys_def has_key_def matches_def NAME_def ALIAS_def PAIR_def
      head_tail_def bad_path_def ulen_def is_alnum_lower_def is_alnum_def is_lower_def is_digit_def ends_with_def Let_def
      rotation_keys_def hex64_def repeated_def is_hex_def list_all_iff provider_of_def abspath_join_def starts_with_def)

lemma sample_cleared:
  "i < length (rotations_of sample_loaded) \<Longrightarrow> cleared hash sample_env sample_loaded i \<and> exits sample_env i = 0"
  by (simp add: cleared_def rotations_of_def alias_at_def active_nodes_def nodes_of_def current_of_def require_health_def
      sample_env_def sample_loads refuse_if_eval min_active_of_def migration_matches_def provider_of_def Let_def)
     (auto simp: sample_plan_def sample_entry_def refuse_if_def bind_res_def image_iff)

lemma sample_plain: "plain (PDict sample_loaded)"
  by (simp add: sample_plan_def sample_entry_def is_ascii_def list_all_iff plain_small show_nat_small)

lemma sample_small: "small_journal (\<lambda>_. ''0'') sample_loaded"
proof -
  have "n = 0 \<or> n = Suc 0" if "n \<le> length (rotations_of sample_loaded)" for n
    using that by (auto simp: rotations_of_def sample_plan_def)
  moreover have "length (journal_text (progress (\<lambda>_. ''0'') sample_loaded n f)) \<le> LIMIT"
    if "n = 0 \<or> n = Suc 0" "f = PNone \<or> f = PInt (int n)" for n f
    using that
    by (auto simp: journal_text_def length_dumps_sorted progress_def rotations_of_def sample_plan_def sample_entry_def
        plan_digest_def LIMIT_def length_join show_int_def show_nat_small quote_unescaped unescaped_def list_all_iff)
  ultimately show ?thesis by (auto simp: small_journal_def)
qed

lemma sample_run:
  "outcome (run_plan (\<lambda>_. ''0'') sample_env False False) (fresh_world 0) = Inr 0"
  "started (after (run_plan (\<lambda>_. ''0'') sample_env False False) (fresh_world 0)) = [0]"
proof -
  let ?w = "fresh_world 0" and ?s = "progress (\<lambda>_. ''0'') sample_loaded 0 PNone"
  have l: "load_plan (parent_dir sample_env) (document sample_env) = Inr sample_loaded"
    by (simp add: sample_env_def sample_loads)
  have "length (rotations_of sample_loaded) = 1" by (simp add: rotations_of_def sample_plan_def)
  with run_completes [OF l sample_cleared sample_small, of ?w]
  show "outcome (run_plan (\<lambda>_. ''0'') sample_env False False) ?w = Inr 0"
    "started (after (run_plan (\<lambda>_. ''0'') sample_env False False) ?w) = [0]"
    by (simp_all add: fresh_world_def)
qed

lemma sample_invoked:
  "(invoked (\<lambda>_. ''0''))\<^sup>*\<^sup>* (fresh_world 0) (after (run_plan (\<lambda>_. ''0'') sample_env False False) (fresh_world 0))"
proof (rule r_into_rtranclp, rule invoked.intros)
  show "ascii_plans sample_env" using sample_plain by (simp add: ascii_plans_def sample_env_def sample_loads del: plain.simps)
  show "after (run_plan (\<lambda>_. ''0'') sample_env False False) (fresh_world 0)
      \<in> set (fresh_world 0 # steps (run_plan (\<lambda>_. ''0'') sample_env False False) (fresh_world 0))"
    unfolding after_def by (rule last_in_set) simp
qed

text \<open>
  C2: no rotation is started twice. Starting from a fleet with no journal, after any number of
  invocations with any plans, flags, survivor sets, operator answers and script results, each cut
  off at any step, the rotations whose script was started are the indices 0, 1, ..., in this order
  and without repetition. (The digest is ASCII text, as a hexadecimal digest is, and so are the
  plans; the latter is part of \<open>invoked\<close>.)
\<close>

theorem rotation_started_once:
  assumes "\<And>t. is_ascii (hash t)" "(invoked hash)\<^sup>*\<^sup>* (fresh_world uid) w"
  shows "distinct (started w) \<and> started w = [0..<length (started w)]"
  using invoked_inv [OF assms] by (auto simp: fleet_inv_def)

theorem rotation_started_once_witness:
  "started (after (run_plan (\<lambda>_. ''0'') sample_env False False) (fresh_world 0)) = [0]
   \<and> distinct (started (after (run_plan (\<lambda>_. ''0'') sample_env False False) (fresh_world 0)))"
  using rotation_started_once [OF _ sample_invoked] sample_run(2) by (simp add: is_ascii_def)

text \<open>
  C22: the run finishes. On a fleet with no journal, if every rotation passes its checks (survivors,
  confirmation, migration plan) and its script succeeds, and the journal stays within the size that
  can be read back, then a fresh invocation returns 0 with every rotation of the plan started.
\<close>

theorem rotation_run_completes:
  assumes plan: "load_plan (parent_dir env) (document env) = Inr plan"
    and "\<And>i. i < length (rotations_of plan) \<Longrightarrow> cleared hash env plan i \<and> exits env i = 0"
    and "small_journal hash plan"
    and w: "journal w = None" "pending w = None" "started w = []"
  shows "outcome (run_plan hash env False False) w = Inr 0
     \<and> started (after (run_plan hash env False False) w) = [0..<length (rotations_of plan)]"
  by (rule run_completes) (use assms in auto)

theorem rotation_run_completes_witness:
  "outcome (run_plan (\<lambda>_. ''0'') sample_env False False) (fresh_world 0) = Inr 0"
  using rotation_run_completes [OF _ sample_cleared sample_small, of "fresh_world 0"] sample_loads
  by (simp add: sample_env_def fresh_world_def)



lemma bind_sentinels_selected:
  "bind_sentinels addresses aliases ss targets = Inr sel \<Longrightarrow>
     set sel = {s \<in> set ss. target_alias s \<in> set aliases}
     \<and> (\<forall>s \<in> set sel. map_of addresses (target_alias s) = Some (target_address_sha256 s))"
proof (induction addresses aliases ss targets arbitrary: sel rule: bind_sentinels.induct)
  case (2 addresses aliases s rest targets)
  then show ?case by (fastforce simp: Let_def bind_res_Inr split: if_split_asm)
qed simp

text \<open>
  What a survivor is. Every alias that the liveness check returns is one of the given nodes and
  not excluded, is watched by at least one sentinel, and every sentinel that targets it is bound to
  the digest of that node's inventory address and delivered a report in which the control, every
  profile, every variant and, for AmneziaWG, every address family is ok.
\<close>

theorem survivors_authenticated:
  assumes "healthy_survivors hash hosts sentinels stale nodes excluded reports = Inr healthy" "a \<in> set healthy"
  shows "a \<in> set (map (\<lambda>n. str_of (item (dict_of n) ''inventory_alias'')) nodes) \<and> a \<notin> set excluded
     \<and> (\<exists>s \<in> set sentinels. target_alias s = a)
     \<and> (\<forall>s \<in> set sentinels. target_alias s = a \<longrightarrow>
          (\<exists>address r. (a, address) \<in> set hosts \<and> target_address_sha256 s = hash address
             \<and> reports (sentinel_id s) = Some r \<and> report_ok r))"
proof -
  define named where "named = map (\<lambda>n. str_of (item (dict_of n) ''inventory_alias'')) nodes"
  define aliases where "aliases = filter (\<lambda>a. a \<notin> set excluded) named"
  define addresses where "addresses = map (\<lambda>(n, a). (n, hash a)) hosts"
  from assms obtain sel where sel: "bind_sentinels addresses aliases sentinels [] = Inr sel"
    and a: "a \<in> set aliases" "filter (\<lambda>s. target_alias s = a) sel \<noteq> []"
      "list_all (\<lambda>s. case reports (sentinel_id s) of None \<Rightarrow> False | Some r \<Rightarrow> report_ok r) (filter (\<lambda>s. target_alias s = a) sel)"
    unfolding healthy_survivors_def Let_def named_def [symmetric] aliases_def [symmetric] addresses_def [symmetric]
    by (auto simp: bind_res_Inr split: if_split_asm)
  note b = bind_sentinels_selected [OF sel]
  have "\<exists>address r. (a, address) \<in> set hosts \<and> target_address_sha256 s = hash address
       \<and> reports (sentinel_id s) = Some r \<and> report_ok r" if "s \<in> set sentinels" "target_alias s = a" for s
  proof -
    from that a(1) b have s: "s \<in> set sel" "map_of addresses a = Some (target_address_sha256 s)" by auto
    from s(2) obtain address where "(a, address) \<in> set hosts" "target_address_sha256 s = hash address"
      by (auto simp: addresses_def dest!: map_of_SomeD)
    moreover from a(3) s(1) that(2) have "\<exists>r. reports (sentinel_id s) = Some r \<and> report_ok r"
      by (auto simp: list_all_iff split: option.splits)
    ultimately show ?thesis by blast
  qed
  moreover have "\<exists>s \<in> set sentinels. target_alias s = a" using a(2) b by (auto simp: filter_empty_conv)
  ultimately show ?thesis using a(1) by (simp add: aliases_def named_def)
qed

definition sample_sentinel :: sentinel where
  "sample_sentinel = \<lparr>sentinel_id = ''s'', target = PNone, target_alias = ''b'', target_address_sha256 = ''0''\<rparr>"

definition sample_report :: pv where
  "sample_report = PDict [(''control'', PDict [(''verdict'', PStr ''ok'')]),
     (''profiles'', PList [PDict [(''profile'', PStr ''p1''), (''verdict'', PStr ''ok'')]])]"

theorem survivors_authenticated_witness:
  "healthy_survivors (\<lambda>_. ''0'') [(''a'', ''x''), (''b'', ''y'')] [sample_sentinel] 120 (nodes_of sample_loaded) [''a'']
     (\<lambda>_. Some sample_report) = Inr [''b''] \<and> report_ok sample_report"
proof -
  have "healthy_survivors (\<lambda>_. ''0'') [(''a'', ''x''), (''b'', ''y'')] [sample_sentinel] 120 (nodes_of sample_loaded) [''a'']
     (\<lambda>_. Some sample_report) = Inr [''b'']"
    by (simp add: healthy_survivors_def nodes_of_def sample_plan_def sample_sentinel_def sample_report_def Let_def
        report_ok_def verdict_ok_def profile_ok_def list_of_def item_def)
  from this survivors_authenticated [OF this, of "''b''"] show ?thesis by (simp add: sample_sentinel_def)
qed

end
