(* ===== verification/SilenceGateway.thy ===== *)
theory SilenceGateway
  imports Json
begin

text \<open>
  The finite-silence authority in front of Alertmanager
  (\<^verbatim>\<open>ansible/roles/observability_control_plane/files/observability-silence-gateway.py\<close>).

  The world is the audit file, the state the process holds in memory, and, as a ghost, the requests
  that reached Alertmanager. One HTTP request is one durable program, since the server handles one
  request at a time. \<open>io_fails\<close> lists, for the writes to come, which of them raise \<open>OSError\<close>.

  Parameters: \<open>hash\<close>, the hexadecimal SHA-256; \<open>uuid\<close>, \<open>str(UUID(s))\<close> or \<open>None\<close> where \<open>UUID\<close> raises
  \<open>ValueError\<close>; \<open>strptime\<close>, the timestamp of a text in the fixed UTC format. The clock is read once
  per request.
\<close>

section \<open>Errors and patterns\<close>

datatype gerr = GatewayError string | GRaised pyexc

definition TOKEN :: "string \<Rightarrow> bool" where
  "TOKEN s = hex64 s"

definition ALIAS :: "string \<Rightarrow> bool" where
  "ALIAS s = head_tail (\<lambda>c. is_lower c \<or> is_upper c) (\<lambda>c. is_alnum c \<or> c = CHR ''_'' \<or> c = CHR ''-'') 0 63 s"

definition LABELS :: "string list" where
  "LABELS = [''alertname'', ''environment'', ''node'', ''component'', ''policy'', ''profile'', ''vantage'', ''severity'']"

definition reason_pattern :: "string \<Rightarrow> bool" where
  "reason_pattern s \<longleftrightarrow> s \<noteq> [] \<and> is_lower (hd s)
     \<and> list_all (\<lambda>p. p \<noteq> [] \<and> list_all is_alnum_lower p) (split_on (CHR ''-'') s)"

definition owner_pattern :: "string \<Rightarrow> bool" where
  "owner_pattern s = head_tail is_lower (\<lambda>c. is_alnum_lower c \<or> c = CHR ''_'' \<or> c = CHR ''-'') 0 63 s"

section \<open>Silence requests\<close>

record policy =
  environment :: string
  max_ttl_seconds :: int

definition validate_silence ::
  "(string \<Rightarrow> int option) \<Rightarrow> pv \<Rightarrow> policy \<Rightarrow> rat \<Rightarrow> gerr + int" where
  "validate_silence strptime v pol now =
     (let request = dict_of v; reason = item request ''reason''; m = item request ''matchers''; matchers = dict_of m;
          instant = (\<lambda>k. case item request k of PStr s \<Rightarrow> strptime s | _ \<Rightarrow> None); ttl = of_int (max_ttl_seconds pol) in
      if \<not> is_dict v \<or> \<not> keys_are request [''schema_version'', ''reason'', ''starts_at'', ''ends_at'', ''matchers'']
        \<or> item request ''schema_version'' \<noteq> PInt 1 then Inl (GatewayError ''silence-shape'')
      else if \<not> is_str reason \<or> \<not> reason_pattern (str_of reason) \<or> 64 < length (str_of reason)
        then Inl (GatewayError ''silence-reason'')
      else if \<not> is_dict m \<or> \<not> (2 \<le> length matchers \<and> length matchers \<le> 8)
        \<or> \<not> list_all (\<lambda>kv. fst kv \<in> set LABELS) matchers
        \<or> item matchers ''environment'' \<noteq> PStr (environment pol)
        \<or> \<not> (has_key matchers ''node'' \<or> has_key matchers ''policy'')
        \<or> \<not> list_all (\<lambda>kv. is_str (snd kv) \<and> ALIAS (str_of (snd kv))) matchers then Inl (GatewayError ''silence-scope'')
      else (case (instant ''starts_at'', instant ''ends_at'') of
          (Some start, Some end) \<Rightarrow>
            if \<not> (now - 60 \<le> of_int start \<and> of_int start \<le> now + ttl)
              \<or> \<not> (max now (of_int start) < of_int end \<and> of_int end \<le> of_int start + ttl)
            then Inl (GatewayError ''silence-ttl'') else Inr end
        | _ \<Rightarrow> Inl (GatewayError ''silence-time'')))"

section \<open>The journal\<close>

record gstate =
  gschema :: pv
  silences :: dict
  audit :: "pv list"

record gworld =
  audit_file :: "inode option"
  mem :: gstate
  io_fails :: "bool list"
  sent :: "(string \<times> string \<times> string option) list"
  geuid :: int

definition empty_gstate :: gstate where
  "empty_gstate = \<lparr>gschema = PInt 1, silences = [], audit = []\<rparr>"

definition gstate_dict :: "gstate \<Rightarrow> dict" where
  "gstate_dict s = [(''schema_version'', gschema s), (''silences'', PDict (silences s)), (''audit'', PList (audit s))]"

definition gstate_text :: "gstate \<Rightarrow> string" where
  "gstate_text s = dumps_sorted (PDict (gstate_dict s)) @ [CHR 0x0A]"

text \<open>
  \<open>set(v) != names\<close>, then a subscript by a name, for a value that is not a dictionary: the
  categorical error, or \<open>TypeError\<close> where \<open>set\<close> or, on a list of exactly those names, the subscript raises.
\<close>

definition not_a_row :: "string \<Rightarrow> string list \<Rightarrow> pv \<Rightarrow> gerr" where
  "not_a_row e names v = (case v of
     PStr _ \<Rightarrow> GatewayError e
   | PList xs \<Rightarrow> if list_ex (\<lambda>x. is_list x \<or> is_dict x) xs \<or> set xs = set (map PStr names) then GRaised TypeError
       else GatewayError e
   | _ \<Rightarrow> GRaised TypeError)"

definition check_row :: "(string \<Rightarrow> string option) \<Rightarrow> string \<times> pv \<Rightarrow> gerr + unit" where
  "check_row uuid kv =
     (let silence_id = fst kv; row = dict_of (snd kv); bad = GatewayError ''audit-entry'' in
      case uuid silence_id of
        None \<Rightarrow> Inl (GRaised ValueError)
      | Some canonical \<Rightarrow>
          if canonical \<noteq> silence_id then Inl bad
          else if \<not> is_dict (snd kv) then Inl (not_a_row ''audit-entry'' [''owner'', ''expires_at'', ''scope'', ''reason''] (snd kv))
          else if \<not> keys_are row [''owner'', ''expires_at'', ''scope'', ''reason''] then Inl bad
          else if \<not> is_str (item row ''owner'') then Inl (GRaised TypeError)
          else if \<not> ALIAS (str_of (item row ''owner'')) \<or> \<not> type_is_int (item row ''expires_at'') then Inl bad
          else Inr ())"

definition read_gstate :: "(string \<Rightarrow> string option) \<Rightarrow> pv \<Rightarrow> gerr + gstate" where
  "read_gstate uuid v =
     (let value = dict_of v; s = item value ''silences''; a = item value ''audit'' in
      if \<not> is_dict v then Inl (not_a_row ''audit-shape'' [''schema_version'', ''silences'', ''audit''] v)
      else if \<not> keys_are value [''schema_version'', ''silences'', ''audit''] \<or> \<not> eq_int (item value ''schema_version'') 1
        \<or> \<not> is_dict s \<or> \<not> is_list a \<or> 256 < length (dict_of s) \<or> 1024 < length (list_of a)
      then Inl (GatewayError ''audit-shape'')
      else bind_res (each (check_row uuid) (dict_of s)) (\<lambda>_.
        Inr \<lparr>gschema = item value ''schema_version'', silences = dict_of s, audit = list_of a\<rparr>))"

definition load_journal :: "(string \<Rightarrow> string option) \<Rightarrow> int \<Rightarrow> inode option \<Rightarrow> gerr + gstate" where
  "load_journal uuid uid f = (case f of
     None \<Rightarrow> Inr empty_gstate
   | Some i \<Rightarrow>
       if fkind i = Symlink then Inl (GRaised OSError)
       else if fkind i \<noteq> Regular \<or> fuid i \<noteq> uid \<or> fnlink i \<noteq> 1 \<or> fmode i \<noteq> 384 then Inl (GatewayError ''audit-file'')
       else if 1048576 < length (fbytes i) then Inl (GatewayError ''audit-size'')
       else (case decode_json plain_hook (fbytes i) of
           Inl _ \<Rightarrow> Inl (GRaised ValueError)
         | Inr v \<Rightarrow> read_gstate uuid v))"

text \<open>
  \<open>append\<close>: the new state is built and checked on a copy, published by an atomic replacement, and
  only then adopted in memory.
\<close>

definition owner_value :: "string option \<Rightarrow> pv" where
  "owner_value owner = (case owner of None \<Rightarrow> PNone | Some o' \<Rightarrow> PStr o')"

definition audit_event ::
  "rat \<Rightarrow> string \<Rightarrow> string \<Rightarrow> string option \<Rightarrow> string option \<Rightarrow> dict option \<Rightarrow> pv" where
  "audit_event now action result owner silence_id create = PDict (
     [(''at'', PInt \<lfloor>now\<rfloor>), (''action'', PStr action), (''result'', PStr result), (''owner'', owner_value owner)]
     @ (case silence_id of None \<Rightarrow> [] | Some i \<Rightarrow> [(''silence_id'', PStr i)])
     @ (case create of None \<Rightarrow> [] | Some row \<Rightarrow> [(''scope'', item row ''scope''), (''reason'', item row ''reason'')]))"

definition last_1024 :: "pv list \<Rightarrow> pv list" where
  "last_1024 xs = drop (length xs - 1024) xs"

definition next_gstate ::
  "rat \<Rightarrow> string \<Rightarrow> string \<Rightarrow> string option \<Rightarrow> string option \<Rightarrow> dict option \<Rightarrow> bool \<Rightarrow> gstate \<Rightarrow> gerr + gstate" where
  "next_gstate now action result owner silence_id create remove s =
     (let event = audit_event now action result owner silence_id create; sid = (case silence_id of None \<Rightarrow> [] | Some i \<Rightarrow> i) in
      bind_res (case create of
          None \<Rightarrow> Inr (silences s)
        | Some row \<Rightarrow> if has_key (silences s) sid \<or> 256 \<le> length (silences s) then Inl (GatewayError ''audit-capacity'')
            else Inr (AList.update sid (PDict row) (silences s))) (\<lambda>grown.
      bind_res (if \<not> remove then Inr grown
          else if \<not> has_key grown sid then Inl (GRaised KeyError) else Inr (AList.delete sid grown)) (\<lambda>kept.
      let s' = s\<lparr>silences := kept, audit := last_1024 (audit s @ [event])\<rparr> in
      if 1048576 < length (gstate_text s') then Inl (GatewayError ''audit-capacity'') else Inr s')))"

definition append_event ::
  "rat \<Rightarrow> string \<Rightarrow> string \<Rightarrow> string option \<Rightarrow> string option \<Rightarrow> dict option \<Rightarrow> bool \<Rightarrow> (gworld, gerr, unit) dio" where
  "append_event now action result owner silence_id create remove =
     seq (look (\<lambda>w. next_gstate now action result owner silence_id create remove (mem w))) (\<lambda>s'.
     seq (look (\<lambda>w. Inr (io_fails w))) (\<lambda>fails.
     if fails \<noteq> [] \<and> hd fails then
       seq (publish (\<lambda>w. w\<lparr>io_fails := tl (io_fails w)\<rparr>)) (\<lambda>_. fail (GatewayError ''audit-unavailable''))
     else publish (\<lambda>w. w\<lparr>audit_file := Some (atomic_write (geuid w) (gstate_text s')), mem := s',
            io_fails := tl (io_fails w)\<rparr>)))"

definition elapsed :: "rat \<Rightarrow> string \<times> pv \<Rightarrow> bool" where
  "elapsed now kv \<longleftrightarrow> of_int (int_of (item (dict_of (snd kv)) ''expires_at'')) \<le> now"

definition expire :: "rat \<Rightarrow> (gworld, gerr, unit) dio" where
  "expire now =
     seq (look (\<lambda>w. Inr (silences (mem w)))) (\<lambda>rows.
     for_each (\<lambda>kv. only_if (elapsed now kv)
       (append_event now ''expiry'' ''elapsed'' (Some (str_of (item (dict_of (snd kv)) ''owner''))) (Some (fst kv)) None True)) rows)"

section \<open>The contracts at start-up\<close>

definition policy_contract :: "pv \<Rightarrow> gerr + policy" where
  "policy_contract v =
     (let p = dict_of v in
      if \<not> is_dict v \<or> \<not> keys_are p [''schema_version'', ''environment'', ''max_ttl_seconds'']
        \<or> item p ''schema_version'' \<noteq> PInt 1 \<or> \<not> is_str (item p ''environment'') \<or> \<not> ALIAS (str_of (item p ''environment''))
        \<or> \<not> type_is_int (item p ''max_ttl_seconds'')
        \<or> \<not> (60 \<le> int_of (item p ''max_ttl_seconds'') \<and> int_of (item p ''max_ttl_seconds'') \<le> 86400)
      then Inl (GatewayError ''policy-contract'')
      else Inr \<lparr>environment = str_of (item p ''environment''), max_ttl_seconds = int_of (item p ''max_ttl_seconds'')\<rparr>)"

record authentication =
  owners :: "(string \<times> string) list"
  sender_token_sha256 :: string

definition authentication_contract :: "pv \<Rightarrow> gerr + authentication" where
  "authentication_contract v =
     (let a = dict_of v; rows = list_of (item a ''owners''); bad = GatewayError ''authentication-contract'';
          digests = map (\<lambda>r. item (dict_of r) ''token_sha256'') rows @ [item a ''sender_token_sha256''];
          names = map (\<lambda>r. item (dict_of r) ''owner'') rows in
      if \<not> is_dict v \<or> \<not> is_list (item a ''owners'') \<or> \<not> list_all is_dict rows then Inl bad
      else if \<not> keys_are a [''schema_version'', ''owners'', ''sender_token_sha256''] \<or> item a ''schema_version'' \<noteq> PInt 1
        \<or> \<not> (1 \<le> length rows \<and> length rows \<le> 32)
        \<or> \<not> list_all (\<lambda>r. keys_are (dict_of r) [''owner'', ''token_sha256'']) rows
        \<or> \<not> list_all (\<lambda>n. is_str n \<and> owner_pattern (str_of n)) names
        \<or> \<not> list_all (\<lambda>d. is_str d \<and> TOKEN (str_of d)) digests
        \<or> \<not> distinct digests \<or> \<not> distinct names then Inl bad
      else Inr \<lparr>owners = map (\<lambda>r. (str_of (item (dict_of r) ''owner''), str_of (item (dict_of r) ''token_sha256''))) rows,
                sender_token_sha256 = str_of (item a ''sender_token_sha256'')\<rparr>)"

text \<open>\<open>owner\<close>: \<open>None\<close> is the alert sender, which is no principal of silences.\<close>

definition owner_of :: "(string \<Rightarrow> string) \<Rightarrow> authentication \<Rightarrow> string \<Rightarrow> gerr + string option" where
  "owner_of hash auth authorization =
     (let token = drop 7 authorization; digest = hash token in
      if \<not> starts_with ''Bearer '' authorization \<or> \<not> TOKEN token then Inl (GatewayError ''unauthenticated'')
      else if digest = sender_token_sha256 auth then Inr None
      else (case find (\<lambda>p. snd p = digest) (owners auth) of
          Some p \<Rightarrow> Inr (Some (fst p))
        | None \<Rightarrow> Inl (GatewayError ''unauthenticated'')))"

section \<open>Requests\<close>

record grequest =
  command :: string
  path :: string
  authorizations :: "string list"
  content_lengths :: "string list"
  transfer_encoding :: "string option"
  json_content :: bool
  payload :: string

record gserver =
  pol :: policy
  auth :: authentication

definition encoded :: "grequest \<Rightarrow> bool" where
  \<comment> \<open>\<open>self.headers.get("Transfer-Encoding")\<close> is truthy\<close>
  "encoded r \<longleftrightarrow> (case transfer_encoding r of None \<Rightarrow> False | Some t \<Rightarrow> t \<noteq> [])"

definition framed_empty :: "grequest \<Rightarrow> bool" where
  "framed_empty r \<longleftrightarrow> (content_lengths r = [] \<or> hd (content_lengths r) = ''0'') \<and> \<not> encoded r"

definition body :: "int \<Rightarrow> grequest \<Rightarrow> gerr + string" where
  "body limit r =
     (if length (content_lengths r) \<noteq> 1 \<or> encoded r \<or> \<not> json_content r then Inl (GatewayError ''request-framing'')
      else (case py_int (hd (content_lengths r)) of
          None \<Rightarrow> Inl (GRaised ValueError)
        | Some want \<Rightarrow>
            if \<not> (1 \<le> want \<and> want \<le> limit) then Inl (GatewayError ''request-size'')
            else let got = take (nat want) (payload r) in
              if int (length got) \<noteq> want then Inl (GatewayError ''request-size'') else Inr got))"

text \<open>One exchange with Alertmanager: its answer, or \<open>None\<close> for a transport failure.\<close>

definition backend_request ::
  "(int \<times> string) option \<Rightarrow> string \<Rightarrow> string \<Rightarrow> string option \<Rightarrow> (gworld, gerr, string) dio" where
  "backend_request answer meth target content =
     seq (publish (\<lambda>w. w\<lparr>sent := sent w @ [(meth, target, content)]\<rparr>)) (\<lambda>_.
     case answer of
       None \<Rightarrow> fail (GatewayError ''backend-unavailable'')
     | Some (status, text) \<Rightarrow>
         if 262144 < length text \<or> \<not> (200 \<le> status \<and> status < 300) then fail (GatewayError ''backend-refused'')
         else ret text)"

definition forward :: "grequest \<Rightarrow> (int \<times> string) option \<Rightarrow> (gworld, gerr, nat \<times> string) dio" where
  "forward r answer =
     seq (look (\<lambda>_. if command r = ''POST'' then
          bind_res (body 262144 r) (\<lambda>b. case decode_json plain_hook b of
              Inl _ \<Rightarrow> Inl (GRaised ValueError)
            | Inr v \<Rightarrow> if is_list v then Inr (Some b) else Inl (GatewayError ''alerts-shape''))
        else if \<not> framed_empty r then Inl (GatewayError ''request-framing'') else Inr None)) (\<lambda>content.
     seq (backend_request answer (command r) (path r) content) (\<lambda>text. ret (200, text)))"

definition silence_prefix :: string where
  "silence_prefix = ''/v1/silences/''"

definition delete_silence ::
  "(string \<Rightarrow> string option) \<Rightarrow> rat \<Rightarrow> string \<Rightarrow> grequest \<Rightarrow> (int \<times> string) option \<Rightarrow> (gworld, gerr, nat \<times> string) dio" where
  "delete_silence uuid now owner r answer =
     (let sid = drop (length silence_prefix) (path r) in
      seq (look (\<lambda>_. case uuid sid of
          None \<Rightarrow> Inl (GRaised ValueError)
        | Some canonical \<Rightarrow> refuse_if (canonical \<noteq> sid \<or> \<not> framed_empty r) (GatewayError ''delete-shape''))) (\<lambda>_.
      seq (expire now) (\<lambda>_.
      seq (look (\<lambda>w. Inr (map_of (silences (mem w)) sid))) (\<lambda>row.
      if (case row of None \<Rightarrow> True | Some v \<Rightarrow> item (dict_of v) ''owner'' \<noteq> PStr owner) then
        seq (append_event now ''delete'' ''refused'' (Some owner) None None False) (\<lambda>_.
        ret (403, ''delete-refused''))
      else
        seq (append_event now ''delete'' ''attempt'' (Some owner) (Some sid) None False) (\<lambda>_.
        seq (backend_request answer ''DELETE'' (''/api/v2/silence/'' @ sid) None) (\<lambda>_.
        seq (append_event now ''delete'' ''deleted'' (Some owner) (Some sid) None True) (\<lambda>_.
        ret (200, sid))))))))"

definition silence_payload :: "string \<Rightarrow> dict \<Rightarrow> pv" where
  "silence_payload owner request = PDict
     [(''createdBy'', PStr owner), (''comment'', item request ''reason''), (''startsAt'', item request ''starts_at''),
      (''endsAt'', item request ''ends_at''),
      (''matchers'', PList (map (\<lambda>kv. PDict [(''name'', PStr (fst kv)), (''value'', snd kv), (''isRegex'', PBool False),
          (''isEqual'', PBool True)]) (sort_key fst (dict_of (item request ''matchers'')))))]"

text \<open>
  \<open>str(UUID(result["silenceID"]))\<close>. A missing key and a result that is no dictionary raise
  \<open>KeyError\<close> and \<open>TypeError\<close>; \<open>UUID(None)\<close> raises \<open>TypeError\<close>; another value that is not a text has no
  \<open>replace\<close> and raises \<open>AttributeError\<close>, which \<open>dispatch\<close> does not catch.
\<close>

definition silence_id_of :: "(string \<Rightarrow> string option) \<Rightarrow> string \<Rightarrow> gerr + string" where
  "silence_id_of uuid text = (case decode_json plain_hook text of
     Inl _ \<Rightarrow> Inl (GRaised ValueError)
   | Inr v \<Rightarrow>
       if \<not> is_dict v then Inl (GRaised TypeError)
       else if \<not> has_key (dict_of v) ''silenceID'' then Inl (GRaised KeyError)
       else (case item (dict_of v) ''silenceID'' of
           PStr s \<Rightarrow> (case uuid s of None \<Rightarrow> Inl (GRaised ValueError) | Some canonical \<Rightarrow> Inr canonical)
         | PNone \<Rightarrow> Inl (GRaised TypeError)
         | _ \<Rightarrow> Inl (GRaised AttributeError)))"

definition silence_row :: "string \<Rightarrow> int \<Rightarrow> dict \<Rightarrow> dict" where
  "silence_row owner expiry request = [(''owner'', PStr owner), (''expires_at'', PInt expiry),
     (''scope'', item request ''matchers''), (''reason'', item request ''reason'')]"

definition create_silence ::
  "(string \<Rightarrow> string option) \<Rightarrow> (string \<Rightarrow> int option) \<Rightarrow> gserver \<Rightarrow> rat \<Rightarrow> string \<Rightarrow> grequest \<Rightarrow> (int \<times> string) option \<Rightarrow>
   (gworld, gerr, nat \<times> string) dio" where
  "create_silence uuid strptime srv now owner r answer =
     seq (look (\<lambda>_. bind_res (body 8192 r) (\<lambda>b. case decode_json unique_hook b of
          Inl (Json JHook) \<Rightarrow> Inl (GatewayError ''duplicate-json-key'')
        | Inl _ \<Rightarrow> Inl (GRaised ValueError)
        | Inr v \<Rightarrow> bind_res (validate_silence strptime v (pol srv) now) (\<lambda>expiry. Inr (dict_of v, expiry))))) (\<lambda>(request, expiry).
     seq (expire now) (\<lambda>_.
     seq (look (\<lambda>w. refuse_if (256 \<le> length (silences (mem w))) (GatewayError ''audit-capacity''))) (\<lambda>_.
     seq (append_event now ''create'' ''attempt'' (Some owner) None None False) (\<lambda>_.
     seq (backend_request answer ''POST'' ''/api/v2/silences'' (Some (dumps (silence_payload owner request)))) (\<lambda>text.
     seq (look (\<lambda>_. silence_id_of uuid text)) (\<lambda>sid.
     seq (append_event now ''create'' ''created'' (Some owner) (Some sid) (Some (silence_row owner expiry request)) False) (\<lambda>_.
     ret (201, sid))))))))"

definition allowed :: "string option \<Rightarrow> grequest \<Rightarrow> bool" where
  "allowed owner r \<longleftrightarrow> (command r, path r) \<in> {(''GET'', ''/-/ready''), (''GET'', ''/metrics''), (''POST'', ''/api/v2/alerts'')}
     \<or> (owner \<noteq> None \<and> (command r, path r) = (''GET'', ''/api/v2/alerts''))"

definition action_of :: "grequest \<Rightarrow> string" where
  "action_of r = (if path r = ''/v1/silences'' then ''create''
     else if starts_with silence_prefix (path r) then ''delete'' else ''request'')"

definition route ::
  "(string \<Rightarrow> string option) \<Rightarrow> (string \<Rightarrow> int option) \<Rightarrow> gserver \<Rightarrow> rat \<Rightarrow> string option \<Rightarrow> grequest \<Rightarrow> (int \<times> string) option \<Rightarrow>
   (gworld, gerr, nat \<times> string) dio" where
  "route uuid strptime srv now owner r answer =
     (if allowed owner r then forward r answer
      else case owner of
        Some o' \<Rightarrow>
          if command r = ''DELETE'' \<and> starts_with silence_prefix (path r) then delete_silence uuid now o' r answer
          else if (command r, path r) = (''POST'', ''/v1/silences'') then create_silence uuid strptime srv now o' r answer
          else seq (append_event now (action_of r) ''route-refused'' owner None None False) (\<lambda>_. ret (403, ''route-refused''))
      | None \<Rightarrow> seq (append_event now (action_of r) ''route-refused'' owner None None False) (\<lambda>_. ret (403, ''route-refused'')))"

text \<open>
  The exception handlers of \<open>dispatch\<close>: the category is journalled and becomes the answer; a journal
  that refuses the entry turns it into 503. \<open>ValueError\<close>, \<open>KeyError\<close> and \<open>TypeError\<close> are
  \<open>invalid-request\<close>; anything else is not caught.
\<close>

definition report ::
  "rat \<Rightarrow> grequest \<Rightarrow> string option \<Rightarrow> string \<Rightarrow> nat \<Rightarrow> (gworld, gerr, nat \<times> string) dio" where
  "report now r owner category status =
     handle (seq (append_event now (action_of r) category owner None None False) (\<lambda>_. ret (status, category)))
       (\<lambda>e. case e of GatewayError _ \<Rightarrow> ret (503, ''audit-unavailable'') | GRaised x \<Rightarrow> fail (GRaised x))"

definition status_of :: "string \<Rightarrow> nat" where
  "status_of category = (if category = ''unauthenticated'' then 401
     else if starts_with ''backend-'' category then 502 else 400)"

definition recover :: "rat \<Rightarrow> grequest \<Rightarrow> string option \<Rightarrow> gerr \<Rightarrow> (gworld, gerr, nat \<times> string) dio" where
  "recover now r owner e = (case e of
     GatewayError category \<Rightarrow> report now r owner category (status_of category)
   | GRaised x \<Rightarrow> if x \<in> {ValueError, KeyError, TypeError} then report now r owner ''invalid-request'' 400
       else fail (GRaised x))"

definition dispatch ::
  "(string \<Rightarrow> string) \<Rightarrow> (string \<Rightarrow> string option) \<Rightarrow> (string \<Rightarrow> int option) \<Rightarrow> gserver \<Rightarrow> rat \<Rightarrow> grequest \<Rightarrow>
   (int \<times> string) option \<Rightarrow> (gworld, gerr, nat \<times> string) dio" where
  "dispatch hash uuid strptime srv now r answer =
     (case (if length (authorizations r) \<noteq> 1 then Inl (GatewayError ''unauthenticated'')
            else owner_of hash (auth srv) (hd (authorizations r))) of
        Inl e \<Rightarrow> recover now r None e
      | Inr owner \<Rightarrow> handle (route uuid strptime srv now owner r answer) (recover now r owner))"

definition start_server ::
  "(string \<Rightarrow> string option) \<Rightarrow> pv \<Rightarrow> pv \<Rightarrow> rat \<Rightarrow> (gworld, gerr, gserver) dio" where
  "start_server uuid policy_document authentication_document now =
     seq (look (\<lambda>_. bind_res (policy_contract policy_document) (\<lambda>p.
        bind_res (authentication_contract authentication_document) (\<lambda>a. Inr \<lparr>pol = p, auth = a\<rparr>)))) (\<lambda>srv.
     seq (look (\<lambda>w. load_journal uuid (geuid w) (audit_file w))) (\<lambda>s.
     seq (publish (\<lambda>w. w\<lparr>mem := s\<rparr>)) (\<lambda>_.
     seq (expire now) (\<lambda>_. ret srv))))"

section \<open>Private configuration files\<close>

definition private_bytes :: "int \<Rightarrow> int option \<Rightarrow> nat \<Rightarrow> inode option \<Rightarrow> gerr + string" where
  "private_bytes uid gid limit f = (case f of
     None \<Rightarrow> Inl (GatewayError ''configuration-file'')
   | Some i \<Rightarrow>
       if fkind i = Symlink then Inl (GatewayError ''configuration-file'')
       else if fkind i \<noteq> Regular \<or> fnlink i \<noteq> 1
         \<or> \<not> ((fmode i = 256 \<and> fuid i \<in> {0, uid}) \<or> (fmode i = 288 \<and> fuid i = 0 \<and> gid = Some 0))
       then Inl (GatewayError ''configuration-file'')
       else if limit < length (fbytes i) then Inl (GatewayError ''configuration-size'')
       else Inr (fbytes i))"

definition private_json :: "int \<Rightarrow> int option \<Rightarrow> inode option \<Rightarrow> gerr + pv" where
  "private_json uid gid f = bind_res (private_bytes uid gid 65536 f) (\<lambda>b.
     case decode_json unique_hook b of
       Inl (Json JHook) \<Rightarrow> Inl (GatewayError ''duplicate-json-key'')
     | Inl _ \<Rightarrow> Inl (GatewayError ''configuration-content'')
     | Inr v \<Rightarrow> Inr v)"

section \<open>What the journal guarantees\<close>

definition mirrored :: "gworld \<Rightarrow> bool" where
  "mirrored w \<longleftrightarrow> audit_file w = Some (atomic_write (geuid w) (gstate_text (mem w)))
     \<or> audit_file w = None \<and> mem w = empty_gstate"

text \<open>The last \<open>k\<close> entries of the audit trail.\<close>

definition recent :: "nat \<Rightarrow> pv list \<Rightarrow> pv set" where
  "recent k xs = set (drop (length xs - k) xs)"

lemma recent_mono: "j \<le> k \<Longrightarrow> recent j xs \<subseteq> recent k xs"
  unfolding recent_def by (intro set_drop_subset_set_drop) simp

lemma recent_append: "x \<in> recent 1 (last_1024 (xs @ [x]))"
  by (simp add: recent_def last_1024_def)

lemma recent_Suc: "e \<in> recent k xs \<Longrightarrow> k < 1024 \<Longrightarrow> e \<in> recent (Suc k) (last_1024 (xs @ [x]))"
proof -
  assume e: "e \<in> recent k xs" and k: "k < 1024"
  have "length xs - (length xs - 1023 + k) + (length xs - 1023) = length xs - k" using k by arith
  with e show ?thesis by (auto simp: recent_def last_1024_def)
qed

lemma next_gstate_audit:
  "next_gstate now action result owner sid create remove s = Inr s' \<Longrightarrow>
     audit s' = last_1024 (audit s @ [audit_event now action result owner sid create])"
  by (auto simp: next_gstate_def Let_def res_iffs)

lemma next_gstate_rows:
  "next_gstate now action result owner sid None remove s = Inr s' \<Longrightarrow> map_of (silences s') \<subseteq>\<^sub>m map_of (silences s)"
  by (auto simp: next_gstate_def Let_def res_iffs map_le_def split: if_split_asm)

lemma append_event_safe:
  assumes "\<And>w s'. I w \<Longrightarrow> next_gstate now action result owner sid create remove (mem w) = Inr s' \<Longrightarrow>
      J (w\<lparr>audit_file := Some (atomic_write (geuid w) (gstate_text s')), mem := s', io_fails := tl (io_fails w)\<rparr>)"
    and "\<And>w. I w \<Longrightarrow> C (w\<lparr>io_fails := tl (io_fails w)\<rparr>)" and "\<And>w. J w \<Longrightarrow> C w"
  shows "safe I (append_event now action result owner sid create remove) (\<lambda>_. J) C"
  unfolding append_event_def
proof (rule safe_seq [where R = "\<lambda>s' w. I w \<and> next_gstate now action result owner sid create remove (mem w) = Inr s'", OF safe_look])
  fix s'
  let ?R = "\<lambda>w. I w \<and> next_gstate now action result owner sid create remove (mem w) = Inr s'"
  have bad: "safe ?R (seq (publish (\<lambda>w. w\<lparr>io_fails := tl (io_fails w)\<rparr>)) (\<lambda>_. fail e)) (\<lambda>_. J) C" for e
    by (rule safe_seq [where R = "\<lambda>_ _. True", OF safe_publish safe_fail]) (auto intro: assms(2))
  have good: "safe ?R (publish (\<lambda>w. w\<lparr>audit_file := Some (atomic_write (geuid w) (gstate_text s')), mem := s',
            io_fails := tl (io_fails w)\<rparr>)) (\<lambda>_. J) C"
    by (rule safe_publish) (auto intro: assms(1,3))
  show "safe ?R (seq (look (\<lambda>w. Inr (io_fails w))) (\<lambda>fails. if fails \<noteq> [] \<and> hd fails then
       seq (publish (\<lambda>w. w\<lparr>io_fails := tl (io_fails w)\<rparr>)) (\<lambda>_. fail (GatewayError ''audit-unavailable''))
     else publish (\<lambda>w. w\<lparr>audit_file := Some (atomic_write (geuid w) (gstate_text s')), mem := s',
            io_fails := tl (io_fails w)\<rparr>))) (\<lambda>_. J) C"
    by (rule safe_seq [where R = "\<lambda>_. ?R", OF safe_look]) (auto intro: safe_if bad good)
qed auto

text \<open>
  \<open>base S D\<close>: nothing but \<open>S\<close> was sent, the journal mirrors the memory, and the silences on record
  are among \<open>D\<close>.
\<close>

definition base :: "(string \<times> string \<times> string option) list \<Rightarrow> (string \<rightharpoonup> pv) \<Rightarrow> gworld \<Rightarrow> bool" where
  "base S D w \<longleftrightarrow> mirrored w \<and> sent w = S \<and> map_of (silences (mem w)) \<subseteq>\<^sub>m D"

lemma expire_safe: "safe (base S D) (expire now) (\<lambda>_. base S D) (base S D)"
  unfolding expire_def
proof (rule safe_seq [where R = "\<lambda>_. base S D", OF safe_look])
  show "base S D w \<Longrightarrow> base S D w" for w .
  have "base S D (w\<lparr>audit_file := Some (atomic_write (geuid w) (gstate_text s')), mem := s', io_fails := f\<rparr>)"
    if "base S D w" "next_gstate now action result owner sid None remove (mem w) = Inr s'" for w s' f action result owner sid remove
    using that(1) map_le_trans [OF next_gstate_rows [OF that(2)]] by (simp add: base_def mirrored_def)
  then show "safe (base S D) (for_each (\<lambda>kv. only_if (elapsed now kv) (append_event now ''expiry'' ''elapsed''
      (Some (str_of (item (dict_of (snd kv)) ''owner''))) (Some (fst kv)) None True)) rows) (\<lambda>_. base S D) (base S D)" for rows
    by (intro safe_for_each safe_only_if append_event_safe) (simp_all add: base_def mirrored_def)
qed

definition attempt :: "string \<Rightarrow> pv \<Rightarrow> bool" where
  "attempt owner e \<longleftrightarrow> item (dict_of e) ''result'' = PStr ''attempt'' \<and> item (dict_of e) ''owner'' = PStr owner"

text \<open>At most one request went out, and one that changes silences was journalled before, by its owner.\<close>

definition justified ::
  "nat \<Rightarrow> (string \<times> string \<times> string option) list \<Rightarrow> (string \<rightharpoonup> pv) \<Rightarrow> string option \<Rightarrow> gworld \<Rightarrow> bool" where
  "justified k S D owner w \<longleftrightarrow> mirrored w \<and> (sent w = S \<or> (\<exists>m p c. sent w = S @ [(m, p, c)]
     \<and> (starts_with ''/api/v2/silence'' p \<longrightarrow> (\<exists>o' e. owner = Some o' \<and> e \<in> recent k (audit (mem w)) \<and> attempt o' e
          \<and> (m = ''DELETE'' \<longrightarrow> (\<exists>sid v. p = ''/api/v2/silence/'' @ sid \<and> D sid = Some v \<and> item (dict_of v) ''owner'' = PStr o'))))))"

lemma justified_mono: "justified j S D owner w \<Longrightarrow> j \<le> k \<Longrightarrow> justified k S D owner w"
  using recent_mono [of j k "audit (mem w)"] unfolding justified_def by blast

lemma base_justified: "base S D w \<Longrightarrow> justified k S D owner w"
  by (simp add: base_def justified_def)

lemma justified_append:
  assumes "justified k S D owner w" "k < 1023" "next_gstate now action result o' sid create remove (mem w) = Inr s'"
  shows "justified (Suc k) S D owner (w\<lparr>audit_file := Some (atomic_write (geuid w) (gstate_text s')), mem := s', io_fails := f\<rparr>)"
  using assms(1,2) recent_Suc [of _ k "audit (mem w)"] next_gstate_audit [OF assms(3)]
  unfolding justified_def by (auto simp: mirrored_def)

lemma append_justified:
  "k < 1023 \<Longrightarrow> safe (justified k S D owner) (append_event now action result o' sid create remove)
     (\<lambda>_. justified (Suc k) S D owner) (justified (Suc k) S D owner)"
  by (rule append_event_safe)
     (auto intro: justified_append, auto simp: justified_def mirrored_def dest: recent_mono [of k "Suc k", THEN subsetD, rotated])

lemma report_justified:
  "safe (justified 2 S D owner) (report now r o' category status) (\<lambda>_. justified 3 S D owner) (justified 3 S D owner)"
  unfolding report_def
proof (rule safe_handle [where I = "justified 3 S D owner"])
  have "safe (justified 2 S D owner) (append_event now (action_of r) category o' None None False)
      (\<lambda>_. justified 3 S D owner) (justified 3 S D owner)"
    using append_justified [of 2] by (simp add: numeral_3_eq_3 numeral_2_eq_2)
  then show s: "safe (justified 2 S D owner) (seq (append_event now (action_of r) category o' None None False) (\<lambda>_. ret (status, category)))
      (\<lambda>_. justified 3 S D owner) (justified 3 S D owner)"
    by (rule safe_seq) (auto intro: safe_ret)
  then show "safe (justified 2 S D owner) (seq (append_event now (action_of r) category o' None None False) (\<lambda>_. ret (status, category)))
      (\<lambda>_ _. True) (justified 3 S D owner)" by (rule safe_weaken) auto
  show "justified 2 S D owner w \<Longrightarrow> justified 3 S D owner w" for w by (erule justified_mono) simp
  show "safe (justified 3 S D owner) (case e of GatewayError _ \<Rightarrow> ret (503, ''audit-unavailable'') | GRaised x \<Rightarrow> fail (GRaised x))
      (\<lambda>_. justified 3 S D owner) (justified 3 S D owner)" for e
    by (cases e) (auto intro: safe_ret safe_fail)
qed

lemma recover_justified:
  "safe (justified 2 S D owner) (recover now r o' e) (\<lambda>_. justified 3 S D owner) (justified 3 S D owner)"
  unfolding recover_def by (cases e) (auto intro: report_justified safe_fail)

text \<open>A journalled attempt, then the request it announces.\<close>

definition announced :: "(string \<times> string \<times> string option) list \<Rightarrow> string \<Rightarrow> gworld \<Rightarrow> bool" where
  "announced S o' w \<longleftrightarrow> mirrored w \<and> sent w = S \<and> (\<exists>e \<in> recent 1 (audit (mem w)). attempt o' e)"

lemma append_attempt:
  "safe (base S D) (append_event now action ''attempt'' (Some o') sid None False) (\<lambda>_. announced S o') (justified 2 S D owner)"
proof (rule append_event_safe)
  fix w s'
  assume b: "base S D w" and n: "next_gstate now action ''attempt'' (Some o') sid None False (mem w) = Inr s'"
  have "attempt o' (audit_event now action ''attempt'' (Some o') sid None)"
    by (simp add: attempt_def audit_event_def owner_value_def)
  with b next_gstate_audit [OF n] recent_append show "announced S o' (w\<lparr>audit_file := Some (atomic_write (geuid w) (gstate_text s')),
      mem := s', io_fails := tl (io_fails w)\<rparr>)"
    unfolding announced_def by (auto simp: base_def mirrored_def)
qed (auto simp: base_def announced_def justified_def mirrored_def)

lemma backend_request_safe:
  assumes "\<And>w. I w \<Longrightarrow> J (w\<lparr>sent := sent w @ [(m, p, c)]\<rparr>)" "\<And>w. J w \<Longrightarrow> C w"
  shows "safe I (backend_request answer m p c) (\<lambda>_. J) C"
  unfolding backend_request_def
  by (rule safe_seq [where R = "\<lambda>_. J", OF safe_publish])
     (auto intro: assms safe_fail safe_ret split: option.split)

lemma announced_request:
  assumes "m = ''DELETE'' \<longrightarrow> (\<exists>sid v. p = ''/api/v2/silence/'' @ sid \<and> D sid = Some v \<and> item (dict_of v) ''owner'' = PStr o')"
  shows "safe (announced S o') (backend_request answer m p c) (\<lambda>_. justified 1 S D (Some o')) (justified 2 S D (Some o'))"
proof (rule backend_request_safe)
  show "announced S o' w \<Longrightarrow> justified 1 S D (Some o') (w\<lparr>sent := sent w @ [(m, p, c)]\<rparr>)" for w
    using assms unfolding announced_def justified_def by (auto simp: mirrored_def)
  show "justified 1 S D (Some o') w \<Longrightarrow> justified 2 S D (Some o') w" for w by (erule justified_mono) simp
qed

lemma append_last:
  "safe (justified 1 S D owner) (seq (append_event now action result o' sid create remove) (\<lambda>_. ret a)) (\<lambda>_ _. True) (justified 2 S D owner)"
proof -
  have "safe (justified 1 S D owner) (append_event now action result o' sid create remove) (\<lambda>_. justified 2 S D owner) (justified 2 S D owner)"
    using append_justified [of 1] by (simp add: numeral_2_eq_2)
  then show ?thesis by (rule safe_seq) (auto intro: safe_ret)
qed

lemma append_refusal:
  "safe (base S D) (seq (append_event now action result o' sid create remove) (\<lambda>_. ret a)) (\<lambda>_ _. True) (justified 2 S D owner)"
  by (rule safe_weaken [OF append_last]) (auto intro: base_justified)

lemma expire_justified: "safe (base S D) (expire now) (\<lambda>_. base S D) (justified 2 S D owner)"
  by (rule safe_weaken [OF expire_safe]) (auto intro: base_justified)

lemma forward_justified:
  assumes "\<not> starts_with ''/api/v2/silence'' (path r)"
  shows "safe (base S D) (forward r answer) (\<lambda>_ _. True) (justified 2 S D owner)"
  unfolding forward_def
proof (rule safe_seq [where R = "\<lambda>_. base S D", OF safe_look])
  show "safe (base S D) (seq (backend_request answer (command r) (path r) content) (\<lambda>text. ret (200, text)))
      (\<lambda>_ _. True) (justified 2 S D owner)" for content
    by (rule safe_seq [OF backend_request_safe [where J = "justified 2 S D owner"]])
       (use assms in \<open>auto simp: base_def justified_def mirrored_def intro: safe_ret\<close>)
qed

lemma delete_justified:
  "safe (base S D) (delete_silence uuid now o' r answer) (\<lambda>_ _. True) (justified 2 S D (Some o'))"
  unfolding delete_silence_def Let_def
proof (rule safe_seq [where R = "\<lambda>_. base S D", OF safe_look], assumption, rule safe_seq [OF expire_justified])
  fix u1 u2
  define sid where "sid = drop (length silence_prefix) (path r)"
  have own: "safe (base S D) (seq (append_event now ''delete'' ''attempt'' (Some o') (Some sid) None False) (\<lambda>_.
        seq (backend_request answer ''DELETE'' (''/api/v2/silence/'' @ sid) None) (\<lambda>_.
        seq (append_event now ''delete'' ''deleted'' (Some o') (Some sid) None True) (\<lambda>_. ret (200, sid)))))
      (\<lambda>_ _. True) (justified 2 S D (Some o'))" if "D sid = Some v" "item (dict_of v) ''owner'' = PStr o'" for v
    using that by (intro safe_seq [OF append_attempt] safe_seq [OF announced_request] append_last) auto
  show "safe (base S D) (seq (look (\<lambda>w. Inr (map_of (silences (mem w)) sid))) (\<lambda>row.
      if (case row of None \<Rightarrow> True | Some v \<Rightarrow> item (dict_of v) ''owner'' \<noteq> PStr o') then
        seq (append_event now ''delete'' ''refused'' (Some o') None None False) (\<lambda>_. ret (403, ''delete-refused''))
      else seq (append_event now ''delete'' ''attempt'' (Some o') (Some sid) None False) (\<lambda>_.
        seq (backend_request answer ''DELETE'' (''/api/v2/silence/'' @ sid) None) (\<lambda>_.
        seq (append_event now ''delete'' ''deleted'' (Some o') (Some sid) None True) (\<lambda>_. ret (200, sid))))))
      (\<lambda>_ _. True) (justified 2 S D (Some o'))"
  proof (rule safe_seq [where R = "\<lambda>row w. base S D w \<and> (\<forall>v. row = Some v \<longrightarrow> D sid = Some v)", OF safe_look])
    fix row
    show "safe (\<lambda>w. base S D w \<and> (\<forall>v. row = Some v \<longrightarrow> D sid = Some v)) (if (case row of None \<Rightarrow> True | Some v \<Rightarrow> item (dict_of v) ''owner'' \<noteq> PStr o') then
        seq (append_event now ''delete'' ''refused'' (Some o') None None False) (\<lambda>_. ret (403, ''delete-refused''))
      else seq (append_event now ''delete'' ''attempt'' (Some o') (Some sid) None False) (\<lambda>_.
        seq (backend_request answer ''DELETE'' (''/api/v2/silence/'' @ sid) None) (\<lambda>_.
        seq (append_event now ''delete'' ''deleted'' (Some o') (Some sid) None True) (\<lambda>_. ret (200, sid)))))
      (\<lambda>_ _. True) (justified 2 S D (Some o'))"
    proof (rule safe_pre_pure, rule safe_if, rule append_refusal)
      assume D: "\<forall>v. row = Some v \<longrightarrow> D sid = Some v" and "\<not> (case row of None \<Rightarrow> True | Some v \<Rightarrow> item (dict_of v) ''owner'' \<noteq> PStr o')"
      then obtain v where "D sid = Some v" "item (dict_of v) ''owner'' = PStr o'" by (auto split: option.splits)
      then show "safe (base S D) (seq (append_event now ''delete'' ''attempt'' (Some o') (Some sid) None False) (\<lambda>_.
        seq (backend_request answer ''DELETE'' (''/api/v2/silence/'' @ sid) None) (\<lambda>_.
        seq (append_event now ''delete'' ''deleted'' (Some o') (Some sid) None True) (\<lambda>_. ret (200, sid)))))
        (\<lambda>_ _. True) (justified 2 S D (Some o'))" by (rule own)
    qed
  qed (auto simp: base_def map_le_def dom_def)
qed

lemma create_justified:
  "safe (base S D) (create_silence uuid strptime srv now o' r answer) (\<lambda>_ _. True) (justified 2 S D (Some o'))"
  unfolding create_silence_def
proof (rule safe_seq [where R = "\<lambda>_. base S D", OF safe_look], assumption)
  fix x :: "dict \<times> int"
  obtain request expiry where x: "x = (request, expiry)" by fastforce
  show "safe (base S D) ((\<lambda>(request, expiry). seq (expire now) (\<lambda>_.
     seq (look (\<lambda>w. refuse_if (256 \<le> length (silences (mem w))) (GatewayError ''audit-capacity''))) (\<lambda>_.
     seq (append_event now ''create'' ''attempt'' (Some o') None None False) (\<lambda>_.
     seq (backend_request answer ''POST'' ''/api/v2/silences'' (Some (dumps (silence_payload o' request)))) (\<lambda>text.
     seq (look (\<lambda>_. silence_id_of uuid text)) (\<lambda>sid.
     seq (append_event now ''create'' ''created'' (Some o') (Some sid) (Some (silence_row o' expiry request)) False) (\<lambda>_.
     ret (201, sid)))))))) x) (\<lambda>_ _. True) (justified 2 S D (Some o'))"
    unfolding x prod.case
    by (rule safe_seq [OF expire_justified], rule safe_seq [where R = "\<lambda>_. base S D", OF safe_look], assumption,
        rule safe_seq [OF append_attempt], rule safe_seq [OF announced_request], simp,
        rule safe_seq [where R = "\<lambda>_. justified 1 S D (Some o')", OF safe_look], assumption, rule append_last)
qed

lemma route_justified:
  "safe (base S D) (route uuid strptime srv now owner r answer) (\<lambda>_ _. True) (justified 2 S D owner)"
proof -
  have "\<not> starts_with ''/api/v2/silence'' (path r)" if "allowed owner r"
    using that by (auto simp: allowed_def starts_with_def)
  then show ?thesis
    unfolding route_def
    by (cases owner) (auto intro: forward_justified delete_justified create_justified append_refusal)
qed

lemma dispatch_justified:
  assumes "base S D w" "w' \<in> set (steps (dispatch hash uuid strptime srv now r answer) w)"
  shows "\<exists>owner. justified 3 S D owner w' \<and> (\<forall>o'. owner = Some o' \<longrightarrow>
     length (authorizations r) = 1 \<and> owner_of hash (auth srv) (hd (authorizations r)) = Inr owner)"
proof -
  let ?who = "if length (authorizations r) \<noteq> 1 then Inl (GatewayError ''unauthenticated'')
            else owner_of hash (auth srv) (hd (authorizations r))"
  show ?thesis
  proof (cases ?who)
    case (Inl e)
    have "safe (base S D) (recover now r None e) (\<lambda>_ _. True) (justified 3 S D None)"
      by (rule safe_weaken [OF recover_justified]) (auto intro: base_justified)
    from safe_stepsD [OF this assms(1), of w'] assms(2) Inl show ?thesis
      unfolding dispatch_def by (intro exI [of _ None]) simp
  next
    case (Inr owner)
    have "safe (base S D) (handle (route uuid strptime srv now owner r answer) (recover now r owner)) (\<lambda>_ _. True) (justified 3 S D owner)"
    proof (rule safe_handle [where I = "justified 2 S D owner"])
      show "safe (base S D) (route uuid strptime srv now owner r answer) (\<lambda>_ _. True) (justified 2 S D owner)" by (rule route_justified)
      then show "safe (base S D) (route uuid strptime srv now owner r answer) (\<lambda>_ _. True) (justified 3 S D owner)"
        by (rule safe_weaken) (auto elim: justified_mono)
      show "safe (justified 2 S D owner) (recover now r owner e) (\<lambda>_ _. True) (justified 3 S D owner)" for e
        by (rule safe_weaken [OF recover_justified]) auto
    qed (rule base_justified)
    from safe_stepsD [OF this assms(1), of w'] assms(2) Inr show ?thesis
      unfolding dispatch_def by (intro exI [of _ owner]) (simp split: if_split_asm)
  qed
qed

lemma append_run:
  assumes "outcome (append_event now action result owner sid create remove) w = Inr u"
  shows "\<exists>s'. next_gstate now action result owner sid create remove (mem w) = Inr s'
     \<and> after (append_event now action result owner sid create remove) w =
         w\<lparr>audit_file := Some (atomic_write (geuid w) (gstate_text s')), mem := s', io_fails := tl (io_fails w)\<rparr>"
  using assms unfolding append_event_def
  by (auto elim!: seq_InrE simp: run_prims split: if_split_asm)

lemma delete_middle:
  "distinct (map fst (xs @ kv # ys)) \<Longrightarrow> AList.delete (fst kv) (xs @ kv # ys) = xs @ ys"
  by (induction xs) (force simp: AList.delete_eq filter_id_conv)+

lemma expire_rows:
  assumes "outcome (for_each (\<lambda>kv. only_if (elapsed now kv) (append_event now ''expiry'' ''elapsed''
      (Some (str_of (item (dict_of (snd kv)) ''owner''))) (Some (fst kv)) None True)) rows) w = Inr u"
    "silences (mem w) = kept @ rows" "distinct (map fst (kept @ rows))"
  shows "silences (mem (after (for_each (\<lambda>kv. only_if (elapsed now kv) (append_event now ''expiry'' ''elapsed''
      (Some (str_of (item (dict_of (snd kv)) ''owner''))) (Some (fst kv)) None True)) rows) w)) = kept @ filter (\<lambda>kv. \<not> elapsed now kv) rows"
  using assms
proof (induction rows arbitrary: w kept)
  case Nil
  then show ?case by simp
next
  case (Cons kv rows)
  let ?one = "only_if (elapsed now kv) (append_event now ''expiry'' ''elapsed''
      (Some (str_of (item (dict_of (snd kv)) ''owner''))) (Some (fst kv)) None True)"
  let ?rest = "for_each (\<lambda>kv. only_if (elapsed now kv) (append_event now ''expiry'' ''elapsed''
      (Some (str_of (item (dict_of (snd kv)) ''owner''))) (Some (fst kv)) None True)) rows"
  from Cons.prems(1) have one: "outcome ?one w = Inr ()" and rest: "outcome ?rest (after ?one w) = Inr u"
    and aft: "after (seq ?one (\<lambda>_. ?rest)) w = after ?rest (after ?one w)"
    by (auto elim!: seq_InrE)
  show ?case
  proof (cases "elapsed now kv")
    case True
    from one True obtain s' where s': "next_gstate now ''expiry'' ''elapsed'' (Some (str_of (item (dict_of (snd kv)) ''owner'')))
        (Some (fst kv)) None True (mem w) = Inr s'" "mem (after ?one w) = s'"
      by (auto simp: only_if_def dest!: append_run)
    from s'(1) have "silences s' = AList.delete (fst kv) (silences (mem w))"
      by (auto simp: next_gstate_def Let_def res_iffs split: if_split_asm)
    with s'(2) have "silences (mem (after ?one w)) = kept @ rows"
      using Cons.prems(2) delete_middle [OF Cons.prems(3)] by simp
    with Cons.IH [OF rest, of kept] Cons.prems(3) True show ?thesis unfolding for_each.simps aft by simp
  next
    case False
    then have "silences (mem (after ?one w)) = (kept @ [kv]) @ rows" using Cons.prems(2) by (simp add: only_if_def)
    from Cons.IH [OF rest this] Cons.prems(3) False show ?thesis unfolding for_each.simps aft by simp
  qed
qed

section \<open>The journal reads back\<close>

definition row_ok :: "(string \<Rightarrow> string option) \<Rightarrow> string \<times> pv \<Rightarrow> bool" where
  "row_ok uuid kv \<longleftrightarrow> is_ascii (fst kv) \<and> plain (snd kv) \<and> check_row uuid kv = Inr ()"

definition gstate_ok :: "(string \<Rightarrow> string option) \<Rightarrow> gstate \<Rightarrow> bool" where
  "gstate_ok uuid s \<longleftrightarrow> gschema s = PInt 1 \<and> distinct (map fst (silences s)) \<and> list_all (row_ok uuid) (silences s)
     \<and> length (silences s) \<le> 256 \<and> length (audit s) \<le> 1024 \<and> list_all plain (audit s)
     \<and> length (gstate_text s) \<le> 1048576"

lemma keys_sorted: "set (map fst (dict_of (sort_keys (PDict d)))) = set (map fst d)"
  by (simp add: image_image)

lemma check_row_sorted:
  assumes "row_ok uuid (k, v)"
  shows "check_row uuid (k, sort_keys v) = Inr ()"
proof -
  from assms have v: "check_row uuid (k, v) = Inr ()" "plain v" by (simp_all add: row_ok_def)
  then obtain d where d: "v = PDict d" by (auto simp: check_row_def pv_test_iff Let_def res_iffs split: option.splits if_split_asm)
  with v(2) have dist: "distinct (map fst d)" by simp
  obtain e where e: "sort_keys v = PDict e" using d by simp
  have item: "item e f = sort_keys (item d f)" for f using item_sorted [OF dist, of f] d e by simp
  have keys: "keys_are e ks \<longleftrightarrow> keys_are d ks" for ks
    using keys_sorted [of d] e d by (simp add: keys_are_iff del: sort_keys.simps)
  show ?thesis
    using v(1) d unfolding e
    by (auto simp: check_row_def Let_def item keys pv_test_iff split: option.splits if_split_asm)
qed

lemma journal_reads_back:
  assumes "gstate_ok uuid s"
  shows "load_journal uuid uid (Some (atomic_write uid (gstate_text s))) =
     Inr \<lparr>gschema = PInt 1, silences = dict_of (sort_keys (PDict (silences s))), audit = map sort_keys (audit s)\<rparr>"
proof -
  have p: "plain (PDict (gstate_dict s))"
    using assms by (auto simp: gstate_ok_def gstate_dict_def row_ok_def list_all_iff is_ascii_def show_nat_small)
  have dist: "distinct (map fst (gstate_dict s))" by (simp add: gstate_dict_def)
  obtain e where e: "sort_keys (PDict (gstate_dict s)) = PDict e" by simp
  have keys: "keys_are e [''schema_version'', ''silences'', ''audit'']"
    using keys_sorted [of "gstate_dict s"] e by (auto simp: keys_are_iff gstate_dict_def simp del: sort_keys.simps)
  have item: "item e f = sort_keys (item (gstate_dict s) f)" for f using item_sorted [OF dist, of f] e by simp
  have rows: "each (check_row uuid) (dict_of (sort_keys (PDict (silences s)))) = Inr ()"
    using assms by (auto simp: each_Inr gstate_ok_def list_all_iff intro!: check_row_sorted)
  have "read_gstate uuid (PDict e) = Inr \<lparr>gschema = PInt 1, silences = dict_of (sort_keys (PDict (silences s))), audit = map sort_keys (audit s)\<rparr>"
    using assms keys rows by (simp add: read_gstate_def item gstate_ok_def gstate_dict_def Let_def)
  moreover have "decode_json plain_hook (gstate_text s) = Inr (PDict e)"
    using decode_json_line [OF keeps_distinct_plain p] e by (simp add: gstate_text_def)
  ultimately show ?thesis using assms by (simp add: load_journal_def gstate_ok_def)
qed

lemma next_gstate_ok:
  assumes "gstate_ok uuid s" "next_gstate now action result owner sid create remove s = Inr s'"
    and "plain (audit_event now action result owner sid create)"
    and "\<And>row. create = Some row \<Longrightarrow> \<exists>i. sid = Some i \<and> row_ok uuid (i, PDict row)"
  shows "gstate_ok uuid s'"
proof -
  from assms(2) obtain grown kept where
    grown: "(case create of None \<Rightarrow> Inr (silences s)
        | Some row \<Rightarrow> if has_key (silences s) (case sid of None \<Rightarrow> [] | Some i \<Rightarrow> i) \<or> 256 \<le> length (silences s) then Inl (GatewayError ''audit-capacity'')
            else Inr (AList.update (case sid of None \<Rightarrow> [] | Some i \<Rightarrow> i) (PDict row) (silences s))) = Inr grown"
    and kept: "kept = grown \<or> (\<exists>i. kept = AList.delete i grown)"
    and s': "s' = s\<lparr>silences := kept, audit := last_1024 (audit s @ [audit_event now action result owner sid create])\<rparr>"
      "length (gstate_text s') \<le> 1048576"
    unfolding next_gstate_def Let_def res_iffs by (auto simp: not_less split: if_split_asm)
  have g: "distinct (map fst grown) \<and> list_all (row_ok uuid) grown \<and> length grown \<le> 256"
  proof (cases create)
    case None
    with grown assms(1) show ?thesis by (simp add: gstate_ok_def)
  next
    case (Some row)
    with assms(4) obtain i where i: "sid = Some i" "row_ok uuid (i, PDict row)" by blast
    with Some grown have "grown = AList.update i (PDict row) (silences s)" "\<not> has_key (silences s) i" "length (silences s) < 256"
      by (auto split: if_split_asm)
    moreover from this have "length grown = Suc (length (silences s))"
      by (simp add: has_key_def length_update_new)
    ultimately show ?thesis
      using assms(1) i set_update_subset [of i "PDict row" "silences s"]
      by (auto simp: gstate_ok_def distinct_update list_all_iff)
  qed
  have "distinct (map fst kept) \<and> list_all (row_ok uuid) kept \<and> length kept \<le> 256"
    using kept g set_delete_subset [of _ grown] length_delete_le [of _ grown]
    by (auto simp: distinct_delete list_all_iff intro: le_trans)
  moreover have "length (audit s') \<le> 1024 \<and> list_all plain (audit s')"
    using assms(1,3) s'(1) by (auto simp: last_1024_def gstate_ok_def list_all_iff dest: in_set_dropD)
  ultimately show ?thesis using assms(1) s' by (simp add: gstate_ok_def)
qed

section \<open>The claims\<close>

text \<open>
  C4: who changes silences. While the gateway handles any request, cut off at any step, at most one
  request reaches Alertmanager; if it concerns a silence, then the caller was authenticated as a named
  owner (never as the alert sender), the audit trail already holds that owner's attempt, in memory and
  in the file alike; and if it deletes a silence, the journal had that silence on record for that owner.
\<close>

theorem silence_changes_authorized:
  assumes "mirrored w" "w' \<in> set (steps (dispatch hash uuid strptime srv now r answer) w)"
  shows "mirrored w' \<and> (sent w' = sent w \<or> (\<exists>m p c. sent w' = sent w @ [(m, p, c)]
     \<and> (starts_with ''/api/v2/silence'' p \<longrightarrow> (\<exists>owner e.
          length (authorizations r) = 1 \<and> owner_of hash (auth srv) (hd (authorizations r)) = Inr (Some owner)
          \<and> e \<in> set (audit (mem w')) \<and> attempt owner e
          \<and> (m = ''DELETE'' \<longrightarrow> (\<exists>sid v. p = ''/api/v2/silence/'' @ sid \<and> map_of (silences (mem w)) sid = Some v
                \<and> item (dict_of v) ''owner'' = PStr owner))))))"
proof -
  have "base (sent w) (map_of (silences (mem w))) w" using assms(1) by (simp add: base_def)
  from dispatch_justified [OF this assms(2)] obtain owner where
    j: "justified 3 (sent w) (map_of (silences (mem w))) owner w'"
    and o: "\<And>o'. owner = Some o' \<Longrightarrow> length (authorizations r) = 1 \<and> owner_of hash (auth srv) (hd (authorizations r)) = Inr owner"
    by blast
  have "recent 3 (audit (mem w')) \<subseteq> set (audit (mem w'))" by (auto simp: recent_def dest: in_set_dropD)
  with j o show ?thesis unfolding justified_def by blast
qed

definition sample_server :: gserver where
  "sample_server = \<lparr>pol = \<lparr>environment = ''prod'', max_ttl_seconds = 3600\<rparr>,
     auth = \<lparr>owners = [(''ops'', ''d'')], sender_token_sha256 = ''s''\<rparr>\<rparr>"

definition sample_row :: dict where
  "sample_row = [(''owner'', PStr ''ops''), (''expires_at'', PInt 200), (''scope'', PDict []), (''reason'', PStr ''x'')]"

definition sample_gstate :: gstate where
  "sample_gstate = \<lparr>gschema = PInt 1, silences = [(''u'', PDict sample_row)], audit = []\<rparr>"

definition sample_gworld :: gworld where
  "sample_gworld = \<lparr>audit_file = Some (atomic_write 0 (gstate_text sample_gstate)), mem = sample_gstate, io_fails = [],
     sent = [], geuid = 0\<rparr>"

definition sample_delete :: grequest where
  "sample_delete = \<lparr>command = ''DELETE'', path = ''/v1/silences/u'', authorizations = [''Bearer '' @ replicate 64 (CHR ''0'')],
     content_lengths = [], transfer_encoding = None, json_content = False, payload = []\<rparr>"

lemma sample_attempt:
  "next_gstate 100 ''delete'' ''attempt'' (Some ''ops'') (Some ''u'') None False sample_gstate =
     Inr (sample_gstate\<lparr>audit := [audit_event 100 ''delete'' ''attempt'' (Some ''ops'') (Some ''u'') None]\<rparr>)"
  by (simp add: next_gstate_def sample_gstate_def sample_row_def audit_event_def owner_value_def last_1024_def gstate_text_def
      length_dumps_sorted gstate_dict_def length_join show_int_def show_nat.simps quote_unescaped unescaped_def)

lemma sample_delete_sent:
  "\<exists>w' \<in> set (steps (dispatch (\<lambda>_. ''d'') Some (\<lambda>_. None) sample_server 100 sample_delete (Some (200, []))) sample_gworld).
     sent w' = [(''DELETE'', ''/api/v2/silence/u'', None)]"
proof -
  define s1 where "s1 = sample_gstate\<lparr>audit := [audit_event 100 ''delete'' ''attempt'' (Some ''ops'') (Some ''u'') None]\<rparr>"
  define w1 where "w1 = sample_gworld\<lparr>audit_file := Some (atomic_write 0 (gstate_text s1)), mem := s1\<rparr>"
  have e: "expire 100 sample_gworld = ([], Inr ())"
    by (simp add: expire_def seq_look sample_gworld_def sample_gstate_def sample_row_def elapsed_def only_if_def run_prims)
  have a: "append_event 100 ''delete'' ''attempt'' (Some ''ops'') (Some ''u'') None False sample_gworld = ([w1], Inr ())"
    using sample_attempt by (simp add: append_event_def seq_look sample_gworld_def run_prims w1_def s1_def)
  have sw: "sent w1 = []" by (simp add: w1_def sample_gworld_def)
  have row: "map_of (silences (mem sample_gworld)) ''u'' = Some (PDict sample_row)"
    by (simp add: sample_gworld_def sample_gstate_def)
  have "w1\<lparr>sent := [(''DELETE'', ''/api/v2/silence/u'', None)]\<rparr> \<in>
      set (steps (delete_silence Some 100 ''ops'' sample_delete (Some (200, []))) sample_gworld)"
    unfolding delete_silence_def Let_def
    by (simp add: seq_look seq_step [of "expire 100" sample_gworld, OF e]
        seq_step [of "append_event 100 ''delete'' ''attempt'' (Some ''ops'') (Some ''u'') None False" sample_gworld, OF a] row sample_delete_def silence_prefix_def framed_empty_def encoded_def
        refuse_if_eval sample_row_def backend_request_def seq_assoc seq_publish sw)
  moreover have "route Some (\<lambda>_. None) sample_server 100 (Some ''ops'') sample_delete (Some (200, []))
      = delete_silence Some 100 ''ops'' sample_delete (Some (200, []))"
    by (simp add: route_def allowed_def sample_delete_def silence_prefix_def starts_with_def)
  moreover have "owner_of (\<lambda>_. ''d'') (auth sample_server) (hd (authorizations sample_delete)) = Inr (Some ''ops'')"
    by (simp add: owner_of_def sample_server_def sample_delete_def starts_with_def TOKEN_def hex64_def repeated_def list_all_iff
        is_hex_def is_digit_def Let_def)
  moreover have "length (authorizations sample_delete) = 1" by (simp add: sample_delete_def)
  ultimately show ?thesis
    by (intro bexI [of _ "w1\<lparr>sent := [(''DELETE'', ''/api/v2/silence/u'', None)]\<rparr>"])
       (simp_all add: dispatch_def handle_steps)
qed

theorem silence_changes_authorized_witness:
  "\<exists>w' \<in> set (steps (dispatch (\<lambda>_. ''d'') Some (\<lambda>_. None) sample_server 100 sample_delete (Some (200, []))) sample_gworld).
     sent w' = [(''DELETE'', ''/api/v2/silence/u'', None)] \<and> (\<exists>e \<in> set (audit (mem w')). attempt ''ops'' e)"
proof -
  obtain w' where w': "w' \<in> set (steps (dispatch (\<lambda>_. ''d'') Some (\<lambda>_. None) sample_server 100 sample_delete (Some (200, []))) sample_gworld)"
    "sent w' = [(''DELETE'', ''/api/v2/silence/u'', None)]" using sample_delete_sent by blast
  have "mirrored sample_gworld" by (simp add: mirrored_def sample_gworld_def)
  from silence_changes_authorized [OF this w'(1)] w' have "\<exists>owner e. owner_of (\<lambda>_. ''d'') (auth sample_server) (hd (authorizations sample_delete)) = Inr (Some owner)
      \<and> e \<in> set (audit (mem w')) \<and> attempt owner e"
    by (auto simp: sample_gworld_def starts_with_def)
  then have "\<exists>e \<in> set (audit (mem w')). attempt ''ops'' e"
    by (auto simp: owner_of_def sample_server_def Let_def split: if_split_asm)
  with w' show ?thesis by blast
qed


definition sample_silence :: pv where
  "sample_silence = PDict [(''schema_version'', PInt 1), (''reason'', PStr ''upgrade''), (''starts_at'', PStr ''a''),
     (''ends_at'', PStr ''b''), (''matchers'', PDict [(''environment'', PStr ''prod''), (''node'', PStr ''n'')])]"


text \<open>
  Expiry. When \<open>expire\<close> ends normally, the silences on record are exactly those whose time has
  not come, in their order; nothing was sent to Alertmanager.
\<close>

theorem expire_exact:
  assumes "outcome (expire now) w = Inr u" "distinct (map fst (silences (mem w)))" "mirrored w"
  shows "silences (mem (after (expire now) w)) = filter (\<lambda>kv. \<not> elapsed now kv) (silences (mem w))
     \<and> sent (after (expire now) w) = sent w \<and> mirrored (after (expire now) w)"
proof -
  have "base (sent w) (map_of (silences (mem w))) w" using assms(3) by (simp add: base_def)
  from safe_outcomeD [OF expire_safe this assms(1)]
  have "sent (after (expire now) w) = sent w" "mirrored (after (expire now) w)" by (simp_all add: base_def)
  with assms expire_rows [where kept = "[]"] show ?thesis
    unfolding expire_def by (auto elim!: seq_InrE simp: run_prims)
qed

theorem expire_exact_witness:
  "silences (mem (after (expire 100) sample_gworld)) = [(''u'', PDict sample_row)]"
proof -
  have "expire 100 sample_gworld = ([], Inr ())"
    by (simp add: expire_def seq_look sample_gworld_def sample_gstate_def sample_row_def elapsed_def only_if_def run_prims)
  then have "outcome (expire 100) sample_gworld = Inr ()" by simp
  from expire_exact [OF this] show ?thesis
    by (simp add: sample_gworld_def sample_gstate_def mirrored_def elapsed_def sample_row_def)
qed

text \<open>
  C30: restart. Appending to a well-formed journal keeps it well formed (at most 256 silences and
  1024 audit entries, in at most one mebibyte), and the file that the append leaves is read back by
  the next start as the state in memory, up to the order of keys.
\<close>

theorem journal_survives_restart:
  assumes "gstate_ok uuid (mem w)" "outcome (append_event now action result owner sid create remove) w = Inr u"
    and "plain (audit_event now action result owner sid create)"
    and "\<And>row. create = Some row \<Longrightarrow> \<exists>i. sid = Some i \<and> row_ok uuid (i, PDict row)"
  shows "let w' = after (append_event now action result owner sid create remove) w in
     gstate_ok uuid (mem w') \<and> (\<exists>t. load_journal uuid (geuid w') (audit_file w') = Inr t
       \<and> py_eq (PDict (silences t)) (PDict (silences (mem w'))) \<and> py_eq (PList (audit t)) (PList (audit (mem w'))))"
proof -
  obtain s' where s': "next_gstate now action result owner sid create remove (mem w) = Inr s'"
    "after (append_event now action result owner sid create remove) w =
       w\<lparr>audit_file := Some (atomic_write (geuid w) (gstate_text s')), mem := s', io_fails := tl (io_fails w)\<rparr>"
    using append_run [OF assms(2)] by blast
  have ok: "gstate_ok uuid s'" using next_gstate_ok [OF assms(1) s'(1) assms(3,4)] .
  then have "plain (PDict (silences s'))" "plain (PList (audit s'))"
    by (auto simp: gstate_ok_def row_ok_def list_all_iff)
  from this [THEN py_eq_sort_keys] journal_reads_back [OF ok] ok show ?thesis
    by (auto simp: s'(2) Let_def)
qed

theorem journal_survives_restart_witness:
  "gstate_ok Some (sample_gstate\<lparr>audit := [audit_event 100 ''delete'' ''attempt'' (Some ''ops'') (Some ''u'') None]\<rparr>)"
proof -
  define s1 where "s1 = sample_gstate\<lparr>audit := [audit_event 100 ''delete'' ''attempt'' (Some ''ops'') (Some ''u'') None]\<rparr>"
  have a: "append_event 100 ''delete'' ''attempt'' (Some ''ops'') (Some ''u'') None False sample_gworld =
      ([sample_gworld\<lparr>audit_file := Some (atomic_write 0 (gstate_text s1)), mem := s1\<rparr>], Inr ())"
    using sample_attempt by (simp add: append_event_def seq_look sample_gworld_def run_prims s1_def)
  have ok: "gstate_ok Some (mem sample_gworld)"
    by (simp add: gstate_ok_def sample_gworld_def sample_gstate_def sample_row_def row_ok_def check_row_def keys_are_iff is_ascii_def
        ALIAS_def head_tail_def is_alnum_def is_lower_def gstate_text_def length_dumps_sorted gstate_dict_def length_join show_int_def show_nat.simps
        quote_unescaped unescaped_def Let_def)
  have "plain (audit_event 100 ''delete'' ''attempt'' (Some ''ops'') (Some ''u'') None)"
    by (simp add: audit_event_def owner_value_def is_ascii_def show_nat.simps)
  from journal_survives_restart [where w = sample_gworld, OF ok _ this, of False "()"] a show ?thesis
    by (simp add: after_def s1_def)
qed

end
