(* ===== verification/TelegramRelay.thy ===== *)
theory TelegramRelay
  imports Json "HOL-Library.Sublist"
begin

text \<open>
  The relay from Alertmanager webhooks to Telegram
  (\<^verbatim>\<open>ansible/roles/observability_control_plane/files/observability-telegram-relay.py\<close>).

  The world is what the process keeps: the receipts file and their copy in memory, the flood-control
  deadline, the drill receipt, and, as a ghost, the requests sent to Telegram with the monotonic time
  at which each was sent. The writes to come may fail before or after the file is replaced
  (\<open>faults\<close>). The two requests a delivery may make are \<open>call\<close>s, which say whether the attempt lock
  was free, what the clock showed and what Telegram answered; a thread holds that lock for the whole
  attempt, so an attempt is one program.

  A text is its UTF-8 form. \<open>float\<close> of a text outside ASCII, where Unicode digits and spaces count, is
  the parameter \<open>wide\<close>; \<open>hash\<close> is the hexadecimal SHA-256.
\<close>

section \<open>Errors and patterns\<close>

datatype rerr = Refusal string | DeliveryFailure string | RUnicode | RRaised pyexc

definition MAX_PAYLOAD_BYTES :: nat where "MAX_PAYLOAD_BYTES = 65536"
definition MAX_RESPONSE_BYTES :: nat where "MAX_RESPONSE_BYTES = 65536"
definition MAX_ALERTS :: nat where "MAX_ALERTS = 5"
definition RETRY_ATTEMPTS :: nat where "RETRY_ATTEMPTS = 2"
definition MAX_RETRY_AFTER_SECONDS :: int where "MAX_RETRY_AFTER_SECONDS = 5"
definition MAX_MESSAGE_CHARS :: nat where "MAX_MESSAGE_CHARS = 4096"

definition TELEGRAM_API_URL :: string where
  "TELEGRAM_API_URL = ''https://api.telegram.org''"

definition TOKEN :: "string \<Rightarrow> bool" where
  "TOKEN s = (case partition_on (CHR '':'') s of (a, found, b) \<Rightarrow> found \<and> repeated is_digit 6 16 a
     \<and> repeated (\<lambda>c. is_alnum c \<or> c = CHR ''_'' \<or> c = CHR ''-'') 20 128 b)"

definition CHAT :: "string \<Rightarrow> bool" where
  "CHAT s = repeated is_digit 1 20 (if starts_with ''-'' s then drop 1 s else s)"

definition SOURCE_ID :: "string \<Rightarrow> bool" where "SOURCE_ID s = repeated is_hex 40 64 s"
definition FINGERPRINT :: "string \<Rightarrow> bool" where "FINGERPRINT s = repeated is_hex 16 64 s"

definition ALIAS :: "string \<Rightarrow> bool" where
  "ALIAS s = repeated (\<lambda>c. is_alnum c \<or> List.member ''_.:/ -'' c) 1 160 s"

definition ROLE :: "string \<Rightarrow> bool" where
  "ROLE s = head_tail is_lower (\<lambda>c. is_alnum_lower c \<or> c = CHR ''_'' \<or> c = CHR ''-'') 0 63 s"

definition SERVICE_ALERTS :: "string list" where
  "SERVICE_ALERTS = [''ObservabilityRequiredServiceNotActive'', ''ObservabilityRequiredServiceEvidenceMissing'']"

section \<open>The webhook payload\<close>

definition contract :: rerr where
  "contract = Refusal ''payload-contract''"

definition bounded_string :: "(string \<Rightarrow> bool) \<Rightarrow> nat \<Rightarrow> pv \<Rightarrow> rerr + unit" where
  "bounded_string pattern maximum v =
     refuse_if (\<not> is_str v \<or> str_of v = [] \<or> maximum < ulen (str_of v) \<or> \<not> pattern (str_of v)) contract"

abbreviation any_text :: "string \<Rightarrow> bool" where
  "any_text \<equiv> (\<lambda>_. True)"

definition bounded_mapping :: "pv \<Rightarrow> rerr + unit" where
  "bounded_mapping v =
     (if \<not> is_dict v \<or> 32 < length (dict_of v) then Inl contract
      else each (\<lambda>kv. bind_res (bounded_string ALIAS 160 (PStr (fst kv))) (\<lambda>_. bounded_string any_text 160 (snd kv)))
             (dict_of v))"

text \<open>\<open>v not in {...}\<close> for a set of texts: a list or a dictionary has no hash.\<close>

definition one_of :: "string list \<Rightarrow> pv \<Rightarrow> rerr + unit" where
  "one_of names v =
     (if is_list v \<or> is_dict v then Inl (RRaised TypeError) else refuse_if (\<not> List.member (map PStr names) v) contract)"

definition check_alert :: "dict \<Rightarrow> pv \<Rightarrow> rerr + unit" where
  "check_alert common_labels v =
     (let alert = dict_of v; labels = dict_of (item alert ''labels''); annotations = dict_of (item alert ''annotations'');
          service = (\<lambda>n. List.member (map PStr SERVICE_ALERTS) n) in
      if \<not> is_dict v \<or> \<not> keys_are alert [''status'', ''labels'', ''annotations'', ''startsAt'', ''endsAt'',
          ''generatorURL'', ''fingerprint''] then Inl contract
      else
        bind_res (one_of [''firing'', ''resolved''] (item alert ''status'')) (\<lambda>_.
        bind_res (bounded_mapping (item alert ''labels'')) (\<lambda>_.
        bind_res (bounded_mapping (item alert ''annotations'')) (\<lambda>_.
        bind_res (each (\<lambda>k. bounded_string ALIAS 160 (item labels k)) [''environment'', ''node'', ''component'']) (\<lambda>_.
        bind_res (if has_key labels ''role'' \<or> service (item common_labels ''alertname'') \<or> service (item labels ''alertname'')
            then bounded_string ROLE 64 (item labels ''role'') else Inr ()) (\<lambda>_.
        bind_res (each (\<lambda>k. bounded_string any_text 160 (item annotations k)) [''summary'', ''evidence_class'', ''runbook'']) (\<lambda>_.
        bind_res (bounded_string any_text 160 (item alert ''startsAt'')) (\<lambda>_.
        bind_res (bounded_string any_text 160 (item alert ''endsAt'')) (\<lambda>_.
        bind_res (refuse_if (\<not> is_str (item alert ''generatorURL'')) contract) (\<lambda>_.
        bounded_string FINGERPRINT 160 (item alert ''fingerprint'')))))))))))"

definition check_payload :: "pv \<Rightarrow> rerr + dict" where
  "check_payload v =
     (let value = dict_of v; truncated = item value ''truncatedAlerts''; alerts = item value ''alerts'';
          common_labels = dict_of (item value ''commonLabels''); common_annotations = dict_of (item value ''commonAnnotations'') in
      if \<not> is_dict v \<or> \<not> keys_are value [''version'', ''groupKey'', ''truncatedAlerts'', ''status'', ''receiver'',
          ''groupLabels'', ''commonLabels'', ''commonAnnotations'', ''externalURL'', ''alerts''] then Inl contract
      else if item value ''version'' \<noteq> PStr ''4'' then Inl contract
      else
        bind_res (one_of [''firing'', ''resolved''] (item value ''status'')) (\<lambda>_.
        bind_res (one_of [''telegram-primary'', ''telegram-critical'', ''telegram-canary''] (item value ''receiver'')) (\<lambda>_.
        bind_res (refuse_if (\<not> isinstance_int truncated \<or> \<not> (0 \<le> int_of truncated \<and> int_of truncated \<le> 10000)) contract) (\<lambda>_.
        bind_res (refuse_if (\<not> is_list alerts \<or> \<not> (1 \<le> length (list_of alerts) \<and> length (list_of alerts) \<le> MAX_ALERTS)) contract) (\<lambda>_.
        bind_res (each (\<lambda>k. bounded_mapping (item value k)) [''groupLabels'', ''commonLabels'', ''commonAnnotations'']) (\<lambda>_.
        bind_res (bounded_string any_text 2048 (item value ''groupKey'')) (\<lambda>_.
        bind_res (refuse_if (\<not> is_str (item value ''externalURL'') \<or> 256 < ulen (str_of (item value ''externalURL''))) contract) (\<lambda>_.
        bind_res (bounded_string any_text 160 (item common_labels ''alertname'')) (\<lambda>_.
        bind_res (bounded_string SOURCE_ID 160 (item common_annotations ''source_generation'')) (\<lambda>_.
        bind_res (each (check_alert common_labels) (list_of alerts)) (\<lambda>_.
        Inr value)))))))))))"

definition parse_payload :: "string \<Rightarrow> rerr + dict" where
  "parse_payload raw =
     (if raw = [] \<or> MAX_PAYLOAD_BYTES < length raw then Inl (Refusal ''payload-size'')
      else (case decode_json plain_hook raw of
          Inl (Json JDigits) \<Rightarrow> Inl (RRaised ValueError)
        | Inl _ \<Rightarrow> Inl (Refusal ''payload-json'')
        | Inr v \<Rightarrow> check_payload v))"

section \<open>The message\<close>

definition escape_char :: "char \<Rightarrow> string" where
  "escape_char c = (if c = CHR 0x26 then ''&amp;'' else if c = CHR ''<'' then ''&lt;'' else if c = CHR ''>'' then ''&gt;'' else [c])"

definition escaped :: "pv \<Rightarrow> string" where
  \<comment> \<open>\<open>html.escape(str(value), quote=False)\<close> of a text\<close>
  "escaped v = concat (map escape_char (str_of v))"

definition alert_line :: "dict \<Rightarrow> string" where
  "alert_line alert =
     (let labels = dict_of (item alert ''labels''); annotations = dict_of (item alert ''annotations'');
          firing = item alert ''status'' = PStr ''firing'' in
      (if firing then ''-'' else ''- recovered'') @ '' '' @ escaped (item labels ''environment'') @ ''/'' @ escaped (item labels ''node'')
      @ ''/'' @ escaped (item labels ''component'') @ (if has_key labels ''role'' then ''/'' @ escaped (item labels ''role'') else [])
      @ '': '' @ escaped (item annotations ''summary'') @ '' ['' @ escaped (item annotations ''evidence_class'') @ ''] ''
      @ escaped (item annotations ''runbook'') @ '' ''
      @ (if firing then ''started='' @ escaped (item alert ''startsAt'') else ''recovered='' @ escaped (item alert ''endsAt'')))"

text \<open>\<open>s.rstrip()\<close>: the code points that \<open>str.isspace\<close> accepts, removed one at a time from the end.\<close>

definition spaces :: "string list" where
  "spaces = map utf8 ([9..<14] @ [28..<33] @ [133, 160, 5760] @ [8192..<8203] @ [8232, 8233, 8239, 8287, 12288])"

function rstrip :: "string \<Rightarrow> string" where
  "rstrip s = (case find (\<lambda>w. w \<noteq> [] \<and> ends_with w s) spaces of
     None \<Rightarrow> s | Some w \<Rightarrow> rstrip (take (length s - length w) s))"
  by pat_completeness auto
termination
proof (relation "measure length")
  fix s w
  assume "find (\<lambda>w. w \<noteq> [] \<and> ends_with w s) spaces = Some w"
  then have "w \<noteq> []" "length w \<le> length s" by (auto simp: find_Some_iff ends_with_def)
  then show "(take (length s - length w) s, s) \<in> measure length" by (cases w) auto
qed simp

declare rstrip.simps [simp del]

definition footer :: "int \<Rightarrow> string" where
  "footer omitted = (if omitted = 0 then [] else ''... omitted '' @ show_int omitted @ '' alerts'')"

definition projected :: "string \<Rightarrow> string list \<Rightarrow> int \<Rightarrow> string" where
  "projected header ls omitted = rstrip (join [CHR 0x0A] (header # ls @ [footer omitted]))"

fun render_lines :: "string \<Rightarrow> string list \<Rightarrow> int \<Rightarrow> pv list \<Rightarrow> string list \<times> int" where
  "render_lines header ls omitted [] = (ls, omitted)"
| "render_lines header ls omitted (alert # alerts) =
     (let candidate = alert_line (dict_of alert) in
      if MAX_MESSAGE_CHARS < ulen (projected header (ls @ [candidate]) omitted)
      then render_lines header ls (omitted + 1) alerts
      else render_lines header (ls @ [candidate]) omitted alerts)"

definition message_header :: "dict \<Rightarrow> string" where
  "message_header payload = (if item payload ''status'' = PStr ''firing'' then ''FIRING'' else ''RESOLVED'') @ '': ''
     @ escaped (item (dict_of (item payload ''commonLabels'')) ''alertname'') @ '' source=''
     @ escaped (item (dict_of (item payload ''commonAnnotations'')) ''source_generation'')"

definition render_message :: "dict \<Rightarrow> rerr + string" where
  "render_message payload =
     (let header = message_header payload;
          (ls, omitted) = render_lines header [] (int_of (item payload ''truncatedAlerts'')) (list_of (item payload ''alerts''));
          message = projected header ls omitted in
      if ls = [] \<or> MAX_MESSAGE_CHARS < ulen message then Inl (Refusal ''message-size'') else Inr message)"

section \<open>Delivery\<close>

datatype answer =
    Answered int string
  | HttpError int "string option" "string option"
  | Unreachable
  | Garbled

text \<open>
  \<open>Answered\<close>: the status and body of a response. \<open>HttpError\<close>: the code, the body (\<open>None\<close> where reading
  it raises \<open>OSError\<close>) and the \<open>Retry-After\<close> header of an \<open>HTTPError\<close>, which redirects also are.
  \<open>Unreachable\<close>: \<open>OSError\<close>. \<open>Garbled\<close>: an \<open>HTTPException\<close>, which is no \<open>OSError\<close>.
\<close>

record call =
  lock_free :: bool
  clock :: rat
  answer :: answer
  defer_clock :: rat

record post =
  sent_to :: string
  content :: dict
  sent_at :: rat

datatype fault = Fine | BeforeReplace | AfterReplace

record rworld =
  receipts_file :: "inode option"
  receipts :: dict
  deadline :: rat
  drill :: dict
  posts :: "post list"
  faults :: "fault list"
  ruid :: int

record rconfig =
  api_url :: string
  chat_id :: string
  topic_id :: int
  bot_token :: string
  auth_token :: string

definition validate_delivery_contract :: "rconfig \<Rightarrow> rerr + unit" where
  "validate_delivery_contract c =
     bind_res (refuse_if (api_url c \<noteq> TELEGRAM_API_URL \<or> \<not> TOKEN (bot_token c)) (Refusal ''delivery-contract'')) (\<lambda>_.
     refuse_if (\<not> CHAT (chat_id c) \<or> \<not> (0 \<le> topic_id c \<and> topic_id c \<le> 2 ^ 31 - 1)) (Refusal ''delivery-contract''))"

text \<open>
  \<open>FloodControl.defer\<close>: the delay becomes a binary64 number, which overflows for a large integer, and
  is added to the clock.
\<close>

definition flood :: rerr where
  "flood = DeliveryFailure ''upstream-flood-response''"

definition defer_until :: "rat \<Rightarrow> int \<Rightarrow> rerr + rat" where
  "defer_until now delay = (case round64 (of_int delay) of
     Fin d \<Rightarrow> (case round64 (now + d) of Fin t \<Rightarrow> Inr t | _ \<Rightarrow> Inl flood)
   | _ \<Rightarrow> Inl flood)"

definition flood_defer :: "rat \<Rightarrow> int \<Rightarrow> (rworld, rerr, unit) dio" where
  "flood_defer now delay =
     seq (look (\<lambda>_. defer_until now delay)) (\<lambda>t. publish (\<lambda>w. w\<lparr>deadline := max (deadline w) t\<rparr>))"

definition retry_after :: "string option \<Rightarrow> string option \<Rightarrow> rerr + int" where
  "retry_after raw header = (case raw of
     None \<Rightarrow> Inl flood
   | Some text \<Rightarrow>
       if MAX_RESPONSE_BYTES < length text then Inl flood
       else (case decode_json plain_hook text of
           Inl _ \<Rightarrow> Inl flood
         | Inr payload \<Rightarrow>
             let parameters = (if has_key (dict_of payload) ''parameters'' then item (dict_of payload) ''parameters'' else PDict []);
                 delay = item (dict_of parameters) ''retry_after'' in
             if \<not> is_dict payload \<or> \<not> is_dict parameters then Inl flood
             else if delay = PNone then (case header of
                 None \<Rightarrow> Inr 1
               | Some h \<Rightarrow> if repeated is_digit 1 4 h then Inr (int (read_nat h)) else Inl flood)
             else if \<not> type_is_int delay \<or> int_of delay < 0 then Inl (DeliveryFailure ''upstream-flood-wait'')
             else Inr (int_of delay)))"

text \<open>One attempt with the lock held: the parsed answer, or whether to retry and after which delay.\<close>

datatype attempted = Delivered dict | Again bool int

definition delivered :: "int \<Rightarrow> string \<Rightarrow> rerr + dict" where
  "delivered status raw =
     (if status \<noteq> 200 \<or> MAX_RESPONSE_BYTES < length raw then Inl (DeliveryFailure ''upstream-response'')
      else (case decode_json plain_hook raw of
          Inl (Json JDigits) \<Rightarrow> Inl (RRaised ValueError)
        | Inl _ \<Rightarrow> Inl (DeliveryFailure ''upstream-response'')
        | Inr parsed \<Rightarrow> if \<not> is_dict parsed \<or> item (dict_of parsed) ''ok'' \<noteq> PBool True
            then Inl (DeliveryFailure ''upstream-response'') else Inr (dict_of parsed)))"

definition deliver_attempt :: "call \<Rightarrow> string \<Rightarrow> dict \<Rightarrow> (rworld, rerr, attempted) dio" where
  "deliver_attempt c url body =
     seq (look (\<lambda>w. if \<not> lock_free c then Inl (DeliveryFailure ''upstream-busy'')
          else refuse_if (clock c < deadline w) (DeliveryFailure ''upstream-flood-wait''))) (\<lambda>_.
     seq (publish (\<lambda>w. w\<lparr>posts := posts w @ [\<lparr>sent_to = url, content = body, sent_at = clock c\<rparr>]\<rparr>)) (\<lambda>_.
     case answer c of
       Answered status raw \<Rightarrow> seq (look (\<lambda>_. delivered status raw)) (\<lambda>parsed. ret (Delivered parsed))
     | HttpError code raw header \<Rightarrow>
         if code = 429 then
           seq (look (\<lambda>_. retry_after raw header)) (\<lambda>delay.
           seq (flood_defer (defer_clock c) delay) (\<lambda>_. ret (Again True delay)))
         else ret (Again (500 \<le> code \<and> code \<le> 599) 1)
     | Unreachable \<Rightarrow> ret (Again True 1)
     | Garbled \<Rightarrow> fail (RRaised HTTPException)))"

fun deliver_from :: "(nat \<Rightarrow> call) \<Rightarrow> string \<Rightarrow> dict \<Rightarrow> nat list \<Rightarrow> (rworld, rerr, dict) dio" where
  "deliver_from calls url body [] = fail (DeliveryFailure ''upstream-failure'')"
| "deliver_from calls url body (i # rest) =
     seq (deliver_attempt (calls i) url body) (\<lambda>r. case r of
       Delivered parsed \<Rightarrow> ret parsed
     | Again retryable delay \<Rightarrow>
         if MAX_RETRY_AFTER_SECONDS < delay then fail (DeliveryFailure ''upstream-flood-wait'')
         else if \<not> retryable \<or> i + 1 = RETRY_ATTEMPTS then fail (DeliveryFailure ''upstream-failure'')
         else deliver_from calls url body rest)"

text \<open>
  \<open>deliver\<close>. A token that satisfies the contract consists of characters that \<open>parse.quote\<close> keeps, so
  it enters the URL as it is.
\<close>

definition message_body :: "rconfig \<Rightarrow> string \<Rightarrow> pv \<Rightarrow> bool \<Rightarrow> string \<Rightarrow> rerr + dict" where
  "message_body c meth message_id silent message =
     (let base = [(''chat_id'', PStr (chat_id c)), (''text'', PStr message), (''parse_mode'', PStr ''HTML''),
           (''disable_web_page_preview'', PBool True)];
          edit = meth = ''editMessageText'' in
      if \<not> List.member [''sendMessage'', ''editMessageText''] meth then Inl (Refusal ''delivery-method'')
      else if edit \<and> (\<not> type_is_int message_id \<or> int_of message_id \<le> 0) then Inl (Refusal ''message-identity'')
      else Inr (base @ (if edit then [(''message_id'', message_id)] else [])
            @ (if silent then [(''disable_notification'', PBool True)] else [])
            @ (if topic_id c \<noteq> 0 then [(''message_thread_id'', PInt (topic_id c))] else [])))"

definition deliver ::
  "(nat \<Rightarrow> call) \<Rightarrow> rconfig \<Rightarrow> string \<Rightarrow> pv \<Rightarrow> bool \<Rightarrow> string \<Rightarrow> (rworld, rerr, dict) dio" where
  "deliver calls c meth message_id silent message =
     seq (look (\<lambda>_. bind_res (validate_delivery_contract c) (\<lambda>_. message_body c meth message_id silent message))) (\<lambda>body.
     deliver_from calls (TELEGRAM_API_URL @ ''/bot'' @ bot_token c @ ''/'' @ meth) body [0..<RETRY_ATTEMPTS])"

section \<open>Receipts\<close>

definition initial_receipts :: "string \<Rightarrow> dict" where
  "initial_receipts authority = [(''rule_to_relay_at'', PInt 0), (''edit_sequence'', PInt 0), (''edit_at'', PInt 0),
     (''send_at'', PInt 0), (''message_id'', PInt 0), (''authority'', PStr authority)]"

definition receipts_text :: "dict \<Rightarrow> string" where
  "receipts_text d = dumps (PDict d)"

definition save :: "(rworld, rerr, unit) dio" where
  "save =
     seq (look (\<lambda>w. Inr (faults w))) (\<lambda>fs.
     if fs \<noteq> [] \<and> hd fs = BeforeReplace then
       seq (publish (\<lambda>w. w\<lparr>faults := tl (faults w)\<rparr>)) (\<lambda>_. fail (RRaised OSError))
     else
       seq (publish (\<lambda>w. w\<lparr>receipts_file := Some (atomic_write (ruid w) (receipts_text (receipts w))), faults := tl (faults w)\<rparr>)) (\<lambda>_.
       if fs \<noteq> [] \<and> hd fs = AfterReplace then fail (RRaised OSError) else ret ()))"

text \<open>
  What \<open>Receipts.__init__\<close> accepts. On a value that is no dictionary, \<open>set(value)\<close> raises for a value
  that cannot be iterated or has an unhashable element, and a list of exactly the six names passes
  the comparison and fails at \<open>value.items()\<close>.
\<close>

definition read_receipts :: "pv \<Rightarrow> rerr + dict" where
  "read_receipts v =
     (let names = map fst (initial_receipts []); bad = Refusal ''receipt-state'' in
      case v of
        PDict d \<Rightarrow>
          if \<not> keys_are d names \<or> \<not> list_all (\<lambda>kv. fst kv = ''authority'' \<or> type_is_int (snd kv) \<and> 0 \<le> int_of (snd kv)) d
            \<or> \<not> is_str (item d ''authority'') then Inl bad else Inr d
      | PStr _ \<Rightarrow> Inl bad
      | PList xs \<Rightarrow> if list_ex (\<lambda>x. is_list x \<or> is_dict x) xs then Inl (RRaised TypeError)
          else if set xs = set (map PStr names) then Inl (RRaised AttributeError) else Inl bad
      | _ \<Rightarrow> Inl (RRaised TypeError))"

definition load_receipts :: "bool \<Rightarrow> string \<Rightarrow> (rworld, rerr, unit) dio" where
  \<comment> \<open>\<open>dangling\<close>: the path is a symbolic link whose target does not exist, so \<open>exists()\<close> is false\<close>
  "load_receipts dangling authority =
     seq (publish (\<lambda>w. w\<lparr>receipts := initial_receipts authority\<rparr>)) (\<lambda>_.
     seq (look (\<lambda>w. case receipts_file w of
         None \<Rightarrow> Inr None
       | Some i \<Rightarrow>
           if fkind i = Symlink \<and> dangling then Inr None
           else if fkind i \<noteq> Regular \<or> 1024 < length (fbytes i) then Inl (Refusal ''receipt-state'')
           else (case decode_json plain_hook (fbytes i) of
               Inl UnicodeDecodeError \<Rightarrow> Inl RUnicode
             | Inl _ \<Rightarrow> Inl (RRaised ValueError)
             | Inr v \<Rightarrow> bind_res (read_receipts v) (\<lambda>d. Inr (Some d))))) (\<lambda>found.
     case found of
       None \<Rightarrow> ret ()
     | Some d \<Rightarrow>
         if item d ''authority'' = PStr authority then publish (\<lambda>w. w\<lparr>receipts := d\<rparr>)
         else seq (publish (\<lambda>w. w\<lparr>receipts := AList.update ''edit_sequence'' (item d ''edit_sequence'') (receipts w)\<rparr>)) (\<lambda>_. save)))"

definition snapshot :: "dict \<Rightarrow> dict" where
  "snapshot d = filter (\<lambda>kv. fst kv \<noteq> ''message_id'' \<and> fst kv \<noteq> ''authority'') d"

definition number :: "dict \<Rightarrow> string \<Rightarrow> int" where
  "number d k = int_of (item d k)"

definition put :: "string \<Rightarrow> int \<Rightarrow> (rworld, rerr, unit) dio" where
  "put k i = publish (\<lambda>w. w\<lparr>receipts := AList.update k (PInt i) (receipts w)\<rparr>)"

text \<open>\<open>float(text)\<close> on ASCII text.\<close>

definition lowered :: "string \<Rightarrow> string" where
  "lowered = map (\<lambda>c. if is_upper c then char_of (ord_of c + 32) else c)"

definition digit_groups :: "string \<Rightarrow> bool" where
  "digit_groups s = list_all (\<lambda>g. g \<noteq> [] \<and> list_all is_digit g) (split_on (CHR ''_'') s)"

definition digits_of :: "string \<Rightarrow> string" where
  "digits_of s = filter is_digit s"

definition signed :: "string \<Rightarrow> bool \<times> string" where
  "signed t = (case t of [] \<Rightarrow> (False, []) | c # cs \<Rightarrow>
     if c = CHR ''-'' then (True, cs) else if c = CHR ''+'' then (False, cs) else (False, t))"

definition py_float :: "(string \<Rightarrow> pyfloat option) \<Rightarrow> string \<Rightarrow> pyfloat option" where
  "py_float wide text =
     (if \<not> is_ascii text then wide text else
      let (negative, t) = signed (lowered (strip latin_space text));
          (mantissa, has_exponent, exponent) = partition_on (CHR ''e'') t;
          (whole, point, fraction) = partition_on (CHR ''.'') mantissa;
          (down, power) = signed exponent;
          n = int (read_nat (digits_of (whole @ fraction)));
          e = (if has_exponent then (if down then - 1 else 1) * int (read_nat (digits_of power)) else 0) in
      if t = ''inf'' \<or> t = ''infinity'' then Some (Inf (\<not> negative))
      else if t = ''nan'' then Some NaN
      else if (whole = [] \<and> fraction = []) \<or> \<not> (whole = [] \<or> digit_groups whole)
        \<or> \<not> (fraction = [] \<or> digit_groups fraction) \<or> (has_exponent \<and> \<not> digit_groups power) then None
      else Some (round64 ((if negative then - 1 else 1) * of_int n * pow_rat 10 (e - int (length (digits_of fraction))))))"

definition trunc :: "rat \<Rightarrow> int" where
  "trunc q = (if 0 \<le> q then \<lfloor>q\<rfloor> else \<lceil>q\<rceil>)"

definition pipeline_instant :: "(string \<Rightarrow> pyfloat option) \<Rightarrow> dict \<Rightarrow> int \<Rightarrow> rerr + int" where
  "pipeline_instant wide payload now =
     (let alerts = list_of (item payload ''alerts''); alert = dict_of (hd alerts);
          labels = dict_of (item alert ''labels''); annotations = dict_of (item alert ''annotations'') in
      if item payload ''status'' \<noteq> PStr ''firing'' \<or> length alerts \<noteq> 1 then Inl (Refusal ''canary-payload'')
      else if item labels ''alertname'' \<noteq> PStr ''ObservabilityPipelineCanary'' then Inl (Refusal ''canary-name'')
      else (case item annotations ''evaluated_at'' of
          PStr text \<Rightarrow> (case py_float wide text of
              Some (Fin evaluated) \<Rightarrow>
                (case round64 (of_int now - evaluated) of
                   Fin age \<Rightarrow> if 0 \<le> age \<and> age \<le> 150 then Inr (trunc evaluated) else Inl (Refusal ''canary-freshness'')
                 | _ \<Rightarrow> Inl (Refusal ''canary-freshness''))
            | _ \<Rightarrow> Inl (Refusal ''canary-freshness''))
        | _ \<Rightarrow> Inl (Refusal ''canary-freshness'')))"

definition pipeline :: "(string \<Rightarrow> pyfloat option) \<Rightarrow> dict \<Rightarrow> int \<Rightarrow> (rworld, rerr, unit) dio" where
  "pipeline wide payload now =
     seq (look (\<lambda>w. bind_res (pipeline_instant wide payload now) (\<lambda>evaluated.
        if evaluated \<le> number (receipts w) ''rule_to_relay_at'' then Inl (Refusal ''canary-replay'') else Inr evaluated))) (\<lambda>evaluated.
     seq (put ''rule_to_relay_at'' evaluated) (\<lambda>_. save))"

text \<open>The delivery canary: a number is reserved in the file, then a message is sent or edited with it.\<close>

definition receipt_id :: "dict \<Rightarrow> pv" where
  "receipt_id a = item (dict_of (item a ''result'')) ''message_id''"

definition canary_send :: "(nat \<Rightarrow> call) \<Rightarrow> rconfig \<Rightarrow> int \<Rightarrow> int \<Rightarrow> (rworld, rerr, unit) dio" where
  "canary_send calls c now n =
     seq (deliver calls c ''sendMessage'' PNone True (''Monitoring delivery canary '' @ show_int n)) (\<lambda>result.
     if \<not> type_is_int (receipt_id result) \<or> int_of (receipt_id result) \<le> 0 then fail (DeliveryFailure ''canary-send-receipt'')
     else seq (put ''message_id'' (int_of (receipt_id result))) (\<lambda>_.
          seq (put ''send_at'' now) (\<lambda>_. save)))"

definition canary_edit :: "(nat \<Rightarrow> call) \<Rightarrow> rconfig \<Rightarrow> int \<Rightarrow> int \<Rightarrow> (rworld, rerr, unit) dio" where
  "canary_edit calls c now n =
     seq (look (\<lambda>w. Inr (item (receipts w) ''message_id''))) (\<lambda>message_id.
     seq (deliver calls c ''editMessageText'' message_id False (''Monitoring delivery canary sequence '' @ show_int n)) (\<lambda>result.
     if \<not> is_dict (item result ''result'') \<or> \<not> py_eq (receipt_id result) message_id then fail (DeliveryFailure ''canary-edit-receipt'')
     else seq (put ''edit_at'' now) (\<lambda>_.
          handle save (\<lambda>e. if e = RRaised OSError then seq (put ''edit_at'' 0) (\<lambda>_. fail e) else fail e))))"

definition canary :: "(nat \<Rightarrow> call) \<Rightarrow> (nat \<Rightarrow> call) \<Rightarrow> rconfig \<Rightarrow> int \<Rightarrow> (rworld, rerr, unit) dio" where
  "canary sends edits c now =
     seq (look (\<lambda>w. Inr (number (receipts w) ''edit_sequence'' + 1))) (\<lambda>n.
     seq (put ''edit_sequence'' n) (\<lambda>_.
     seq (put ''edit_at'' 0) (\<lambda>_.
     seq save (\<lambda>_.
     seq (look (\<lambda>w. Inr (number (receipts w) ''message_id'' = 0
            \<or> \<not> (0 \<le> now - number (receipts w) ''send_at'' \<and> now - number (receipts w) ''send_at'' < 86400)))) (\<lambda>renew.
     seq (only_if renew (canary_send sends c now n)) (\<lambda>_.
     canary_edit edits c now n))))))"

section \<open>The drill receipt, credentials and the handler\<close>

definition drill_record :: "dict \<Rightarrow> int \<Rightarrow> dict \<Rightarrow> dict" where
  "drill_record payload now value =
     (let alerts = list_of (item payload ''alerts''); alert = dict_of (hd alerts); labels = dict_of (item alert ''labels'');
          policy = item labels ''policy'' in
      if item payload ''status'' \<noteq> PStr ''firing'' \<or> length alerts \<noteq> 1 then value
      else if item alert ''status'' \<noteq> PStr ''firing'' \<or> item labels ''alertname'' \<noteq> PStr ''ObservabilitySyntheticDrill''
        \<or> item labels ''node'' \<noteq> PStr ''collector'' \<or> \<not> is_str policy \<or> \<not> ROLE (str_of policy) then value
      else [(''policy'', policy), (''starts_at'', item alert ''startsAt''),
            (''source_generation'', item (dict_of (item payload ''commonAnnotations'')) ''source_generation''),
            (''delivered_at'', PInt now)])"

definition credential :: "string \<Rightarrow> (string \<Rightarrow> string option) \<Rightarrow> string \<Rightarrow> rerr + string" where
  "credential directory files name =
     (if directory = [] \<or> List.member name (CHR ''/'') \<or> name = ''.'' \<or> name = ''..'' then Inl (Refusal ''credential-path'')
      else (case files (directory @ ''/'' @ name) of
          None \<Rightarrow> Inl (RRaised OSError)
        | Some bytes \<Rightarrow>
            let raw = (if ends_with [CHR 0x0A] bytes then butlast bytes else bytes) in
            if raw = [] \<or> 256 < length raw \<or> List.member raw (CHR 0x0A) \<or> List.member raw (CHR 0x0D)
            then Inl (Refusal ''credential-content'')
            else if \<not> is_ascii raw then Inl RUnicode
            else if strip latin_space raw \<noteq> raw then Inl (Refusal ''credential-content'')
            else Inr raw))"

record rrequest =
  rpath :: string
  authorization :: string
  content_length :: "string option"
  content_type :: "string option"
  rbody :: "string option"

definition authorized :: "rconfig \<Rightarrow> rrequest \<Rightarrow> rerr + bool" where
  \<comment> \<open>\<open>hmac.compare_digest\<close> raises \<open>TypeError\<close> on text outside ASCII\<close>
  "authorized c r = (if is_ascii (authorization r) \<and> is_ascii (auth_token c)
     then Inr (authorization r = ''Bearer '' @ auth_token c) else Inl (RRaised TypeError))"

definition status_body :: "string \<Rightarrow> string" where
  "status_body category = dumps (PDict [(''status'', PStr category)])"

definition do_GET :: "rconfig \<Rightarrow> rrequest \<Rightarrow> (rworld, rerr, nat \<times> string) dio" where
  "do_GET c r =
     (if rpath r = ''/v1/drill-receipt'' then
        seq (look (\<lambda>_. authorized c r)) (\<lambda>ok.
        if \<not> ok then ret (401, status_body ''refused'') else look (\<lambda>w. Inr (200, dumps (PDict (drill w)))))
      else if rpath r = ''/v1/receipts'' then
        seq (look (\<lambda>_. authorized c r)) (\<lambda>ok.
        if ok then look (\<lambda>w. Inr (200, dumps (PDict (snapshot (receipts w))))) else ret (404, status_body ''refused''))
      else if rpath r \<noteq> ''/-/ready'' then ret (404, status_body ''refused'')
      else seq (look (\<lambda>_. authorized c r)) (\<lambda>ok.
        if ok then ret (200, status_body ''ready'') else ret (401, status_body ''refused'')))"

definition accept_alert ::
  "(string \<Rightarrow> pyfloat option) \<Rightarrow> (nat \<Rightarrow> call) \<Rightarrow> rconfig \<Rightarrow> int \<Rightarrow> nat \<Rightarrow> rrequest \<Rightarrow> (rworld, rerr, nat \<times> string) dio" where
  "accept_alert wide calls c now n r =
     seq (look (\<lambda>_. case rbody r of None \<Rightarrow> Inl (RRaised OSError) | Some raw \<Rightarrow> parse_payload (take n raw))) (\<lambda>payload.
     if item payload ''receiver'' = PStr ''telegram-canary'' then
       seq (pipeline wide payload now) (\<lambda>_. ret (200, status_body ''received''))
     else
       seq (look (\<lambda>_. render_message payload)) (\<lambda>message.
       seq (deliver calls c ''sendMessage'' PNone False message) (\<lambda>_.
       seq (publish (\<lambda>w. w\<lparr>drill := drill_record payload now (drill w)\<rparr>)) (\<lambda>_.
       ret (200, status_body ''delivered'')))))"

definition alert_failure :: "rerr \<Rightarrow> (rworld, rerr, nat \<times> string) dio" where
  "alert_failure e = (case e of
     Refusal _ \<Rightarrow> ret (400, status_body ''refused'')
   | DeliveryFailure _ \<Rightarrow> ret (502, status_body ''delivery-failed'')
   | RRaised x \<Rightarrow> if x = OSError then ret (400, status_body ''refused'') else fail e
   | RUnicode \<Rightarrow> fail e)"

definition canary_failure :: "rerr \<Rightarrow> (rworld, rerr, nat \<times> string) dio" where
  "canary_failure e = (case e of
     RRaised x \<Rightarrow> if x = OSError \<or> x = ValueError then ret (502, status_body ''delivery-failed'') else fail e
   | _ \<Rightarrow> ret (502, status_body ''delivery-failed''))"

definition do_POST ::
  "(string \<Rightarrow> pyfloat option) \<Rightarrow> (nat \<Rightarrow> call) \<Rightarrow> (nat \<Rightarrow> call) \<Rightarrow> rconfig \<Rightarrow> int \<Rightarrow> rrequest \<Rightarrow> (rworld, rerr, nat \<times> string) dio" where
  "do_POST wide sends edits c now r =
     (let raw_length = (case content_length r of None \<Rightarrow> [] | Some l \<Rightarrow> l); n = read_nat raw_length in
      if rpath r \<noteq> ''/alert'' \<and> rpath r \<noteq> ''/v1/delivery-canary'' then ret (404, status_body ''refused'')
      else seq (look (\<lambda>_. authorized c r)) (\<lambda>ok.
        if \<not> ok then ret (401, status_body ''refused'')
        else if rpath r = ''/v1/delivery-canary'' then
          (if \<not> List.member [None, Some ''0'', Some ''2''] (content_length r) then ret (400, status_body ''refused'')
           else handle (seq (canary sends edits c now) (\<lambda>_. ret (200, status_body ''delivered''))) canary_failure)
        else if content_type r \<noteq> Some ''application/json'' \<or> \<not> repeated is_digit 1 6 raw_length then ret (400, status_body ''refused'')
        else if \<not> (0 < n \<and> n \<le> MAX_PAYLOAD_BYTES) then ret (413, status_body ''refused'')
        else handle (accept_alert wide sends c now n r) alert_failure))"

text \<open>Start-up, from the command line's values to the handler's configuration; \<open>1\<close> is the refused start.\<close>

definition start_relay ::
  "(string \<Rightarrow> string) \<Rightarrow> string \<Rightarrow> (string \<Rightarrow> string option) \<Rightarrow> bool \<Rightarrow> string option \<Rightarrow> string \<Rightarrow> string \<Rightarrow> string \<Rightarrow> int \<Rightarrow>
   string \<Rightarrow> string \<Rightarrow> (rworld, rerr, rconfig) dio" where
  "start_relay hash directory files dangling verb listen api chat topic bot_credential auth_credential =
     seq (look (\<lambda>_.
       bind_res (refuse_if (verb \<noteq> Some ''serve'' \<or> listen \<noteq> ''127.0.0.1:19095'') (Refusal ''listen-contract'')) (\<lambda>_.
       bind_res (credential directory files bot_credential) (\<lambda>bot.
       bind_res (credential directory files auth_credential) (\<lambda>auth.
       let c = \<lparr>api_url = api, chat_id = chat, topic_id = topic, bot_token = bot, auth_token = auth\<rparr> in
       bind_res (validate_delivery_contract c) (\<lambda>_.
       bind_res (refuse_if (\<not> repeated is_hex 64 64 auth) (Refusal ''auth-contract'')) (\<lambda>_. Inr c))))))) (\<lambda>c.
     seq (load_receipts dangling (hash (dumps (PList [PStr (bot_token c), PStr (chat_id c), PInt (topic_id c), PStr (auth_token c)])))) (\<lambda>_.
     ret c))"

section \<open>Flood control\<close>

text \<open>A step never moves the deadline back, and sends at most one request, not before the deadline.\<close>

definition flood_step :: "rworld \<Rightarrow> rworld \<Rightarrow> bool" where
  "flood_step u v \<longleftrightarrow> deadline u \<le> deadline v
     \<and> (posts v = posts u \<or> (\<exists>p. posts v = posts u @ [p] \<and> deadline u \<le> sent_at p))"

lemma steady_attempt: "steady flood_step (deliver_attempt c url body)"
  unfolding steady_def
proof
  fix w
  show "successively flood_step (w # steps (deliver_attempt c url body) w)"
    unfolding deliver_attempt_def flood_defer_def
    by (auto simp: dio_eval seq_assoc flood_step_def refuse_if_def
          split: answer.split sum.split if_split)
qed

lemma steady_deliver_from: "steady flood_step (deliver_from calls url body is')"
  by (induction is') (auto intro!: steady_intros steady_attempt split: attempted.split)

lemma steady_deliver: "steady flood_step (deliver calls c meth mid silent message)"
  unfolding deliver_def by (intro steady_intros steady_deliver_from)

lemma steady_save: "steady flood_step save"
  unfolding save_def by (intro steady_intros) (simp_all add: flood_step_def)

lemma steady_put: "steady flood_step (put k i)"
  unfolding put_def by (intro steady_intros) (simp_all add: flood_step_def)

lemmas steady_relay = steady_intros steady_deliver steady_save steady_put

lemma steady_canary: "steady flood_step (canary sends edits c now)"
  unfolding canary_def canary_send_def canary_edit_def by (intro steady_relay)

lemma steady_pipeline: "steady flood_step (pipeline wide payload now)"
  unfolding pipeline_def by (intro steady_relay)

lemma steady_accept_alert: "steady flood_step (accept_alert wide calls c now n r)"
  unfolding accept_alert_def by (intro steady_relay steady_pipeline) (simp add: flood_step_def)

lemma steady_failures: "steady flood_step (alert_failure e)" "steady flood_step (canary_failure e)"
  unfolding alert_failure_def canary_failure_def by (cases e; auto intro: steady_intros)+

text \<open>
  C29: Flood control of the relay. Whatever a POST request carries, whatever Telegram answers and
  wherever the process stops, each step of its handling keeps the flood deadline or moves it
  forward, and sends at most one request to Telegram, at a moment not before the deadline as it
  then stands.
\<close>

theorem relay_paced: "successively flood_step (w # steps (do_POST wide sends edits c now r) w)"
proof (rule steadyD)
  show "steady flood_step (do_POST wide sends edits c now r)"
    unfolding do_POST_def Let_def
    by (intro steady_relay steady_canary steady_accept_alert steady_failures)
qed

lemma flood_deadline_mono: "successively flood_step (w # ws) \<Longrightarrow> deadline w \<le> deadline (last (w # ws))"
proof (induction ws arbitrary: w)
  case (Cons v ws)
  then have "deadline w \<le> deadline v" "deadline v \<le> deadline (last (v # ws))" by (auto simp: flood_step_def)
  then show ?case by simp
qed simp

lemma attempt_429:
  assumes "lock_free c" "deadline w \<le> clock c" "answer c = HttpError 429 raw header"
    "retry_after raw header = Inr delay" "defer_until (defer_clock c) delay = Inr t"
  shows "\<exists>ws. deliver_attempt c url body w = (ws, Inr (Again True delay)) \<and> t \<le> deadline (last (w # ws))"
  using assms by (simp add: deliver_attempt_def flood_defer_def dio_eval seq_assoc refuse_if_def)

lemma deliver_before_deadline:
  assumes "\<forall>i. clock (calls i) < deadline w"
  shows "steps (deliver calls c meth mid silent message) w = []"
proof -
  have "steps (deliver_from calls url body is') w = []" for url body is'
    using assms by (cases is') (auto simp: deliver_attempt_def dio_eval seq_assoc refuse_if_def split: if_split sum.split)
  then show ?thesis by (simp add: deliver_def seq_look split: sum.split)
qed

text \<open>
  C28: A flood answer is honoured. Once Telegram answers the first request of a delivery with 429 and
  a delay, and the clock plus the delay is \<open>t\<close>, every later delivery whose attempts all happen before
  \<open>t\<close> sends nothing, however the first delivery ended.
\<close>

theorem flood_wait_honoured:
  assumes "validate_delivery_contract c = Inr ()" "message_body c meth mid silent message = Inr body"
    "lock_free (calls 0)" "deadline w \<le> clock (calls 0)" "answer (calls 0) = HttpError 429 raw header"
    "retry_after raw header = Inr delay" "defer_until (defer_clock (calls 0)) delay = Inr t"
    "\<forall>i. clock (later i) < t"
  shows "steps (deliver later c' meth' mid' silent' message') (after (deliver calls c meth mid silent message) w) = []"
proof (rule deliver_before_deadline)
  define url where "url = TELEGRAM_API_URL @ ''/bot'' @ bot_token c @ ''/'' @ meth"
  define cont where "cont = (\<lambda>r. case r of Delivered parsed \<Rightarrow> ret parsed | Again retryable d \<Rightarrow>
         if MAX_RETRY_AFTER_SECONDS < d then fail (DeliveryFailure ''upstream-flood-wait'')
         else if \<not> retryable \<or> 0 + 1 = RETRY_ATTEMPTS then fail (DeliveryFailure ''upstream-failure'')
         else deliver_from calls url body [1])"
  have steady: "steady flood_step (cont r)" for r
    unfolding cont_def by (cases r) (auto intro: steady_intros steady_deliver_from simp del: deliver_from.simps)
  obtain ws where ws: "deliver_attempt (calls 0) url body w = (ws, Inr (Again True delay))" "t \<le> deadline (last (w # ws))"
    using attempt_429 [OF assms(3-7)] by blast
  have two: "[0..<RETRY_ATTEMPTS] = [0, 1]" by (simp add: RETRY_ATTEMPTS_def upt_rec)
  have run: "deliver calls c meth mid silent message w = seq (deliver_attempt (calls 0) url body) cont w"
    unfolding deliver_def seq_look assms(1,2) bind_res_simps sum.case two url_def cont_def deliver_from.simps ..
  have "t \<le> deadline (last (last (w # ws) # steps (cont (Again True delay)) (last (w # ws))))"
    using flood_deadline_mono [OF steadyD [OF steady]] ws(2) order_trans by blast
  moreover have "after (deliver calls c meth mid silent message) w
      = last (last (w # ws) # steps (cont (Again True delay)) (last (w # ws)))"
    unfolding after_def run using seq_step [of "deliver_attempt (calls 0) url body" w, OF ws(1), of cont]
    by (simp add: last_Cons_append del: last.simps)
  ultimately show "\<forall>i. clock (later i) < deadline (after (deliver calls c meth mid silent message) w)"
    using assms(8) by (metis order_less_le_trans)
qed

definition sample_config :: rconfig where
  "sample_config = \<lparr>api_url = TELEGRAM_API_URL, chat_id = ''-100'', topic_id = 7,
     bot_token = ''123456:'' @ replicate 20 (CHR ''a''), auth_token = replicate 64 (CHR ''0'')\<rparr>"

definition sample_receipts :: dict where
  "sample_receipts = initial_receipts (replicate 64 (CHR ''f''))"

definition sample_rworld :: rworld where
  "sample_rworld = \<lparr>receipts_file = None, receipts = sample_receipts, deadline = 10, drill = [], posts = [], faults = [], ruid = 0\<rparr>"

definition flooded :: "rat \<Rightarrow> nat \<Rightarrow> call" where
  "flooded t i = \<lparr>lock_free = True, clock = t, answer = HttpError 429 (Some ''{}'') (Some ''40''), defer_clock = t + 1\<rparr>"

lemma sample_contract: "validate_delivery_contract sample_config = Inr ()"
  by (simp add: validate_delivery_contract_def sample_config_def TOKEN_def CHAT_def starts_with_def repeated_def
      text_defs refuse_if_def numeral_eq_Suc)

lemma empty_object: "decode_json plain_hook ''{}'' = Inr (PDict [])"
  using decode_json_dumps [of plain_hook "PDict []"] by simp

lemma sample_retry: "retry_after (Some ''{}'') (Some ''40'') = Inr 40"
  by (simp add: retry_after_def empty_object MAX_RESPONSE_BYTES_def repeated_def text_defs read_nat_def digit_val_def
      item_def has_key_def)

lemma round64_40: "round64 40 = Fin 40" "round64 61 = Fin 61"
  by code_simp+

theorem flood_wait_honoured_witness:
  "steps (deliver (flooded 50) sample_config ''sendMessage'' PNone False ''b'')
     (after (deliver (flooded 20) sample_config ''sendMessage'' PNone False ''a'') sample_rworld) = []"
proof (rule flood_wait_honoured)
  show "validate_delivery_contract sample_config = Inr ()" by (rule sample_contract)
  show "message_body sample_config ''sendMessage'' PNone False ''a'' = Inr [(''chat_id'', PStr ''-100''), (''text'', PStr ''a''),
      (''parse_mode'', PStr ''HTML''), (''disable_web_page_preview'', PBool True), (''message_thread_id'', PInt 7)]"
    by (simp add: message_body_def sample_config_def)
  show "answer (flooded 20 0) = HttpError 429 (Some ''{}'') (Some ''40'')" by (simp add: flooded_def)
  show "retry_after (Some ''{}'') (Some ''40'') = Inr 40" by (rule sample_retry)
  show "defer_until (defer_clock (flooded 20 0)) 40 = Inr 61"
    by (simp add: defer_until_def flooded_def round64_40)
qed (simp_all add: flooded_def sample_rworld_def)

section \<open>Messages\<close>

definition untagged :: "string \<Rightarrow> bool" where
  "untagged s \<longleftrightarrow> CHR ''<'' \<notin> set s \<and> CHR ''>'' \<notin> set s"

lemma untagged_append [simp]: "untagged (s @ t) \<longleftrightarrow> untagged s \<and> untagged t"
  by (auto simp: untagged_def)

lemma untagged_Cons [simp]: "untagged (c # s) \<longleftrightarrow> c \<noteq> CHR ''<'' \<and> c \<noteq> CHR ''>'' \<and> untagged s"
  by (auto simp: untagged_def)

lemma untagged_Nil [simp]: "untagged []"
  by (simp add: untagged_def)

lemma untagged_escaped [simp]: "untagged (escaped v)"
  by (auto simp: escaped_def untagged_def escape_char_def split: if_splits)

lemma untagged_join: "untagged sep \<Longrightarrow> list_all untagged xs \<Longrightarrow> untagged (join sep xs)"
  by (induction sep xs rule: join.induct) auto

lemma untagged_show_int: "untagged (show_int i)"
proof -
  have "untagged (show_nat n)" for n
    using digits_show_nat [of n] by (auto simp: untagged_def list_all_iff is_digit_def)
  then show ?thesis by (simp add: show_int_def)
qed

lemma untagged_footer: "untagged (footer n)"
  by (simp add: footer_def untagged_show_int)

lemma untagged_line: "untagged (alert_line a)"
  by (simp add: alert_line_def Let_def)

lemma untagged_header: "untagged (message_header p)"
  by (simp add: message_header_def)

lemma set_rstrip: "set (rstrip s) \<subseteq> set s"
proof (induction s rule: rstrip.induct)
  case (1 s)
  then show ?case by (subst rstrip.simps) (auto split: option.split dest: in_set_takeD)
qed

lemma untagged_projected:
  assumes "untagged header" "list_all untagged ls"
  shows "untagged (projected header ls n)"
proof -
  have "untagged (join [CHR 0x0A] (header # ls @ [footer n]))"
    by (intro untagged_join) (use assms in \<open>simp_all add: untagged_footer\<close>)
  then show ?thesis unfolding projected_def using set_rstrip by (auto simp: untagged_def)
qed

lemma render_lines_spec:
  "\<exists>shown. subseq shown (map (\<lambda>a. alert_line (dict_of a)) alerts)
     \<and> render_lines header ls n alerts = (ls @ shown, n + int (length alerts) - int (length shown))"
proof (induction alerts arbitrary: ls n)
  case Nil
  show ?case by (intro exI [of _ "[]"]) simp
next
  case (Cons a alerts)
  show ?case
  proof (cases "MAX_MESSAGE_CHARS < ulen (projected header (ls @ [alert_line (dict_of a)]) n)")
    case True
    from Cons [of ls "n + 1"] obtain shown where "subseq shown (map (\<lambda>a. alert_line (dict_of a)) alerts)"
      "render_lines header ls (n + 1) alerts = (ls @ shown, n + 1 + int (length alerts) - int (length shown))" by blast
    with True show ?thesis by (intro exI [of _ shown]) (auto simp: Let_def)
  next
    case False
    from Cons [of "ls @ [alert_line (dict_of a)]" n] obtain shown where "subseq shown (map (\<lambda>a. alert_line (dict_of a)) alerts)"
      "render_lines header (ls @ [alert_line (dict_of a)]) n alerts
         = (ls @ alert_line (dict_of a) # shown, n + int (length alerts) - int (length shown))" by auto
    with False show ?thesis by (intro exI [of _ "alert_line (dict_of a) # shown"]) (simp add: Let_def)
  qed
qed

text \<open>
  C39: The rendered message accounts for every alert. It is the header, a line for each of some of
  the alerts in their order, at least one, and a footer with the number of alerts without a line
  added to the number Alertmanager had already cut; it has at most 4096 code points, and no label
  or annotation can put a markup character into it.
\<close>

theorem message_complete:
  assumes "render_message payload = Inr message"
  shows "\<exists>shown. shown \<noteq> [] \<and> subseq shown (map (\<lambda>a. alert_line (dict_of a)) (list_of (item payload ''alerts'')))
     \<and> message = projected (message_header payload) shown (int_of (item payload ''truncatedAlerts'')
         + int (length (list_of (item payload ''alerts''))) - int (length shown))
     \<and> ulen message \<le> 4096 \<and> untagged message"
proof -
  obtain shown where s: "subseq shown (map (\<lambda>a. alert_line (dict_of a)) (list_of (item payload ''alerts'')))"
    "render_lines (message_header payload) [] (int_of (item payload ''truncatedAlerts'')) (list_of (item payload ''alerts''))
       = (shown, int_of (item payload ''truncatedAlerts'') + int (length (list_of (item payload ''alerts''))) - int (length shown))"
    using render_lines_spec [of "list_of (item payload ''alerts'')" "message_header payload" "[]"] by auto
  from s(1) have "list_all untagged shown"
    by (fastforce simp: list_all_iff untagged_line elim: list_emb_set)
  with assms s show ?thesis
    by (intro exI [of _ shown])
       (auto simp: render_message_def Let_def MAX_MESSAGE_CHARS_def untagged_projected untagged_header split: if_split_asm)
qed

definition sample_alert :: pv where
  "sample_alert = PDict [(''status'', PStr ''firing''),
     (''labels'', PDict [(''environment'', PStr ''prod''), (''node'', PStr ''n1''), (''component'', PStr ''vpn'')]),
     (''annotations'', PDict [(''summary'', PStr ''a<b''), (''evidence_class'', PStr ''e''), (''runbook'', PStr ''r'')]),
     (''startsAt'', PStr ''t''), (''endsAt'', PStr ''u''), (''generatorURL'', PStr []), (''fingerprint'', PStr ''0123456789abcdef'')]"

definition sample_payload :: dict where
  "sample_payload = [(''version'', PStr ''4''), (''groupKey'', PStr ''g''), (''truncatedAlerts'', PInt 2), (''status'', PStr ''firing''),
     (''receiver'', PStr ''telegram-primary''), (''groupLabels'', PDict []), (''commonLabels'', PDict [(''alertname'', PStr ''A'')]),
     (''commonAnnotations'', PDict [(''source_generation'', PStr (replicate 40 (CHR ''0'')))]), (''externalURL'', PStr []),
     (''alerts'', PList [sample_alert])]"

lemma spaces_last: "list_all (\<lambda>w. w = [] \<or> \<not> (32 < ord_of (last w) \<and> ord_of (last w) < 127)) spaces"
  by (simp add: spaces_def utf8_def upt_rec)

lemma rstrip_printable: "32 < ord_of (last s) \<Longrightarrow> ord_of (last s) < 127 \<Longrightarrow> rstrip s = s"
proof -
  assume s: "32 < ord_of (last s)" "ord_of (last s) < 127"
  have "\<not> ends_with w s" if "w \<in> set spaces" "w \<noteq> []" for w
  proof
    assume "ends_with w s"
    then have "last w = last s" using that(2) by (metis append_take_drop_id ends_with_def last_appendR)
    with s that spaces_last show False by (auto simp: list_all_iff)
  qed
  then have "find (\<lambda>w. w \<noteq> [] \<and> ends_with w s) spaces = None" by (auto simp: find_None_iff)
  then show ?thesis by (subst rstrip.simps) simp
qed

lemma sample_message:
  "render_message sample_payload = Inr (''FIRING: A source='' @ replicate 40 (CHR ''0'') @ [CHR 0x0A]
     @ ''- prod/n1/vpn: a&lt;b [e] r started=t'' @ [CHR 0x0A] @ ''... omitted 2 alerts'')"
proof -
  have n: "show_int 2 = ''2''" by code_simp
  show ?thesis
    by (simp add: render_message_def sample_payload_def sample_alert_def message_header_def alert_line_def escaped_def
        escape_char_def projected_def footer_def n Let_def item_def has_key_def rstrip_printable ulen_def MAX_MESSAGE_CHARS_def)
qed

theorem message_complete_witness:
  "\<exists>message shown. render_message sample_payload = Inr message
     \<and> message = projected (message_header sample_payload) shown (3 - int (length shown)) \<and> ulen message \<le> 4096 \<and> untagged message"
  using message_complete [OF sample_message] unfolding sample_message
  by (auto simp: sample_payload_def)

lemma sample_payload_accepted: "check_payload (PDict sample_payload) = Inr sample_payload"
  by code_simp

section \<open>The delivery canary\<close>

lemma number_update [simp]: "number (AList.update k (PInt i) d) k' = (if k' = k then i else number d k')"
  by (simp add: number_def item_update)

lemma message_body_text: "message_body c meth mid silent message = Inr body \<Longrightarrow> item body ''text'' = PStr message"
  by (auto simp: message_body_def Let_def item_def split: if_split_asm)

lemma deliver_safe:
  assumes post: "\<And>w p. I w \<Longrightarrow> item (content p) ''text'' = PStr message \<Longrightarrow> I (w\<lparr>posts := posts w @ [p]\<rparr>)"
    and late: "\<And>w t. I w \<Longrightarrow> I (w\<lparr>deadline := t\<rparr>)"
  shows "safe I (deliver calls c meth mid silent message) (\<lambda>_. I) I"
proof -
  have one: "safe I (deliver_attempt k url body) (\<lambda>_. I) I" if "item body ''text'' = PStr message" for k url body
    unfolding deliver_attempt_def flood_defer_def seq_assoc
  proof (rule safe_seq [where R = "\<lambda>_. I", OF safe_look], assumption,
      rule safe_seq [where R = "\<lambda>_. I", OF safe_publish])
    fix u v
    show "safe I (case answer k of
        Answered status raw \<Rightarrow> seq (look (\<lambda>_. delivered status raw)) (\<lambda>parsed. ret (Delivered parsed))
      | HttpError code raw header \<Rightarrow> if code = 429 then seq (look (\<lambda>_. retry_after raw header)) (\<lambda>delay.
           seq (look (\<lambda>_. defer_until (defer_clock k) delay)) (\<lambda>t.
           seq (publish (\<lambda>w. w\<lparr>deadline := max (deadline w) t\<rparr>)) (\<lambda>_. ret (Again True delay))))
         else ret (Again (500 \<le> code \<and> code \<le> 599) 1)
      | Unreachable \<Rightarrow> ret (Again True 1)
      | Garbled \<Rightarrow> fail (RRaised HTTPException)) (\<lambda>_. I) I"
      by (cases "answer k") (auto intro!: late safe_seq [where R = "\<lambda>_. I"] safe_look safe_ret safe_fail safe_publish)
  qed (auto intro!: post simp: that)
  have loop: "safe I (deliver_from calls url body is') (\<lambda>_. I) I" if "item body ''text'' = PStr message" for url body is'
  proof (induction is')
    case (Cons i is')
    then show ?case
      by (auto intro!: safe_seq [OF one [OF that]] safe_ret safe_fail split: attempted.split)
  qed (simp add: safe_fail)
  show ?thesis
    unfolding deliver_def
  proof (rule safe_seq [where R = "\<lambda>body w. I w \<and> item body ''text'' = PStr message", OF safe_look])
    show "safe (\<lambda>w. I w \<and> item body ''text'' = PStr message)
        (deliver_from calls (TELEGRAM_API_URL @ ''/bot'' @ bot_token c @ ''/'' @ meth) body [0..<RETRY_ATTEMPTS]) (\<lambda>_. I) I" for body
      by (rule safe_pre_pure) (rule loop)
  qed (auto simp: bind_res_Inr dest: message_body_text)
qed

lemma save_safe:
  assumes "\<And>w. I w \<Longrightarrow> C (w\<lparr>faults := tl (faults w)\<rparr>)"
    and "\<And>w. I w \<Longrightarrow> J (w\<lparr>receipts_file := Some (atomic_write (ruid w) (receipts_text (receipts w))), faults := tl (faults w)\<rparr>)"
    and "\<And>w. J w \<Longrightarrow> C w"
  shows "safe I save (\<lambda>_. J) C"
  unfolding save_def
proof (rule safe_seq [where R = "\<lambda>_. I", OF safe_look], assumption, rule safe_if)
  show "safe I (seq (publish (\<lambda>w. w\<lparr>faults := tl (faults w)\<rparr>)) (\<lambda>_. fail (RRaised OSError))) (\<lambda>_. J) C"
    by (rule safe_seq [where R = "\<lambda>_ _. True", OF safe_publish]) (auto intro: assms safe_fail)
  show "safe I (seq (publish (\<lambda>w. w\<lparr>receipts_file := Some (atomic_write (ruid w) (receipts_text (receipts w))), faults := tl (faults w)\<rparr>)) (\<lambda>_.
       if fs \<noteq> [] \<and> hd fs = AfterReplace then fail (RRaised OSError) else ret ())) (\<lambda>_. J) C" for fs
    by (rule safe_seq [where R = "\<lambda>_. J", OF safe_publish]) (auto intro: assms safe_fail safe_ret)
qed

text \<open>\<open>numbered\<close>: only canary texts with the number \<open>n\<close> were sent, each while the file held \<open>n\<close>.\<close>

definition canary_text :: "int \<Rightarrow> post \<Rightarrow> bool" where
  "canary_text n p \<longleftrightarrow> item (content p) ''text'' = PStr (''Monitoring delivery canary '' @ show_int n)
     \<or> item (content p) ''text'' = PStr (''Monitoring delivery canary sequence '' @ show_int n)"

definition reserved :: "int \<Rightarrow> rworld \<Rightarrow> bool" where
  "reserved n w \<longleftrightarrow> (\<exists>u d. receipts_file w = Some (atomic_write u (receipts_text d)) \<and> number d ''edit_sequence'' = n)"

definition numbered :: "post list \<Rightarrow> int \<Rightarrow> rworld \<Rightarrow> bool" where
  "numbered S n w \<longleftrightarrow> number (receipts w) ''edit_sequence'' = n
     \<and> (\<exists>sent. posts w = S @ sent \<and> (\<forall>p \<in> set sent. canary_text n p) \<and> (sent \<noteq> [] \<longrightarrow> reserved n w))"

definition ready :: "post list \<Rightarrow> int \<Rightarrow> rworld \<Rightarrow> bool" where
  "ready S n w \<longleftrightarrow> numbered S n w \<and> reserved n w"

definition confirmed :: "int \<Rightarrow> rworld \<Rightarrow> bool" where
  "confirmed now w \<longleftrightarrow> number (receipts w) ''edit_at'' = now
     \<and> receipts_file w = Some (atomic_write (ruid w) (receipts_text (receipts w)))"

lemma ready_saved:
  "ready S n w \<Longrightarrow> ready S n (w\<lparr>receipts_file := Some (atomic_write (ruid w) (receipts_text (receipts w)))\<rparr>)"
  unfolding ready_def numbered_def reserved_def by fastforce

lemma ready_kept:
  "ready S n (w\<lparr>faults := f\<rparr>) = ready S n w" "ready S n (w\<lparr>deadline := t\<rparr>) = ready S n w"
  "k \<noteq> ''edit_sequence'' \<Longrightarrow> ready S n (w\<lparr>receipts := AList.update k (PInt i) (receipts w)\<rparr>) = ready S n w"
  by (simp_all add: ready_def numbered_def reserved_def)

lemma ready_post:
  assumes "ready S n w" "canary_text n p"
  shows "ready S n (w\<lparr>posts := posts w @ [p]\<rparr>)"
proof -
  from assms(1) obtain sent where s: "posts w = S @ sent" "\<forall>p \<in> set sent. canary_text n p" "reserved n w"
    "number (receipts w) ''edit_sequence'' = n"
    unfolding ready_def numbered_def by blast
  have "\<exists>sent'. (S @ sent) @ [p] = S @ sent' \<and> (\<forall>p \<in> set sent'. canary_text n p)"
    using s assms(2) by (intro exI [of _ "sent @ [p]"]) auto
  with s show ?thesis unfolding ready_def numbered_def by (auto simp: reserved_def)
qed

lemma ready_deliver:
  assumes "message = ''Monitoring delivery canary '' @ show_int n \<or> message = ''Monitoring delivery canary sequence '' @ show_int n"
  shows "safe (ready S n) (deliver calls c meth mid silent message) (\<lambda>_. ready S n) (ready S n)"
  using assms by (intro deliver_safe) (auto simp: ready_kept canary_text_def intro!: ready_post)

lemma ready_put: "k \<noteq> ''edit_sequence'' \<Longrightarrow> safe (ready S n) (put k i) (\<lambda>_. ready S n) (ready S n)"
  unfolding put_def by (rule safe_publish) (simp_all add: ready_kept)

lemma ready_save: "safe (ready S n) save (\<lambda>_. ready S n) (ready S n)"
  by (rule save_safe) (auto simp: ready_kept intro: ready_saved)

lemma ready_send: "safe (ready S n) (canary_send calls c now n) (\<lambda>_. ready S n) (ready S n)"
  unfolding canary_send_def
  by (rule safe_seq [OF ready_deliver]) (auto intro!: safe_fail safe_seq [OF ready_put] ready_save)

lemma ready_edit:
  "safe (ready S n) (canary_edit calls c now n) (\<lambda>_ w. ready S n w \<and> confirmed now w) (ready S n)"
  unfolding canary_edit_def
proof (rule safe_seq [where R = "\<lambda>_. ready S n", OF safe_look], assumption, rule safe_seq [OF ready_deliver], simp, rule safe_if)
  let ?Q = "\<lambda>_ w. ready S n w \<and> confirmed now w"
  have set_at: "safe (ready S n) (put ''edit_at'' now) (\<lambda>_ w. ready S n w \<and> number (receipts w) ''edit_at'' = now) (ready S n)"
    unfolding put_def by (rule safe_publish) (simp_all add: ready_kept)
  have store: "safe (\<lambda>w. ready S n w \<and> number (receipts w) ''edit_at'' = now) save (\<lambda>_ w. ready S n w \<and> confirmed now w) (ready S n)"
    by (rule save_safe) (auto simp: ready_kept confirmed_def intro: ready_saved)
  have reset: "safe (ready S n) (if e = RRaised OSError then seq (put ''edit_at'' 0) (\<lambda>_. fail e) else fail e) ?Q (ready S n)" for e
    by (auto intro!: safe_fail safe_seq [OF ready_put])
  show "safe (ready S n) (seq (put ''edit_at'' now) (\<lambda>_.
      handle save (\<lambda>e. if e = RRaised OSError then seq (put ''edit_at'' 0) (\<lambda>_. fail e) else fail e))) ?Q (ready S n)"
    by (rule safe_seq [OF set_at], rule safe_handle [OF store safe_weaken [OF store] _ reset]) auto
qed (rule safe_fail)

lemma canary_safe:
  "safe (\<lambda>w. posts w = S \<and> number (receipts w) ''edit_sequence'' + 1 = n) (canary sends edits c now)
     (\<lambda>_ w. ready S n w \<and> confirmed now w) (numbered S n)"
  unfolding canary_def
proof (rule safe_seq [where R = "\<lambda>m w. posts w = S \<and> m = n", OF safe_look])
  let ?N = "\<lambda>w. posts w = S \<and> number (receipts w) ''edit_sequence'' = n"
  have N: "?N w \<Longrightarrow> numbered S n w" for w by (simp add: numbered_def)
  have put1: "safe (\<lambda>w. posts w = S) (put ''edit_sequence'' n) (\<lambda>_. ?N) (numbered S n)"
    unfolding put_def by (rule safe_publish) (simp_all add: numbered_def)
  have put2: "safe ?N (put ''edit_at'' 0) (\<lambda>_. ?N) (numbered S n)"
    unfolding put_def by (rule safe_publish) (simp_all add: numbered_def)
  have save1: "safe ?N save (\<lambda>_. ready S n) (numbered S n)"
    by (rule save_safe) (auto simp: numbered_def ready_def reserved_def)
  have rest: "safe (ready S n) (seq (look (\<lambda>w. Inr (number (receipts w) ''message_id'' = 0
            \<or> \<not> (0 \<le> now - number (receipts w) ''send_at'' \<and> now - number (receipts w) ''send_at'' < 86400)))) (\<lambda>renew.
     seq (only_if renew (canary_send sends c now n)) (\<lambda>_. canary_edit edits c now n)))
     (\<lambda>_ w. ready S n w \<and> confirmed now w) (ready S n)"
    by (auto intro!: safe_seq [where R = "\<lambda>_. ready S n"] safe_look safe_only_if ready_send ready_edit)
  have rest': "safe (ready S n) (seq (look (\<lambda>w. Inr (number (receipts w) ''message_id'' = 0
            \<or> \<not> (0 \<le> now - number (receipts w) ''send_at'' \<and> now - number (receipts w) ''send_at'' < 86400)))) (\<lambda>renew.
     seq (only_if renew (canary_send sends c now n)) (\<lambda>_. canary_edit edits c now n)))
     (\<lambda>_ w. ready S n w \<and> confirmed now w) (numbered S n)"
    by (rule safe_weaken [OF rest]) (auto simp: ready_def)
  show "safe (\<lambda>w. posts w = S \<and> m = n) (seq (put ''edit_sequence'' m) (\<lambda>_. seq (put ''edit_at'' 0) (\<lambda>_. seq save (\<lambda>_.
     seq (look (\<lambda>w. Inr (number (receipts w) ''message_id'' = 0
            \<or> \<not> (0 \<le> now - number (receipts w) ''send_at'' \<and> now - number (receipts w) ''send_at'' < 86400)))) (\<lambda>renew.
     seq (only_if renew (canary_send sends c now m)) (\<lambda>_. canary_edit edits c now m))))))
     (\<lambda>_ w. ready S n w \<and> confirmed now w) (numbered S n)" for m
    by (rule safe_pre_pure, simp only:, rule safe_seq [OF put1], rule safe_seq [OF put2], rule safe_seq [OF save1], rule rest')
qed auto

text \<open>
  C10: The delivery canary never reuses a text. At every moment of a run, and so wherever the process
  dies or a write fails, each request of the run carries the number one above the one in memory at
  the start, and once one is sent that number is in the receipts file; a run that completes
  leaves the confirmation time in memory and in the file.
\<close>

theorem canary_numbered:
  assumes "w' \<in> set (steps (canary sends edits c now) w)" "n = number (receipts w) ''edit_sequence'' + 1"
  shows "\<exists>sent. posts w' = posts w @ sent \<and> (\<forall>p \<in> set sent. canary_text n p)
       \<and> (sent \<noteq> [] \<longrightarrow> reserved n w') \<and> number (receipts w') ''edit_sequence'' = n
       \<and> (outcome (canary sends edits c now) w = Inr () \<longrightarrow> confirmed now (after (canary sends edits c now) w))"
proof -
  note safe = canary_safe [of "posts w" n sends edits c now]
  from safe_outcomeD [OF safe, of w] assms(2)
  have "outcome (canary sends edits c now) w = Inr () \<longrightarrow> confirmed now (after (canary sends edits c now) w)" by auto
  with safe_stepsD [OF safe _ assms(1)] assms(2) show ?thesis unfolding numbered_def by auto
qed

definition confirming :: "nat \<Rightarrow> call" where
  "confirming i = \<lparr>lock_free = True, clock = 20,
     answer = Answered 200 (dumps (PDict [(''ok'', PBool True), (''result'', PDict [(''message_id'', PInt 5)])])), defer_clock = 20\<rparr>"

theorem canary_numbered_witness:
  "\<exists>w' \<in> set (steps (canary confirming confirming sample_config 100) sample_rworld). number (receipts w') ''edit_sequence'' = 1"
proof -
  have "steps (canary confirming confirming sample_config 100) sample_rworld \<noteq> []"
    by (simp add: canary_def put_def dio_eval)
  then obtain w' where w': "w' \<in> set (steps (canary confirming confirming sample_config 100) sample_rworld)"
    by (meson list.set_sel(1))
  moreover have "1 = number (receipts sample_rworld) ''edit_sequence'' + 1"
    by (simp add: number_def sample_rworld_def sample_receipts_def initial_receipts_def)
  ultimately show ?thesis using canary_numbered [OF w'] by blast
qed

section \<open>Receipts and replays\<close>

text \<open>The receipts a running relay holds: the six fields, in any order.\<close>

definition receipts_ok :: "dict \<Rightarrow> bool" where
  "receipts_ok d \<longleftrightarrow> distinct (map fst d) \<and> keys_are d (map fst (initial_receipts []))
     \<and> list_all (\<lambda>kv. fst kv = ''authority'' \<or> type_is_int (snd kv) \<and> 0 \<le> int_of (snd kv) \<and> int_of (snd kv) < 10 ^ 18) d
     \<and> is_str (item d ''authority'') \<and> hex64 (str_of (item d ''authority''))"

lemma receipts_ok_field:
  assumes "receipts_ok d" "(k, v) \<in> set d"
  shows "k \<in> set (map fst (initial_receipts []))"
    "(k = ''authority'' \<and> (\<exists>s. v = PStr s \<and> hex64 s)) \<or> (\<exists>i. v = PInt i \<and> 0 \<le> i \<and> i < 10 ^ 18)"
proof -
  show "k \<in> set (map fst (initial_receipts []))"
    using assms by (force simp: receipts_ok_def keys_are_iff)
  have "item d k = v" using assms by (auto simp: receipts_ok_def item_def)
  then show "(k = ''authority'' \<and> (\<exists>s. v = PStr s \<and> hex64 s)) \<or> (\<exists>i. v = PInt i \<and> 0 \<le> i \<and> i < 10 ^ 18)"
    using assms by (auto simp: receipts_ok_def list_all_iff pv_test_iff)
qed

lemma hex_plain: "hex64 s \<Longrightarrow> is_ascii s \<and> length (quote s) = 66"
  using length_quote [OF unescaped_hex, of s]
  by (auto simp: hex64_def repeated_def is_ascii_def list_all_iff is_hex_def is_digit_def)

lemma receipts_item:
  assumes "receipts_ok d" "(k, v) \<in> set d"
  shows "is_ascii k" "plain v" "length (quote k @ '':'' @ dumps v) \<le> 85"
proof -
  have k: "is_ascii k" "length (quote k) \<le> 18"
    using receipts_ok_field(1) [OF assms] by (auto simp: initial_receipts_def quote_unescaped unescaped_def)
  then show "is_ascii k" by simp
  have "plain (PInt i) \<and> length (dumps (PInt i)) \<le> 66" if "0 \<le> i" "i < 10 ^ 18" for i
    using that length_show_int [of i 18] length_show_nat [of "nat i" 18] by (simp add: nat_less_iff)
  then have "plain v \<and> length (dumps v) \<le> 66"
    using receipts_ok_field(2) [OF assms] hex_plain by (elim disjE exE conjE) simp_all
  with k show "plain v" "length (quote k @ '':'' @ dumps v) \<le> 85" by auto
qed

lemma receipts_plain: "receipts_ok d \<Longrightarrow> plain (PDict d)"
  using receipts_item by (auto simp: list_all_iff receipts_ok_def)

lemma receipts_size: "receipts_ok d \<Longrightarrow> length (receipts_text d) \<le> 1024"
proof -
  assume ok: "receipts_ok d"
  have "length d = card (set (map fst d))" using ok distinct_card [of "map fst d"] by (simp add: receipts_ok_def)
  also have "\<dots> = 6" using ok by (simp add: receipts_ok_def keys_are_iff initial_receipts_def)
  finally have n: "length d = 6" .
  have "sum_list (map (\<lambda>kv. length (quote (fst kv) @ '':'' @ dumps (snd kv))) d) \<le> 85 * 6"
    using sum_list_bound [of d "\<lambda>kv. length (quote (fst kv) @ '':'' @ dumps (snd kv))" 85] receipts_item(3) [OF ok] n by force
  then show ?thesis by (simp add: receipts_text_def length_join n comp_def)
qed

lemma read_receipts_ok: "receipts_ok d \<Longrightarrow> read_receipts (PDict d) = Inr d"
  by (auto simp: read_receipts_def receipts_ok_def Let_def list_all_iff)

text \<open>
  C37: Receipts survive a restart. What the relay saved is within the size the next start accepts and
  is read back exactly, under the same authority; under another authority only the sequence number
  is carried over, so that no text is ever reused.
\<close>

theorem receipts_survive_restart:
  assumes "receipts_ok (receipts w)" "outcome save w = Inr ()" "receipts_file v = receipts_file (after save w)"
  shows "(outcome (load_receipts dangling authority) v = Inr () \<longrightarrow>
     receipts (after (load_receipts dangling authority) v) =
       (if item (receipts w) ''authority'' = PStr authority then receipts w
        else AList.update ''edit_sequence'' (item (receipts w) ''edit_sequence'') (initial_receipts authority)))
    \<and> (faults v = [] \<longrightarrow> outcome (load_receipts dangling authority) v = Inr ())" (is "?exact \<and> ?loads")
proof
  from assms(2) have f: "receipts_file v = Some (atomic_write (ruid w) (receipts_text (receipts w)))"
    unfolding assms(3) save_def by (auto simp: dio_eval after_def split: if_split_asm)
  have load: "load_receipts dangling authority v = seq (publish (\<lambda>w. w\<lparr>receipts := initial_receipts authority\<rparr>)) (\<lambda>_.
      if item (receipts w) ''authority'' = PStr authority then publish (\<lambda>u. u\<lparr>receipts := receipts w\<rparr>)
      else seq (publish (\<lambda>u. u\<lparr>receipts := AList.update ''edit_sequence'' (item (receipts w) ''edit_sequence'') (receipts u)\<rparr>)) (\<lambda>_. save)) v"
    using decode_json_dumps [OF keeps_distinct_plain receipts_plain [OF assms(1)]] receipts_size [OF assms(1)]
    unfolding load_receipts_def seq_publish seq_look
    by (simp add: f read_receipts_ok [OF assms(1)] receipts_text_def del: dumps.simps)
  show ?exact unfolding after_def load by (auto simp: dio_eval save_def split: if_splits)
  show ?loads unfolding load by (auto simp: dio_eval save_def)
qed

lemma sample_receipts_ok: "receipts_ok sample_receipts"
  by (simp add: receipts_ok_def sample_receipts_def initial_receipts_def keys_are_iff hex64_def repeated_def text_defs list_all_iff)

theorem receipts_survive_restart_witness:
  "receipts (after (load_receipts False (replicate 64 (CHR ''f''))) (after save sample_rworld)) = sample_receipts"
proof -
  have ok: "receipts_ok (receipts sample_rworld)" by (simp add: sample_rworld_def sample_receipts_ok)
  have saved: "outcome save sample_rworld = Inr ()" "faults (after save sample_rworld) = []"
    by (simp_all add: save_def dio_eval after_def sample_rworld_def)
  note both = receipts_survive_restart [OF ok saved(1) refl, of False "replicate 64 (CHR ''f'')"]
  from both saved(2) show ?thesis
    by (simp add: sample_rworld_def sample_receipts_def initial_receipts_def)
qed

lemma pipeline_instant_same:
  "pipeline_instant wide payload now = Inr t \<Longrightarrow> pipeline_instant wide payload later = Inr u \<Longrightarrow> t = u"
  by (auto simp: pipeline_instant_def Let_def split: if_split_asm pv.splits option.splits pyfloat.splits)

lemma pipeline_instant_refusal: "pipeline_instant wide payload now = Inl e \<Longrightarrow> \<exists>c. e = Refusal c"
  by (auto simp: pipeline_instant_def Let_def split: if_split_asm pv.splits option.splits pyfloat.splits)


definition sample_canary :: dict where
  "sample_canary = [(''status'', PStr ''firing''), (''alerts'', PList [PDict
     [(''labels'', PDict [(''alertname'', PStr ''ObservabilityPipelineCanary'')]),
      (''annotations'', PDict [(''evaluated_at'', PStr ''99.5'')])]])]"

lemma sample_instant: "pipeline_instant (\<lambda>_. None) sample_canary 100 = Inr 99"
proof -
  have "py_float (\<lambda>_. None) ''99.5'' = Some (Fin (199 / 2))" by code_simp
  moreover have "round64 (1 / 2) = Fin (1 / 2)" by code_simp
  moreover have "\<lfloor>199 / 2 :: rat\<rfloor> = 99" by (rule floor_unique) simp_all
  ultimately show ?thesis by (simp add: pipeline_instant_def sample_canary_def trunc_def)
qed


section \<open>Requests without an answer\<close>

definition delivery_error :: "rerr \<Rightarrow> bool" where
  "delivery_error e = (case e of RRaised x \<Rightarrow> x = ValueError \<or> x = HTTPException | RUnicode \<Rightarrow> False | _ \<Rightarrow> True)"

definition canary_error :: "rerr \<Rightarrow> bool" where
  "canary_error e \<longleftrightarrow> delivery_error e \<or> e = RRaised OSError"

definition alert_error :: "rerr \<Rightarrow> bool" where
  "alert_error e \<longleftrightarrow> canary_error e \<or> e = RRaised TypeError"

lemma delivery_error_simps [simp]:
  "delivery_error (Refusal c)" "delivery_error (DeliveryFailure c)" "\<not> delivery_error RUnicode"
  "delivery_error (RRaised x) \<longleftrightarrow> x = ValueError \<or> x = HTTPException"
  by (simp_all add: delivery_error_def)

lemmas error_classes = canary_error_def alert_error_def

definition payload_error :: "rerr \<Rightarrow> bool" where
  "payload_error e \<longleftrightarrow> e = contract \<or> e = RRaised TypeError"

lemma check_errors:
  "bounded_string pattern m v = Inl e \<Longrightarrow> payload_error e"
  "bounded_mapping v = Inl e \<Longrightarrow> payload_error e"
  "one_of names v = Inl e \<Longrightarrow> payload_error e"
  by (auto simp: bounded_string_def bounded_mapping_def one_of_def payload_error_def bind_res_Inl split: if_split_asm dest!: each_Inl)

lemma each_error: "each f xs = Inl e \<Longrightarrow> (\<And>x e. f x = Inl e \<Longrightarrow> P e) \<Longrightarrow> P e"
  using each_Inl by metis

lemma check_alert_error: "check_alert labels v = Inl e \<Longrightarrow> payload_error e"
  unfolding check_alert_def Let_def
  by (auto simp: bind_res_Inl payload_error_def [of contract] split: if_split_asm dest: check_errors dest!: each_error [OF _ check_errors(1)])

lemma check_payload_error: "check_payload v = Inl e \<Longrightarrow> payload_error e"
  unfolding check_payload_def Let_def
  by (auto simp: bind_res_Inl payload_error_def [of contract] split: if_split_asm dest: check_errors check_alert_error
      dest!: each_error [OF _ check_errors(2)] each_error [OF _ check_alert_error])

lemma parse_payload_error: "parse_payload raw = Inl e \<Longrightarrow> alert_error e"
  by (auto simp: parse_payload_def error_classes payload_error_def contract_def dest!: check_payload_error
      split: if_split_asm sum.splits decode_error.splits json_error.splits)

lemma deliver_raises: "raises delivery_error (deliver calls c meth mid silent message)"
proof -
  have r: "retry_after raw header = Inl e \<Longrightarrow> delivery_error e" for raw header e
    by (auto simp: retry_after_def flood_def Let_def split: option.splits if_split_asm sum.splits)
  have d: "delivered status raw = Inl e \<Longrightarrow> delivery_error e" for status raw e
    by (auto simp: delivered_def split: if_split_asm sum.splits decode_error.splits json_error.splits)
  have u: "defer_until t delay = Inl e \<Longrightarrow> delivery_error e" for t delay e
    by (auto simp: defer_until_def flood_def split: pyfloat.splits)
  have a: "raises delivery_error (deliver_attempt k url body)" for k url body
    unfolding deliver_attempt_def flood_defer_def
    by (intro raises_intros; (cases "answer k")?)
       (auto intro!: raises_intros dest: r d u split: if_split_asm)
  have l: "raises delivery_error (deliver_from calls url body is')" for url body is'
    by (induction is') (auto intro!: raises_intros a split: attempted.split)
  show ?thesis
    unfolding deliver_def
    by (intro raises_intros l)
       (auto simp: bind_res_Inl validate_delivery_contract_def message_body_def Let_def split: if_split_asm)
qed

lemma save_raises: "raises (\<lambda>e. e = RRaised OSError) save"
  unfolding save_def by (intro raises_intros) auto

lemma put_raises: "raises E (put k i)"
  unfolding put_def by (intro raises_intros)

lemma canary_raises: "raises canary_error (canary sends edits c now)"
proof -
  have s: "raises canary_error save" by (rule raises_weaken [OF save_raises]) (simp add: canary_error_def)
  have d: "raises canary_error (deliver calls c meth mid silent message)" for calls meth mid silent message
    by (rule raises_weaken [OF deliver_raises]) (simp add: canary_error_def)
  have reset: "raises canary_error (if e = RRaised OSError then seq (put ''edit_at'' 0) (\<lambda>_. fail e) else fail e)"
    if "e = RRaised OSError" for e
    using that by (auto intro!: raises_intros put_raises simp: canary_error_def)
  have h: "raises canary_error (handle save (\<lambda>e. if e = RRaised OSError then seq (put ''edit_at'' 0) (\<lambda>_. fail e) else fail e))"
    by (rule raises_handle [OF save_raises]) (rule reset)
  show ?thesis
    unfolding canary_def canary_send_def canary_edit_def
    by (intro raises_intros put_raises s d h) (auto simp: canary_error_def)
qed

lemma accept_alert_raises: "raises alert_error (accept_alert wide calls c now n r)"
proof -
  have s: "raises alert_error save" by (rule raises_weaken [OF save_raises]) (simp add: error_classes)
  have d: "raises alert_error (deliver calls c meth mid silent message)" for meth mid silent message
    by (rule raises_weaken [OF deliver_raises]) (simp add: error_classes)
  show ?thesis
    unfolding accept_alert_def pipeline_def
    by (intro raises_intros put_raises s d)
       (auto simp: error_classes render_message_def Let_def bind_res_Inl split: option.splits if_split_asm prod.splits
         dest!: pipeline_instant_refusal parse_payload_error)
qed


definition garbled :: "nat \<Rightarrow> call" where
  "garbled i = \<lparr>lock_free = True, clock = 20, answer = Garbled, defer_clock = 20\<rparr>"

definition sample_request :: rrequest where
  "sample_request = \<lparr>rpath = ''/v1/delivery-canary'', authorization = ''Bearer '' @ auth_token sample_config,
     content_length = None, content_type = None, rbody = None\<rparr>"

lemma sample_canary_garbled: "outcome (canary garbled garbled sample_config 100) sample_rworld = Inl (RRaised HTTPException)"
proof -
  have "message_body sample_config ''sendMessage'' PNone True m = Inr [(''chat_id'', PStr ''-100''), (''text'', PStr m),
      (''parse_mode'', PStr ''HTML''), (''disable_web_page_preview'', PBool True), (''disable_notification'', PBool True),
      (''message_thread_id'', PInt 7)]" for m by (simp add: message_body_def sample_config_def)
  then show ?thesis
    by (simp add: canary_def canary_send_def deliver_def deliver_attempt_def put_def save_def dio_eval seq_assoc
        sample_contract sample_rworld_def sample_receipts_def initial_receipts_def number_def garbled_def
        refuse_if_def RETRY_ATTEMPTS_def upt_rec)
qed

lemma sample_unanswered: "outcome (do_POST (\<lambda>_. None) garbled garbled sample_config 100 sample_request) sample_rworld = Inl (RRaised HTTPException)"
proof -
  have "authorized sample_config sample_request = Inr True"
    by (simp add: authorized_def sample_request_def sample_config_def is_ascii_def list_all_iff)
  moreover have "rpath sample_request = ''/v1/delivery-canary''" "content_length sample_request = None"
    by (simp_all add: sample_request_def)
  moreover obtain t where "canary garbled garbled sample_config 100 sample_rworld = (t, Inl (RRaised HTTPException))"
    using sample_canary_garbled by (metis prod.collapse)
  ultimately show ?thesis
    by (simp add: do_POST_def handle_def seq_def look_def canary_failure_def run_prims)
qed


end
