(* ===== verification/StagingLifecycle.thy ===== *)
theory StagingLifecycle
  imports Json
begin

text \<open>
  The registry of staging nodes that a controller may destroy
  (\<^verbatim>\<open>scripts/staging_lifecycle.py\<close>): one journal per node, kept under a lock, with the current
  manifest generation, a pending publication, the claim of a destruction and the history.

  A path is the list of its parts below the root. The world is the file system, as files and
  directories by path, and the journals this thread holds. Every replacement or link of a file is
  one step, before or after which the process may die or the call may raise (\<open>wfaults\<close>).
  Reading a file is one step, so the check that the name still shows the file that was opened never
  fires for a reader; for the lock file it is modelled. An \<open>OSError\<close> inside a section that \<open>_parent\<close>
  opened becomes the \<open>unavailable\<close> refusal.

  Parameters (\<open>senv\<close>): the SHA-256, the home directory, the environment variable with an inherited lock
  descriptor and what that descriptor refers to, and whether another process holds the lock. The
  provider guard that \<open>operation\<close> decorates is an arbitrary program.
\<close>

section \<open>World\<close>

datatype serr = GuardError string | SRaised pyexc | Provider string

record snode = inode +
  ident :: "int \<times> int"

record journal =
  jrecord :: dict
  jsnapshot :: "(string \<times> int \<times> int) option"

datatype sfault = Works | FailsBefore | FailsAfter

record sworld =
  nodes :: "string list \<Rightarrow> snode option"
  dirs :: "string list \<Rightarrow> (int \<times> nat) option"
  fresh :: int
  held :: "string \<Rightarrow> journal option"
  wfaults :: "sfault list"

record senv =
  sha :: "string \<Rightarrow> string"
  home :: "string list"
  home_absolute :: bool
  me :: int
  device :: int
  inherited :: "string option"
  descriptor :: "nat \<Rightarrow> snode option"
  busy :: bool

definition MAX_BYTES :: nat where
  "MAX_BYTES = 4 * 1024 * 1024"

definition json_text :: "pv \<Rightarrow> string" where
  "json_text v = dumps_sorted v @ [CHR 0x0A]"

definition path_text :: "string list \<Rightarrow> string" where
  "path_text p = ''/'' @ join ''/'' p"

definition check_path :: "string list \<Rightarrow> serr + unit" where
  "check_path p = refuse_if (p = [] \<or> List.member p ''..'') (GuardError ''lifecycle artifact path is invalid'')"

definition unavailable :: serr where
  "unavailable = GuardError ''lifecycle artifact parent is unavailable or unsafe''"

definition writable_by_others :: "nat \<Rightarrow> bool" where
  \<comment> \<open>\<open>mode & 0o022\<close>\<close>
  "writable_by_others mode \<longleftrightarrow> mode div 16 mod 2 = 1 \<or> mode div 2 mod 2 = 1"

definition parent :: "senv \<Rightarrow> bool \<Rightarrow> string list \<Rightarrow> sworld \<Rightarrow> serr + unit" where
  "parent env private p w =
     bind_res (check_path p) (\<lambda>_.
     let up = butlast p in
     if list_ex (\<lambda>n. dirs w (take n up) = None) [0..<Suc (length up)] then Inl unavailable
     else (case dirs w up of
         None \<Rightarrow> Inl unavailable
       | Some (uid, mode) \<Rightarrow>
           refuse_if (uid \<noteq> me env \<or> (if private then mode \<noteq> 448 else writable_by_others mode))
             (GuardError ''lifecycle artifact parent ownership or mode is unsafe'')))"

text \<open>\<open>_read_at\<close>; \<open>None\<close> is \<open>FileNotFoundError\<close>, which only the journal's reader catches.\<close>

definition read_at :: "senv \<Rightarrow> string list \<Rightarrow> sworld \<Rightarrow> serr + (string \<times> int \<times> int) option" where
  "read_at env p w = (case nodes w p of
     None \<Rightarrow> if dirs w p = None then Inr None else Inl (GuardError ''lifecycle artifact ownership, mode, or size is unsafe'')
   | Some n \<Rightarrow>
       if fkind n = Symlink then Inl unavailable
       else if fkind n \<noteq> Regular \<or> fuid n \<noteq> me env \<or> fmode n \<noteq> 384 \<or> MAX_BYTES < length (fbytes n)
       then Inl (GuardError ''lifecycle artifact ownership, mode, or size is unsafe'')
       else Inr (Some (fbytes n, ident n)))"

definition must_exist :: "'a option \<Rightarrow> serr + 'a" where
  "must_exist x = (case x of None \<Rightarrow> Inl unavailable | Some a \<Rightarrow> Inr a)"

definition read :: "senv \<Rightarrow> string list \<Rightarrow> sworld \<Rightarrow> serr + string \<times> int \<times> int" where
  "read env p w = bind_res (parent env True p w) (\<lambda>_. bind_res (read_at env p w) must_exist)"

definition object_of :: "string \<Rightarrow> serr + dict" where
  "object_of raw = (case decode_json plain_hook raw of
     Inl _ \<Rightarrow> Inl (GuardError ''lifecycle artifact is invalid JSON'')
   | Inr v \<Rightarrow> if \<not> is_dict v \<or> json_text v \<noteq> raw then Inl (GuardError ''lifecycle artifact is not canonical JSON'')
       else Inr (dict_of v))"

definition occupied :: "string list \<Rightarrow> sworld \<Rightarrow> bool" where
  "occupied p w \<longleftrightarrow> nodes w p \<noteq> None \<or> dirs w p \<noteq> None"

definition present :: "senv \<Rightarrow> string list \<Rightarrow> sworld \<Rightarrow> serr + bool" where
  "present env p w = bind_res (parent env True p w) (\<lambda>_. Inr (occupied p w))"

fun any_present :: "senv \<Rightarrow> string list list \<Rightarrow> sworld \<Rightarrow> serr + bool" where
  "any_present env [] w = Inr False"
| "any_present env (p # ps) w = bind_res (present env p w) (\<lambda>b. if b then Inr True else any_present env ps w)"

definition new_node :: "senv \<Rightarrow> string \<Rightarrow> sworld \<Rightarrow> snode" where
  "new_node env raw w = \<lparr>fkind = Regular, fmode = 384, fuid = me env, fnlink = 1, fbytes = raw, ident = (device env, fresh w)\<rparr>"

definition atomic :: "senv \<Rightarrow> string list \<Rightarrow> string \<Rightarrow> bool \<Rightarrow> (sworld, serr, int \<times> int) dio" where
  "atomic env p raw replacing =
     seq (look (\<lambda>w. if MAX_BYTES < length raw then Inl (GuardError ''lifecycle journal exceeds size limit'')
          else if dirs w p \<noteq> None \<or> \<not> replacing \<and> nodes w p \<noteq> None then Inl unavailable
          else Inr (fresh w, case wfaults w of [] \<Rightarrow> Works | f # _ \<Rightarrow> f))) (\<lambda>(ino, f).
     if f = FailsBefore then seq (publish (\<lambda>w. w\<lparr>fresh := fresh w + 1, wfaults := tl (wfaults w)\<rparr>)) (\<lambda>_. fail unavailable)
     else
       seq (publish (\<lambda>w. w\<lparr>nodes := (nodes w)(p \<mapsto> new_node env raw w), fresh := fresh w + 1, wfaults := tl (wfaults w)\<rparr>)) (\<lambda>_.
       if f = FailsAfter then fail unavailable else ret (device env, ino)))"

section \<open>The registry directory\<close>

definition registry_path :: "senv \<Rightarrow> string \<Rightarrow> string list" where
  "registry_path env namespace = home env @ [''.local'', ''state'', ''vpn-deploy'', namespace]"

definition enter :: "senv \<Rightarrow> string \<Rightarrow> string list \<Rightarrow> (sworld, serr, unit) dio" where
  \<comment> \<open>\<open>mkdir\<close> with the existing directory tolerated, \<open>open\<close> without following links, and the checks\<close>
  "enter env namespace p =
     seq (look (\<lambda>w. Inr (occupied p w))) (\<lambda>there.
     seq (only_if (\<not> there) (publish (\<lambda>w. w\<lparr>dirs := (dirs w)(p \<mapsto> (me env, 448))\<rparr>))) (\<lambda>_.
     look (\<lambda>w. case dirs w p of
         None \<Rightarrow> Inl unavailable
       | Some (uid, mode) \<Rightarrow> refuse_if (uid \<noteq> me env \<or> writable_by_others mode \<or> (last p = namespace \<and> mode \<noteq> 448))
           (GuardError ''lifecycle registry ownership or mode is unsafe''))))"

definition private_registry :: "senv \<Rightarrow> string \<Rightarrow> (sworld, serr, string list) dio" where
  "private_registry env namespace =
     seq (look (\<lambda>w.
        if \<not> List.member [''staging-cleanup'', ''liveness-executors''] namespace then Inl (GuardError ''lifecycle registry namespace is invalid'')
        else if \<not> home_absolute env then Inl (GuardError ''controller home must be an absolute path'')
        else bind_res (check_path (home env)) (\<lambda>_. parent env False (home env @ [''.local'']) w))) (\<lambda>_.
     seq (for_each (\<lambda>n. enter env namespace (take n (registry_path env namespace)))
        (map (\<lambda>i. length (home env) + i) [1, 2, 3, 4])) (\<lambda>_.
     ret (registry_path env namespace)))"

section \<open>Records\<close>

definition identified :: "senv \<Rightarrow> pv \<Rightarrow> pv \<Rightarrow> pv \<Rightarrow> serr + string" where
  "identified env provider account server =
     (if is_str account \<and> truthy account \<and> is_str server \<and> truthy server
      then Inr (sha env (json_text (PList [provider, account, server])))
      else Inl (GuardError ''lifecycle resource identity is invalid''))"

definition key :: "senv \<Rightarrow> dict \<Rightarrow> serr + string" where
  "key env manifest =
     (let provider = item manifest ''provider''; resources = item manifest ''resources'' in
      if provider = PStr ''upcloud'' then identified env provider (item manifest ''provider_account_username'') (item manifest ''server_uuid'')
      else if provider = PStr ''vultr'' then identified env provider (item manifest ''provider_account_binding'')
        (if is_dict resources then item (dict_of resources) ''server_id'' else PNone)
      else Inl (GuardError ''lifecycle provider is invalid''))"

definition identity_ok :: "pv \<Rightarrow> bool" where
  "identity_ok v \<longleftrightarrow> is_list v \<and> length (list_of v) = 2 \<and> list_all type_is_int (list_of v)
     \<and> 0 \<le> int_of (list_of v ! 0) \<and> 0 < int_of (list_of v ! 1)"

definition absolute_ok :: "pv \<Rightarrow> bool" where
  "absolute_ok v = (case v of PStr s \<Rightarrow> starts_with ''/'' s \<and> \<not> List.member (split_on (CHR ''/'') s) ''..'' | _ \<Rightarrow> False)"

definition both :: "serr + bool \<Rightarrow> serr + bool \<Rightarrow> serr + bool" where
  \<comment> \<open>\<open>a and b\<close>\<close>
  "both a b = bind_res a (\<lambda>x. if x then b else Inr False)"

fun all_of :: "('a \<Rightarrow> serr + bool) \<Rightarrow> 'a list \<Rightarrow> serr + bool" where
  "all_of f [] = Inr True"
| "all_of f (x # xs) = both (f x) (all_of f xs)"

definition in_names :: "string list \<Rightarrow> pv \<Rightarrow> serr + bool" where
  \<comment> \<open>\<open>v in {...}\<close>: a list or a dictionary has no hash\<close>
  "in_names names v = (if is_list v \<or> is_dict v then Inl (SRaised TypeError) else Inr (List.member (map PStr names) v))"

definition entry_ok :: "senv \<Rightarrow> string \<Rightarrow> pv \<Rightarrow> serr + bool" where
  "entry_ok env node v =
     (let d = dict_of v in
      if \<not> is_dict v \<or> \<not> keys_are d [''path'', ''manifest'', ''identity''] \<or> \<not> absolute_ok (item d ''path'')
        \<or> \<not> is_dict (item d ''manifest'') \<or> \<not> identity_ok (item d ''identity'') then Inr False
      else bind_res (key env (dict_of (item d ''manifest''))) (\<lambda>k. Inr (k = node)))"

definition released_ok :: "pv \<Rightarrow> serr + bool" where
  "released_ok v =
     (let d = dict_of v in
      if \<not> is_dict v \<or> \<not> keys_are d [''path'', ''receipt'', ''identity''] \<or> \<not> absolute_ok (item d ''path'')
        \<or> \<not> identity_ok (item d ''identity'') \<or> \<not> is_dict (item d ''receipt'') then Inr False
      else in_names [''reserved'', ''plan_validated''] (item (dict_of (item d ''receipt'')) ''status''))"

definition pending_ok :: "senv \<Rightarrow> string \<Rightarrow> pv \<Rightarrow> pv \<Rightarrow> serr + bool" where
  "pending_ok env node claim v =
     (let d = dict_of v in
      if \<not> is_dict v \<or> \<not> keys_are d [''path'', ''manifest'', ''previous''] \<or> \<not> absolute_ok (item d ''path'')
        \<or> \<not> is_dict (item d ''manifest'') then Inr False
      else bind_res (key env (dict_of (item d ''manifest''))) (\<lambda>k.
        Inr (k = node \<and> (item d ''previous'' = PNone \<or> absolute_ok (item d ''previous'')) \<and> claim = PNone)))"

definition claim_ok :: "pv \<Rightarrow> pv \<Rightarrow> serr + bool" where
  "claim_ok current v =
     (let d = dict_of v; phase = item d ''phase'' in
      if \<not> is_dict v \<or> current = PNone \<or> \<not> absolute_ok (item d ''path'') then Inr False
      else both (in_names [''reserving'', ''reserved'', ''releasing''] phase)
        (if phase = PStr ''releasing'' then both (Inr (keys_are d [''path'', ''phase'', ''receipt''])) (released_ok (item d ''receipt''))
         else Inr (keys_are d [''path'', ''phase''])))"

definition validate_record :: "senv \<Rightarrow> dict \<Rightarrow> string \<Rightarrow> serr + unit" where
  "validate_record env r node =
     (let current = item r ''current''; pending = item r ''publish''; claim = item r ''claim'';
          check = (\<lambda>b e. bind_res b (\<lambda>ok. refuse_if (\<not> ok) (GuardError e))) in
      bind_res (if current = PNone then Inr () else check (entry_ok env node current) ''lifecycle current generation is invalid'') (\<lambda>_.
      bind_res (refuse_if (current = PNone \<and> pending = PNone) (GuardError ''lifecycle journal lost its current generation'')) (\<lambda>_.
      bind_res (if pending = PNone then Inr () else check (pending_ok env node claim pending) ''lifecycle publication intent is invalid'') (\<lambda>_.
      bind_res (if claim = PNone then Inr () else check (claim_ok current claim) ''lifecycle reservation intent is invalid'') (\<lambda>_.
      check (both (all_of (entry_ok env node) (list_of (item r ''history''))) (all_of released_ok (list_of (item r ''released''))))
        ''lifecycle retained history is invalid'')))))"

section \<open>Journals\<close>

definition record_names :: "string list" where
  "record_names = [''version'', ''key'', ''current'', ''publish'', ''claim'', ''history'', ''released'']"

definition new_record :: "string \<Rightarrow> dict" where
  "new_record node = [(''version'', PInt 1), (''key'', PStr node), (''current'', PNone), (''publish'', PNone), (''claim'', PNone),
     (''history'', PList []), (''released'', PList [])]"

definition node_file :: "senv \<Rightarrow> string \<Rightarrow> string \<Rightarrow> string list" where
  "node_file env node suffix = registry_path env ''staging-cleanup'' @ [node @ suffix]"

definition journal_path :: "senv \<Rightarrow> string \<Rightarrow> string list" where
  "journal_path env node = node_file env node ''.json''"

definition open_journal :: "senv \<Rightarrow> string \<Rightarrow> sworld \<Rightarrow> serr + journal" where
  "open_journal env node w =
     bind_res (read_at env (journal_path env node) w) (\<lambda>found. case found of
       None \<Rightarrow> Inr \<lparr>jrecord = new_record node, jsnapshot = None\<rparr>
     | Some (raw, i) \<Rightarrow>
         bind_res (object_of raw) (\<lambda>r.
         bind_res (refuse_if (\<not> keys_are r record_names \<or> \<not> eq_int (item r ''version'') 1 \<or> item r ''key'' \<noteq> PStr node
             \<or> \<not> is_list (item r ''history'') \<or> \<not> is_list (item r ''released'')) (GuardError ''lifecycle journal schema is invalid'')) (\<lambda>_.
         bind_res (validate_record env r node) (\<lambda>_.
         Inr \<lparr>jrecord = r, jsnapshot = Some (raw, i)\<rparr>))))"

definition journal_of :: "string \<Rightarrow> sworld \<Rightarrow> journal" where
  "journal_of node w = (case held w node of Some j \<Rightarrow> j | None \<Rightarrow> \<lparr>jrecord = new_record node, jsnapshot = None\<rparr>)"

abbreviation record_of :: "string \<Rightarrow> sworld \<Rightarrow> dict" where
  "record_of node w \<equiv> jrecord (journal_of node w)"

definition set_record :: "string \<Rightarrow> (dict \<Rightarrow> dict) \<Rightarrow> (sworld, serr, unit) dio" where
  "set_record node f = publish (\<lambda>w. w\<lparr>held := (held w)(node \<mapsto> (journal_of node w)\<lparr>jrecord := f (record_of node w)\<rparr>)\<rparr>)"

definition save_check :: "senv \<Rightarrow> string \<Rightarrow> sworld \<Rightarrow> serr + string \<times> bool" where
  "save_check env node w =
     (let j = journal_of node w in
      bind_res (validate_record env (jrecord j) node) (\<lambda>_.
      bind_res (case jsnapshot j of None \<Rightarrow> Inr ()
        | Some snapshot \<Rightarrow> bind_res (bind_res (read_at env (journal_path env node) w) must_exist) (\<lambda>now.
            refuse_if (now \<noteq> snapshot) (GuardError ''lifecycle journal changed during operation''))) (\<lambda>_.
      Inr (json_text (PDict (jrecord j)), jsnapshot j \<noteq> None))))"

definition save_journal :: "senv \<Rightarrow> string \<Rightarrow> (sworld, serr, unit) dio" where
  "save_journal env node =
     seq (look (save_check env node)) (\<lambda>(raw, exists).
     seq (atomic env (journal_path env node) raw exists) (\<lambda>i.
     publish (\<lambda>w. w\<lparr>held := (held w)(node \<mapsto> (journal_of node w)\<lparr>jsnapshot := Some (raw, i)\<rparr>)\<rparr>)))"

definition identity_value :: "int \<times> int \<Rightarrow> pv" where
  "identity_value i = PList [PInt (fst i), PInt (snd i)]"

definition check_current :: "senv \<Rightarrow> string \<Rightarrow> string list \<Rightarrow> dict \<Rightarrow> sworld \<Rightarrow> serr + unit" where
  "check_current env node p manifest w =
     (let r = record_of node w; current = item r ''current'' in
      if item r ''publish'' \<noteq> PNone then Inl (GuardError ''manifest publication requires recovery'')
      else if \<not> is_dict current then Inl (GuardError ''manifest is not the registered current generation'')
      else
        bind_res (check_path p) (\<lambda>_.
        bind_res (refuse_if (item (dict_of current) ''path'' \<noteq> PStr (path_text p)
            \<or> \<not> py_eq (item (dict_of current) ''manifest'') (PDict manifest)) (GuardError ''manifest is not the registered current generation'')) (\<lambda>_.
        bind_res (read env p w) (\<lambda>(raw, i).
        refuse_if (raw \<noteq> json_text (PDict manifest) \<or> \<not> py_eq (identity_value i) (item (dict_of current) ''identity''))
          (GuardError ''registered manifest identity changed'')))))"

section \<open>The lock\<close>

text \<open>
  \<open>locked\<close>: a section for a node this thread already holds runs with the journal it holds; otherwise
  the lock is taken, the journal is read, and whatever the section does the journal is given up.
\<close>

definition lock_path :: "senv \<Rightarrow> string \<Rightarrow> string list" where
  "lock_path env node = node_file env node ''.lock''"

definition inherited_lock :: "senv \<Rightarrow> string \<Rightarrow> serr + snode" where
  "inherited_lock env s =
     (if \<not> (s \<noteq> [] \<and> list_all is_digit s) \<or> 10 < length s \<or> \<not> (3 \<le> read_nat s \<and> read_nat s \<le> 2147483647)
      then Inl (GuardError ''inherited lifecycle lock descriptor is invalid'')
      else (case descriptor env (read_nat s) of
          None \<Rightarrow> Inl (GuardError ''inherited lifecycle lock descriptor is unavailable'')
        | Some n \<Rightarrow> Inr n))"

definition open_lock :: "senv \<Rightarrow> string \<Rightarrow> (sworld, serr, snode) dio" where
  "open_lock env node = (case inherited env of
     Some s \<Rightarrow> look (\<lambda>_. inherited_lock env s)
   | None \<Rightarrow>
       seq (look (\<lambda>w. Inr (occupied (lock_path env node) w))) (\<lambda>there.
       seq (only_if (\<not> there) (publish (\<lambda>w. w\<lparr>nodes := (nodes w)(lock_path env node \<mapsto> new_node env [] w), fresh := fresh w + 1\<rparr>))) (\<lambda>_.
       look (\<lambda>w. case nodes w (lock_path env node) of
           None \<Rightarrow> Inl unavailable
         | Some n \<Rightarrow> if fkind n = Symlink then Inl unavailable else Inr n))))"

definition acquire :: "senv \<Rightarrow> string \<Rightarrow> (sworld, serr, unit) dio" where
  "acquire env node =
     seq (private_registry env ''staging-cleanup'') (\<lambda>_.
     seq (look (parent env True (lock_path env node))) (\<lambda>_.
     seq (open_lock env node) (\<lambda>n.
     look (\<lambda>w.
        if fkind n \<noteq> Regular \<or> fuid n \<noteq> me env \<or> fmode n \<noteq> 384 \<or> fnlink n \<noteq> 1 then Inl (GuardError ''lifecycle lock ownership or mode is unsafe'')
        else if busy env then Inl (GuardError ''another node lifecycle operation is active'')
        else (case nodes w (lock_path env node) of
            None \<Rightarrow> Inl unavailable
          | Some v \<Rightarrow> refuse_if (ident v \<noteq> ident n) (GuardError ''lifecycle lock identity changed''))))))"

definition take_lock :: "senv \<Rightarrow> string \<Rightarrow> (sworld, serr, unit) dio" where
  "take_lock env node =
     seq (acquire env node) (\<lambda>_.
     seq (look (open_journal env node)) (\<lambda>j.
     publish (\<lambda>w. w\<lparr>held := (held w)(node \<mapsto> j)\<rparr>)))"

definition give_up :: "string \<Rightarrow> (sworld, serr, unit) dio" where
  "give_up node = publish (\<lambda>w. w\<lparr>held := (held w)(node := None)\<rparr>)"

definition outside :: "serr \<Rightarrow> serr" where
  \<comment> \<open>the \<open>except OSError\<close> of \<open>_parent\<close> around the section\<close>
  "outside e = (if e = SRaised OSError then unavailable else e)"

definition locked :: "senv \<Rightarrow> dict \<Rightarrow> (string \<Rightarrow> (sworld, serr, 'a) dio) \<Rightarrow> (sworld, serr, 'a) dio" where
  "locked env manifest section =
     seq (look (\<lambda>_. key env manifest)) (\<lambda>node.
     seq (look (\<lambda>w. Inr (held w node \<noteq> None))) (\<lambda>mine.
     if mine then section node
     else
       seq (take_lock env node) (\<lambda>_.
       seq (handle (section node) (\<lambda>e. seq (give_up node) (\<lambda>_. fail (outside e)))) (\<lambda>a.
       seq (give_up node) (\<lambda>_. ret a)))))"

section \<open>Publication of a manifest\<close>

definition check_manifest :: "senv \<Rightarrow> string list \<Rightarrow> dict \<Rightarrow> (sworld, serr, unit) dio" where
  "check_manifest env p manifest = locked env manifest (\<lambda>node. look (check_current env node p manifest))"

definition subscript :: "pv \<Rightarrow> string \<Rightarrow> serr + pv" where
  "subscript v k = (case v of
     PDict d \<Rightarrow> (case map_of d k of Some x \<Rightarrow> Inr x | None \<Rightarrow> Inl (SRaised KeyError))
   | _ \<Rightarrow> Inl (SRaised TypeError))"

definition proposal :: "dict \<Rightarrow> string list \<Rightarrow> string list option \<Rightarrow> dict" where
  "proposal manifest output previous = [(''path'', PStr (path_text output)), (''manifest'', PDict manifest),
     (''previous'', case previous of None \<Rightarrow> PNone | Some p \<Rightarrow> PStr (path_text p))]"

definition reissue_ok :: "dict \<Rightarrow> dict \<Rightarrow> serr + unit" where
  "reissue_ok manifest old =
     (let stable = (\<lambda>m. PDict (AList.delete ''state'' m)); part = (\<lambda>m k. bind_res (subscript (PDict m) ''state'') (\<lambda>s. subscript s k));
          bad = GuardError ''manifest reissue must preserve identity and deadlines for changed state'' in
      if \<not> py_eq (stable manifest) (stable old) then Inl bad
      else
        bind_res (part manifest ''path'') (\<lambda>a. bind_res (part old ''path'') (\<lambda>b.
        if \<not> py_eq a b then Inl bad
        else bind_res (part manifest ''sha256'') (\<lambda>c. bind_res (part old ''sha256'') (\<lambda>d. refuse_if (py_eq c d) bad)))))"

datatype decision = Acknowledged | Resume | Begin

definition publish_decision ::
  "senv \<Rightarrow> string \<Rightarrow> dict \<Rightarrow> string list \<Rightarrow> string list option \<Rightarrow> sworld \<Rightarrow> serr + decision" where
  "publish_decision env node manifest output previous w =
     (let r = record_of node w; proposed = proposal manifest output previous; pending = item r ''publish''; current = item r ''current'';
          history = list_of (item r ''history'') in
      bind_res (case previous of None \<Rightarrow> Inr () | Some p \<Rightarrow> check_path p) (\<lambda>_.
      if pending \<noteq> PNone then
        (if py_eq pending (PDict proposed) then Inr Resume else Inl (GuardError ''another manifest publication requires recovery''))
      else if item r ''claim'' \<noteq> PNone then Inl (GuardError ''node has an outstanding destruction reservation'')
      else if current \<noteq> PNone \<and> item (dict_of current) ''path'' = PStr (path_text output)
          \<and> py_eq (item (dict_of current) ''manifest'') (PDict manifest) then
        (let prior = (if history = [] then PNone else item (dict_of (last history)) ''path'') in
         if prior \<noteq> item proposed ''previous'' then Inl (GuardError ''manifest was registered by another publication'')
         else bind_res (check_current env node output manifest w) (\<lambda>_. Inr Acknowledged))
      else
        bind_res (case previous of
            None \<Rightarrow> refuse_if (current \<noteq> PNone) (GuardError ''node already registered; use explicit manifest reissue'')
          | Some p \<Rightarrow>
              if current = PNone then Inl (GuardError ''previous manifest is not registered'')
              else let old = dict_of (item (dict_of current) ''manifest'') in
                bind_res (check_current env node p old w) (\<lambda>_. reissue_ok manifest old)) (\<lambda>_.
        bind_res (present env output w) (\<lambda>there.
        if there then Inl (GuardError ''manifest output already exists'') else Inr Begin))))"

definition registered :: "dict \<Rightarrow> string list \<Rightarrow> int \<times> int \<Rightarrow> dict \<Rightarrow> dict" where
  "registered manifest output i r =
     (let current = item r ''current'';
          r' = (if current = PNone then r else AList.update ''history'' (PList (list_of (item r ''history'') @ [current])) r) in
      AList.update ''publish'' PNone (AList.update ''current''
        (PDict [(''path'', PStr (path_text output)), (''manifest'', PDict manifest), (''identity'', identity_value i)]) r'))"

definition finish_publication :: "senv \<Rightarrow> string \<Rightarrow> dict \<Rightarrow> string list \<Rightarrow> (sworld, serr, unit) dio" where
  "finish_publication env node manifest output =
     (let raw = json_text (PDict manifest) in
      seq (look (\<lambda>w. bind_res (present env output w) (\<lambda>there.
         if there then bind_res (read env output w) (\<lambda>(actual, i).
           if actual \<noteq> raw then Inl (GuardError ''pending manifest output does not match publication'') else Inr (Some i))
         else Inr None))) (\<lambda>found.
      seq (case found of Some i \<Rightarrow> ret i | None \<Rightarrow> atomic env output raw False) (\<lambda>i.
      seq (set_record node (registered manifest output i)) (\<lambda>_.
      save_journal env node))))"

definition publish_manifest :: "senv \<Rightarrow> dict \<Rightarrow> string list \<Rightarrow> string list option \<Rightarrow> (sworld, serr, unit) dio" where
  "publish_manifest env manifest output previous =
     seq (look (\<lambda>_. check_path output)) (\<lambda>_.
     locked env manifest (\<lambda>node.
       seq (look (publish_decision env node manifest output previous)) (\<lambda>d. case d of
         Acknowledged \<Rightarrow> ret ()
       | Resume \<Rightarrow> finish_publication env node manifest output
       | Begin \<Rightarrow>
           seq (set_record node (AList.update ''publish'' (PDict (proposal manifest output previous)))) (\<lambda>_.
           seq (save_journal env node) (\<lambda>_.
           finish_publication env node manifest output)))))"

section \<open>Reservations\<close>

definition with_name :: "string list \<Rightarrow> string \<Rightarrow> string list" where
  "with_name p name = butlast p @ [name]"

definition evidence_paths :: "dict \<Rightarrow> string list \<Rightarrow> string list list" where
  "evidence_paths manifest evidence =
     (let hidden = (\<lambda>p suffix. with_name p (''.'' @ last p @ suffix)); transition = hidden evidence ''.transition'' in
      evidence # (if item manifest ''provider'' = PStr ''vultr''
        then [hidden evidence ''.reservation'', transition, hidden transition ''.pending''] else []))"

definition claim_value :: "string list \<Rightarrow> string \<Rightarrow> pv" where
  "claim_value evidence phase = PDict [(''path'', PStr (path_text evidence)), (''phase'', PStr phase)]"

definition begin_reservation :: "senv \<Rightarrow> dict \<Rightarrow> string list \<Rightarrow> (sworld, serr, unit) dio" where
  "begin_reservation env manifest evidence =
     locked env manifest (\<lambda>node.
     seq (look (\<lambda>w.
        if item (record_of node w) ''claim'' \<noteq> PNone then Inl (GuardError ''node has an outstanding destruction reservation'')
        else bind_res (check_path evidence) (\<lambda>_. bind_res (any_present env (evidence_paths manifest evidence) w) (\<lambda>there.
          refuse_if there (GuardError ''evidence output already exists''))))) (\<lambda>_.
     seq (set_record node (AList.update ''claim'' (claim_value evidence ''reserving''))) (\<lambda>_.
     save_journal env node)))"

definition reservation_phase :: "senv \<Rightarrow> dict \<Rightarrow> (sworld, serr, pv) dio" where
  "reservation_phase env manifest =
     locked env manifest (\<lambda>node. look (\<lambda>w. let claim = item (record_of node w) ''claim'' in
       if \<not> is_dict claim then Inl (GuardError ''node has no destruction reservation'') else subscript claim ''phase''))"

definition releasing :: "string list \<Rightarrow> dict \<Rightarrow> int \<times> int \<Rightarrow> dict \<Rightarrow> dict" where
  "releasing evidence receipt i r = AList.update ''claim'' (PDict (
     AList.update ''receipt'' (PDict [(''path'', PStr (path_text evidence)), (''receipt'', PDict receipt), (''identity'', identity_value i)])
       (AList.update ''phase'' (PStr ''releasing'') (dict_of (item r ''claim''))))) r"

definition begin_release :: "senv \<Rightarrow> dict \<Rightarrow> string list \<Rightarrow> dict \<Rightarrow> (sworld, serr, unit) dio" where
  "begin_release env manifest evidence receipt =
     locked env manifest (\<lambda>node.
     seq (look (\<lambda>w. let claim = item (record_of node w) ''claim'' in
        if \<not> is_dict claim then Inl (GuardError ''evidence does not own the node reservation'')
        else bind_res (check_path evidence) (\<lambda>_.
          if item (dict_of claim) ''path'' \<noteq> PStr (path_text evidence) then Inl (GuardError ''evidence does not own the node reservation'')
          else bind_res (read env evidence w) (\<lambda>(raw, i).
            if raw \<noteq> json_text (PDict receipt) then Inl (GuardError ''release receipt changed'') else Inr i)))) (\<lambda>i.
     seq (set_record node (releasing evidence receipt i)) (\<lambda>_.
     save_journal env node)))"

definition unclaimed :: "dict \<Rightarrow> dict" where
  "unclaimed r =
     (let claim = item r ''claim''; receipt = item (dict_of claim) ''receipt'' in
      AList.update ''claim'' PNone
        (if claim \<noteq> PNone \<and> receipt \<noteq> PNone then AList.update ''released'' (PList (list_of (item r ''released'') @ [receipt])) r else r))"

definition finish_release :: "senv \<Rightarrow> string \<Rightarrow> string list list \<Rightarrow> (sworld, serr, unit) dio" where
  "finish_release env node paths =
     seq (look (\<lambda>w. bind_res (any_present env paths w) (\<lambda>there. refuse_if there (GuardError ''evidence release is incomplete'')))) (\<lambda>_.
     seq (set_record node unclaimed) (\<lambda>_.
     save_journal env node))"

definition mark_reserved :: "dict \<Rightarrow> dict" where
  "mark_reserved r = AList.update ''claim'' (PDict (AList.update ''phase'' (PStr ''reserved'') (dict_of (item r ''claim'')))) r"

text \<open>
  \<open>operation(kind)\<close> around a provider guard \<open>guard\<close>. A successful guard of a reservation has called
  \<open>begin_reservation\<close>; if it has not, \<open>journal.record["claim"]["phase"] = ...\<close> raises \<open>TypeError\<close>.
\<close>

definition reserve_operation ::
  "senv \<Rightarrow> string \<Rightarrow> string list list \<Rightarrow> (sworld, serr, pv) dio \<Rightarrow> (sworld, serr, pv) dio" where
  "reserve_operation env node paths guard =
     seq (look (\<lambda>w.
        if item (record_of node w) ''claim'' \<noteq> PNone then Inl (GuardError ''node has an outstanding destruction reservation'')
        else bind_res (any_present env paths w) (\<lambda>there. refuse_if there (GuardError ''evidence output already exists'')))) (\<lambda>_.
     seq (handle guard (\<lambda>e.
        seq (look (\<lambda>w. if item (record_of node w) ''claim'' = PNone then Inr False
            else bind_res (any_present env paths w) (\<lambda>there. Inr (\<not> there)))) (\<lambda>undo.
        seq (only_if undo (finish_release env node paths)) (\<lambda>_. fail e)))) (\<lambda>result.
     seq (look (\<lambda>w. refuse_if (\<not> is_dict (item (record_of node w) ''claim'')) (SRaised TypeError))) (\<lambda>_.
     seq (set_record node mark_reserved) (\<lambda>_.
     seq (save_journal env node) (\<lambda>_. ret result)))))"

definition owned_operation ::
  "senv \<Rightarrow> string \<Rightarrow> string \<Rightarrow> string list \<Rightarrow> string list list \<Rightarrow> (sworld, serr, pv) dio \<Rightarrow> (sworld, serr, pv) dio" where
  "owned_operation env kind node evidence paths guard =
     seq (look (\<lambda>w. let claim = item (record_of node w) ''claim''; phase = item (dict_of claim) ''phase'';
            absent = (if kind = ''recover'' then bind_res (any_present env paths w) (\<lambda>there. Inr (\<not> there)) else Inr False) in
        if claim = PNone then
          bind_res absent (\<lambda>gone. if gone then Inr (Some (PStr ''none''))
            else Inl (GuardError ''evidence does not own the node reservation''))
        else if item (dict_of claim) ''path'' \<noteq> PStr (path_text evidence)
        then Inl (GuardError ''evidence path does not own the node reservation'')
        else bind_res absent (\<lambda>gone.
          if gone then
            (if phase = PStr ''reserving'' \<or> phase = PStr ''releasing'' then Inr (Some (PStr ''released''))
             else Inl (GuardError ''registered evidence is missing''))
          else if kind \<noteq> ''recover'' \<and> kind \<noteq> ''release'' \<and> phase \<noteq> PStr ''reserved''
          then Inl (GuardError ''node reservation requires recovery'')
          else Inr None))) (\<lambda>settled. case settled of
       Some result \<Rightarrow>
         seq (only_if (result = PStr ''released'') (finish_release env node paths)) (\<lambda>_. ret result)
     | None \<Rightarrow>
         seq guard (\<lambda>result.
         seq (only_if (kind = ''release'' \<or> kind = ''recover'' \<and> (result = PStr ''none'' \<or> result = PStr ''released''))
            (finish_release env node paths)) (\<lambda>_. ret result)))"

definition operation ::
  "senv \<Rightarrow> string \<Rightarrow> string list \<Rightarrow> string list \<Rightarrow> (sworld, serr, pv) dio \<Rightarrow> (sworld, serr, pv) dio" where
  "operation env kind manifest_path evidence guard =
     seq (look (\<lambda>w. bind_res (read env manifest_path w) (\<lambda>(raw, _). object_of raw))) (\<lambda>manifest.
     locked env manifest (\<lambda>node.
     seq (look (check_current env node manifest_path manifest)) (\<lambda>_.
     seq (look (\<lambda>_. check_path evidence)) (\<lambda>_.
     if kind = ''reserve'' then reserve_operation env node (evidence_paths manifest evidence) guard
     else owned_operation env kind node evidence (evidence_paths manifest evidence) guard))))"

section \<open>Every stored journal is a valid record\<close>

text \<open>
  One step of a program: each node's journal file stays, or becomes the canonical text of a record
  that passes the validation for that node.
\<close>

definition journal_step :: "senv \<Rightarrow> sworld \<Rightarrow> sworld \<Rightarrow> bool" where
  "journal_step env u v \<longleftrightarrow> (\<forall>k. nodes v (journal_path env k) = nodes u (journal_path env k)
     \<or> (\<exists>r. validate_record env r k = Inr () \<and> nodes v (journal_path env k) = Some (new_node env (json_text (PDict r)) u)))"

lemma journal_step_same: "nodes v = nodes u \<Longrightarrow> journal_step env u v"
  by (simp add: journal_step_def)

lemma journal_path_inj: "journal_path env k = journal_path env k' \<longleftrightarrow> k = k'"
  by (simp add: journal_path_def node_file_def)

lemma lock_not_journal: "lock_path env k \<noteq> journal_path env k'"
proof
  assume "lock_path env k = journal_path env k'"
  then have "k @ ''.lock'' = k' @ ''.json''" by (simp add: journal_path_def lock_path_def node_file_def)
  then have "last (k @ ''.lock'') = last (k' @ ''.json'')" by (rule arg_cong)
  then show False by simp
qed

lemma steady_set_record: "steady (journal_step env) (set_record node f)"
  unfolding set_record_def by (intro steady_intros) (simp add: journal_step_same)

lemma steady_atomic:
  assumes "\<forall>k. p \<noteq> journal_path env k"
  shows "steady (journal_step env) (atomic env p raw replacing)"
  unfolding atomic_def using assms
  by (auto intro!: steady_intros simp: journal_step_def split: prod.split)

lemma save_check_Inr:
  "save_check env node w = Inr (raw, exists) \<Longrightarrow> validate_record env (record_of node w) node = Inr ()
     \<and> raw = json_text (PDict (record_of node w)) \<and> exists = (jsnapshot (journal_of node w) \<noteq> None)"
  by (auto simp: save_check_def Let_def bind_res_Inr)

lemma steady_save_journal: "steady (journal_step env) (save_journal env node)"
  unfolding steady_def
proof
  fix w
  have step: "journal_step env w (w\<lparr>nodes := (nodes w)(journal_path env node \<mapsto> new_node env raw w), fresh := f, wfaults := t\<rparr>)"
    if "save_check env node w = Inr (raw, exists)" for raw exists f t
    using save_check_Inr [OF that] by (auto simp: journal_step_def journal_path_inj)
  show "successively (journal_step env) (w # steps (save_journal env node) w)"
    unfolding save_journal_def atomic_def
    by (auto simp: dio_eval seq_assoc journal_step_same step split: sum.split prod.split if_split)
qed

lemma steady_enter: "steady (journal_step env) (enter env namespace p)"
  unfolding enter_def by (intro steady_intros) (simp add: journal_step_same)

lemma steady_open_lock: "steady (journal_step env) (open_lock env node)"
  unfolding open_lock_def
  by (cases "inherited env") (auto intro!: steady_intros simp: journal_step_def lock_not_journal [symmetric])

lemma steady_take_lock: "steady (journal_step env) (take_lock env node)"
  unfolding take_lock_def acquire_def private_registry_def
  by (intro steady_intros steady_for_each steady_enter steady_open_lock) (simp add: journal_step_same)

lemma steady_give_up: "steady (journal_step env) (give_up node)"
  unfolding give_up_def by (intro steady_intros) (simp add: journal_step_same)

lemma steady_locked:
  "(\<And>node. steady (journal_step env) (section node)) \<Longrightarrow> steady (journal_step env) (locked env manifest section)"
  unfolding locked_def by (intro steady_intros steady_take_lock steady_give_up)

lemmas steady_staging = steady_intros steady_locked steady_set_record steady_save_journal

lemma steady_finish_publication:
  assumes "\<forall>k. output \<noteq> journal_path env k"
  shows "steady (journal_step env) (finish_publication env node manifest output)"
  unfolding finish_publication_def Let_def
  by (auto intro!: steady_staging steady_atomic assms [rule_format] split: option.split)

lemma steady_finish_release: "steady (journal_step env) (finish_release env node paths)"
  unfolding finish_release_def by (intro steady_staging)

lemma steady_operation:
  assumes "steady (journal_step env) guard"
  shows "steady (journal_step env) (operation env kind manifest_path evidence guard)"
  unfolding operation_def reserve_operation_def owned_operation_def
  by (auto intro!: steady_staging steady_finish_release assms split: option.split)

lemma steady_begin_reservation: "steady (journal_step env) (begin_reservation env manifest evidence)"
  unfolding begin_reservation_def by (intro steady_staging)


section \<open>A saved journal reopens\<close>

abbreviation sorted_dict :: "dict \<Rightarrow> dict" where
  "sorted_dict d \<equiv> dict_of (sort_keys (PDict d))"

lemma sort_keys_tests [simp]:
  "is_dict (sort_keys v) = is_dict v" "is_list (sort_keys v) = is_list v" "is_str (sort_keys v) = is_str v"
  "sort_keys v = PStr s \<longleftrightarrow> v = PStr s" "list_of (sort_keys v) = map sort_keys (list_of v)"
  "is_str v \<Longrightarrow> sort_keys v = v"
  by (cases v; simp add: pv_tests list_of_def)+

lemma sort_keys_idem: "sort_keys (sort_keys v) = sort_keys v"
proof (induction v rule: sort_keys.induct)
  case (2 d)
  let ?e = "sort_key fst (map (\<lambda>kv. (fst kv, sort_keys (snd kv))) d)"
  have "(k, v) \<in> set d \<Longrightarrow> sort_keys (sort_keys v) = sort_keys v" for k v
    using "2.IH" by fastforce
  then have "map (\<lambda>kv. (fst kv, sort_keys (snd kv))) ?e = ?e"
    by (intro map_idI) auto
  moreover have "sort_key fst ?e = ?e" by (rule sort_key_id_if_sorted) simp
  ultimately show ?case by simp
qed simp_all

lemma sorted_dict_items:
  assumes "plain (PDict d)"
  shows "item (sorted_dict d) k = sort_keys (item d k)" "keys_are (sorted_dict d) ks = keys_are d ks"
proof -
  show "item (sorted_dict d) k = sort_keys (item d k)" using assms by (intro item_sorted) simp
  have "set (map fst (sorted_dict d)) = set (map fst d)" by (simp add: image_image)
  then show "keys_are (sorted_dict d) ks = keys_are d ks" by (simp only: keys_are_iff)
qed

lemma dict_of_other: "\<not> is_dict v \<Longrightarrow> dict_of v = []"
  by (cases v) (simp_all add: dict_of_def)

lemma item_Nil [simp]: "item [] k = PNone"
  by (simp add: item_def)

lemma dict_of_sorted: "plain v \<Longrightarrow> item (dict_of (sort_keys v)) k = sort_keys (item (dict_of v) k)"
proof (cases "is_dict v")
  case True
  then obtain d where "v = PDict d" by (auto simp: pv_test_iff)
  then show "plain v \<Longrightarrow> ?thesis" by (simp add: sorted_dict_items del: sort_keys.simps plain.simps)
qed (simp add: dict_of_other)

lemma dict_of_keys: "plain v \<Longrightarrow> keys_are (dict_of (sort_keys v)) ks = keys_are (dict_of v) ks"
proof (cases "is_dict v")
  case True
  then obtain d where "v = PDict d" by (auto simp: pv_test_iff)
  then show "plain v \<Longrightarrow> ?thesis" by (simp add: sorted_dict_items del: sort_keys.simps plain.simps)
qed (simp add: dict_of_other)

lemma plain_dict_item: "plain v \<Longrightarrow> plain (item (dict_of v) k)"
  using plain_item [of "dict_of v" k] dict_of_other [of v]
  by (cases "is_dict v") (auto simp: pv_test_iff(2) item_def [of "[]"] simp del: plain.simps(5))

lemma truthy_sorted [simp]: "truthy (sort_keys v) = truthy v"
proof -
  have "sort_key fst e = [] \<longleftrightarrow> e = []" for e :: dict by (metis length_0_conv length_sort)
  then show ?thesis by (cases v) (auto simp: truthy_def)
qed

lemma json_text_sorted: "json_text (PList [sort_keys a, sort_keys b, sort_keys c]) = json_text (PList [a, b, c])"
  by (simp add: json_text_def dumps_sorted_def sort_keys_idem)

lemma identity_ok_sorted: "identity_ok (sort_keys v) = identity_ok v"
proof -
  have "type_is_int (sort_keys x) = type_is_int x" "int_of (sort_keys x) = int_of x" for x
    by (cases x; simp add: pv_tests int_of_def)+
  then show ?thesis by (auto simp: identity_ok_def list_all_iff)
qed

lemma absolute_ok_sorted: "absolute_ok (sort_keys v) = absolute_ok v"
  by (cases v) (auto simp: absolute_ok_def)

lemma identified_sorted: "identified env (sort_keys p) (sort_keys a) (sort_keys b) = identified env p a b"
  unfolding identified_def json_text_sorted by simp

lemma key_sorted:
  assumes "plain v"
  shows "key env (dict_of (sort_keys v)) = key env (dict_of v)"
proof -
  have p: "plain (item (dict_of v) ''resources'')" by (rule plain_dict_item [OF assms])
  have r: "(if is_dict (sort_keys u) then item (dict_of (sort_keys u)) k else PNone) = sort_keys (if is_dict u then item (dict_of u) k else PNone)"
    if "plain u" for u k using dict_of_sorted [OF that] by simp
  show ?thesis
    unfolding key_def Let_def dict_of_sorted [OF assms] r [OF p] identified_sorted by simp
qed

lemma entry_ok_sorted: "plain v \<Longrightarrow> entry_ok env node (sort_keys v) = entry_ok env node v"
  by (simp add: entry_ok_def Let_def dict_of_sorted dict_of_keys identity_ok_sorted absolute_ok_sorted key_sorted plain_dict_item)

lemma in_names_sorted: "in_names names (sort_keys v) = in_names names v"
  by (cases v) (auto simp: in_names_def)

lemma released_ok_sorted: "plain v \<Longrightarrow> released_ok (sort_keys v) = released_ok v"
  by (simp add: released_ok_def Let_def dict_of_sorted dict_of_keys identity_ok_sorted absolute_ok_sorted in_names_sorted plain_dict_item)

lemma pending_ok_sorted: "plain v \<Longrightarrow> pending_ok env node (sort_keys c) (sort_keys v) = pending_ok env node c v"
  by (simp add: pending_ok_def Let_def dict_of_sorted dict_of_keys absolute_ok_sorted key_sorted plain_dict_item)

lemma claim_ok_sorted: "plain v \<Longrightarrow> claim_ok (sort_keys c) (sort_keys v) = claim_ok c v"
  by (simp add: claim_ok_def Let_def dict_of_sorted dict_of_keys absolute_ok_sorted in_names_sorted released_ok_sorted plain_dict_item)

lemma all_of_sorted: "list_all plain xs \<Longrightarrow> (\<And>x. plain x \<Longrightarrow> f (sort_keys x) = f x) \<Longrightarrow> all_of f (map sort_keys xs) = all_of f xs"
  by (induction xs) auto

lemma plain_list_of: "plain v \<Longrightarrow> list_all plain (list_of v)"
  by (cases v) (auto simp: list_of_def)

lemma validate_record_sorted:
  assumes "plain (PDict r)"
  shows "validate_record env (sorted_dict r) node = validate_record env r node"
proof -
  note item = sorted_dict_items(1) [OF assms]
  have p: "plain (item r k)" for k by (rule plain_item [OF assms])
  show ?thesis
    by (simp add: validate_record_def Let_def item entry_ok_sorted pending_ok_sorted claim_ok_sorted p
        all_of_sorted [OF plain_list_of [OF p]] released_ok_sorted del: sort_keys.simps)
qed

definition schema_ok :: "dict \<Rightarrow> string \<Rightarrow> bool" where
  "schema_ok r node \<longleftrightarrow> keys_are r record_names \<and> eq_int (item r ''version'') 1 \<and> item r ''key'' = PStr node
     \<and> is_list (item r ''history'') \<and> is_list (item r ''released'')"

lemma object_of_json_text: "plain (PDict r) \<Longrightarrow> object_of (json_text (PDict r)) = Inr (sorted_dict r)"
  using decode_json_line [of plain_hook r] sort_keys_idem [of "PDict r"]
  unfolding object_of_def json_text_def dumps_sorted_def
  by (simp del: sort_keys.simps(2) dumps.simps plain.simps)

lemma reopened_journal:
  assumes "plain (PDict r)" "schema_ok r node" "validate_record env r node = Inr ()"
    "nodes w (journal_path env node) = Some (new_node env (json_text (PDict r)) u)" "length (json_text (PDict r)) \<le> MAX_BYTES"
  shows "open_journal env node w = Inr \<lparr>jrecord = sorted_dict r, jsnapshot = Some (json_text (PDict r), (device env, fresh u))\<rparr>"
proof -
  have eq: "eq_int (sort_keys v) n = eq_int v n" for v n by (cases v) (auto simp: eq_int_def)
  have "read_at env (journal_path env node) w = Inr (Some (json_text (PDict r), (device env, fresh u)))"
    using assms(4,5) by (simp add: read_at_def new_node_def)
  moreover have "refuse_if (\<not> keys_are (sorted_dict r) record_names \<or> \<not> eq_int (item (sorted_dict r) ''version'') 1
      \<or> item (sorted_dict r) ''key'' \<noteq> PStr node \<or> \<not> is_list (item (sorted_dict r) ''history'')
      \<or> \<not> is_list (item (sorted_dict r) ''released'')) e = Inr ()" for e :: serr
    using assms(2) unfolding sorted_dict_items [OF assms(1)] schema_ok_def eq sort_keys_tests by simp
  moreover have "validate_record env (sorted_dict r) node = Inr ()" using assms(3) unfolding validate_record_sorted [OF assms(1)] .
  ultimately show ?thesis unfolding open_journal_def by (simp add: object_of_json_text [OF assms(1)] refuse_if_eval del: sort_keys.simps(2))
qed

section \<open>Sections under the lock\<close>

definition kept_by_lock :: "senv \<Rightarrow> string \<Rightarrow> sworld \<Rightarrow> sworld \<Rightarrow> bool" where
  "kept_by_lock env node u v \<longleftrightarrow> held v = held u \<and> wfaults v = wfaults u \<and> dirs u \<subseteq>\<^sub>m dirs v
     \<and> (\<forall>p. p \<noteq> lock_path env node \<longrightarrow> nodes v p = nodes u p)
     \<and> (\<forall>p. (\<forall>n. p \<noteq> take n (registry_path env ''staging-cleanup'')) \<longrightarrow> dirs v p = dirs u p)"

lemma acquire_keeps: "kept_by_lock env node w (after (acquire env node) w)"
proof (rule steady_after [where R = "kept_by_lock env node"])
  have enter: "steady (kept_by_lock env node) (enter env ''staging-cleanup'' (take n (registry_path env ''staging-cleanup'')))" for n
    unfolding steady_def
    by (auto simp: enter_def dio_eval kept_by_lock_def occupied_def map_le_def seq_def split: if_split option.splits)
  have lock: "steady (kept_by_lock env node) (open_lock env node)"
    unfolding open_lock_def by (cases "inherited env") (auto intro!: steady_intros simp: kept_by_lock_def)
  show "steady (kept_by_lock env node) (acquire env node)"
    unfolding acquire_def private_registry_def
    by (intro steady_intros steady_for_each enter lock)
qed (auto simp: kept_by_lock_def intro: map_le_trans)

lemma journal_not_registry: "journal_path env node \<noteq> take n (registry_path env ''staging-cleanup'')"
proof
  assume "journal_path env node = take n (registry_path env ''staging-cleanup'')"
  then have "length (journal_path env node) \<le> length (registry_path env ''staging-cleanup'')" by simp
  then show False by (simp add: journal_path_def node_file_def)
qed

definition holding :: "senv \<Rightarrow> string \<Rightarrow> journal \<Rightarrow> sworld \<Rightarrow> sworld" where
  "holding env node j w = (after (acquire env node) w)\<lparr>held := (held w)(node \<mapsto> j)\<rparr>"

lemma locked_runs:
  assumes "key env manifest = Inr node" "held w node = None" "outcome (acquire env node) w = Inr ()"
    "open_journal env node (after (acquire env node) w) = Inr j"
  shows "outcome (locked env manifest section) w = (case outcome (section node) (holding env node j w) of Inl e \<Rightarrow> Inl (outside e) | Inr a \<Rightarrow> Inr a)"
    and "after (locked env manifest section) w = (let v = after (section node) (holding env node j w) in v\<lparr>held := (held v)(node := None)\<rparr>)"
proof -
  have h: "held (after (acquire env node) w) = held w" using acquire_keeps [of env node w] by (simp add: kept_by_lock_def)
  have lock: "outcome (take_lock env node) w = Inr ()" "after (take_lock env node) w = holding env node j w"
    using assms(3,4) h by (simp_all add: take_lock_def seq_run holding_def run_prims)
  let ?body = "seq (handle (section node) (\<lambda>e. seq (give_up node) (\<lambda>_. fail (outside e)))) (\<lambda>a. seq (give_up node) (\<lambda>_. ret a))"
  have run: "outcome (locked env manifest section) w = outcome ?body (holding env node j w)"
    "after (locked env manifest section) w = after ?body (holding env node j w)"
    unfolding locked_def using assms(1,2) lock by (simp_all add: look_run seq_run)
  have "outcome ?body u = (case outcome (section node) u of Inl e \<Rightarrow> Inl (outside e) | Inr a \<Rightarrow> Inr a)
      \<and> after ?body u = (let v = after (section node) u in v\<lparr>held := (held v)(node := None)\<rparr>)" for u
    by (cases "outcome (section node) u") (simp_all add: seq_run handle_run give_up_def run_prims Let_def)
  with run show "outcome (locked env manifest section) w = (case outcome (section node) (holding env node j w) of Inl e \<Rightarrow> Inl (outside e) | Inr a \<Rightarrow> Inr a)"
    "after (locked env manifest section) w = (let v = after (section node) (holding env node j w) in v\<lparr>held := (held v)(node := None)\<rparr>)"
    by simp_all
qed

lemma locked_Inr:
  assumes "outcome (locked env manifest section) w = Inr a" "key env manifest = Inr node" "held w node = None"
  obtains j where "outcome (acquire env node) w = Inr ()" "open_journal env node (after (acquire env node) w) = Inr j"
    "outcome (section node) (holding env node j w) = Inr a"
    "after (locked env manifest section) w = (let v = after (section node) (holding env node j w) in v\<lparr>held := (held v)(node := None)\<rparr>)"
proof -
  from assms have t: "outcome (take_lock env node) w = Inr ()"
    by (cases "outcome (take_lock env node) w") (auto simp: locked_def look_run seq_run)
  then have a: "outcome (acquire env node) w = Inr ()"
    by (cases "outcome (acquire env node) w") (auto simp: take_lock_def seq_run)
  with t obtain j where j: "open_journal env node (after (acquire env node) w) = Inr j"
    by (cases "open_journal env node (after (acquire env node) w)") (auto simp: take_lock_def look_run seq_run)
  from locked_runs [OF assms(2,3) a j, of "section"] assms(1) that [OF a j] show ?thesis
    by (auto split: sum.splits)
qed

lemma save_run:
  assumes "outcome (save_journal env node) w = Inr ()"
  shows "validate_record env (record_of node w) node = Inr ()" "length (json_text (PDict (record_of node w))) \<le> MAX_BYTES"
    "nodes (after (save_journal env node) w) = (nodes w)(journal_path env node \<mapsto> new_node env (json_text (PDict (record_of node w))) w)"
proof -
  from assms obtain raw exists where c: "save_check env node w = Inr (raw, exists)"
    unfolding save_journal_def by (auto simp: look_run split: sum.splits)
  with assms save_check_Inr [OF c] show "validate_record env (record_of node w) node = Inr ()"
    "length (json_text (PDict (record_of node w))) \<le> MAX_BYTES"
    "nodes (after (save_journal env node) w) = (nodes w)(journal_path env node \<mapsto> new_node env (json_text (PDict (record_of node w))) w)"
    unfolding save_journal_def atomic_def
    by (auto simp: after_def dio_eval seq_assoc split: if_splits)
qed

lemma holding_record [simp]: "journal_of node (holding env node j w) = j"
  by (simp add: journal_of_def holding_def)

lemma set_record_run [simp]:
  "outcome (set_record node f) w = Inr ()" "record_of node (after (set_record node f) w) = f (record_of node w)"
  "nodes (after (set_record node f) w) = nodes w" "dirs (after (set_record node f) w) = dirs w"
  by (simp_all add: set_record_def run_prims journal_of_def)

section \<open>Exclusive reservations\<close>

lemma keys_are_update: "keys_are d ks \<Longrightarrow> k \<in> set ks \<Longrightarrow> keys_are (AList.update k v d) ks"
  by (simp only: keys_are_iff update_keys) auto

lemma schema_ok_update:
  assumes "schema_ok r node" "k = ''current'' \<or> k = ''publish'' \<or> k = ''claim''"
  shows "schema_ok (AList.update k v r) node"
proof -
  have "k \<in> set record_names" "k \<noteq> ''version''" "k \<noteq> ''key''" "k \<noteq> ''history''" "k \<noteq> ''released''"
    using assms(2) by (auto simp: record_names_def)
  with assms(1) show ?thesis by (simp add: schema_ok_def item_update keys_are_update)
qed

lemma new_record_schema: "schema_ok (new_record node) node"
  by (simp add: schema_ok_def new_record_def keys_are_def record_names_def has_key_def)

lemma open_journal_schema:
  assumes "open_journal env node w = Inr j"
  shows "schema_ok (jrecord j) node"
proof -
  from assms obtain found where "read_at env (journal_path env node) w = Inr found" by (auto simp: open_journal_def bind_res_Inr)
  with assms show ?thesis
    by (cases found) (auto simp: open_journal_def bind_res_Inr new_record_schema, simp add: schema_ok_def)
qed

lemma checked_save:
  assumes "outcome (seq (look c) (\<lambda>x. seq (set_record node (f x)) (\<lambda>_. save_journal env node))) w = Inr ()"
  shows "\<exists>x u. c w = Inr x \<and> validate_record env (f x (record_of node w)) node = Inr ()
     \<and> length (json_text (PDict (f x (record_of node w)))) \<le> MAX_BYTES
     \<and> nodes (after (seq (look c) (\<lambda>x. seq (set_record node (f x)) (\<lambda>_. save_journal env node))) w)
         = (nodes w)(journal_path env node \<mapsto> new_node env (json_text (PDict (f x (record_of node w)))) u)"
proof -
  from assms obtain x where x: "c w = Inr x" by (cases "c w") (auto simp: look_run)
  define v where "v = after (set_record node (f x)) w"
  have s: "outcome (save_journal env node) v = Inr ()" using assms x by (simp add: look_run seq_run v_def)
  have "record_of node v = f x (record_of node w)" "nodes v = nodes w" by (simp_all add: v_def)
  with save_run [OF s] x show ?thesis
    by (intro exI [of _ x] exI [of _ v]) (simp add: look_run seq_run v_def [symmetric])
qed

lemma begin_reservation_run:
  assumes "outcome (begin_reservation env manifest evidence) w = Inr ()" "key env manifest = Inr node" "held w node = None"
  shows "\<exists>j u. open_journal env node (after (acquire env node) w) = Inr j \<and> item (jrecord j) ''claim'' = PNone \<and>
     (let r = AList.update ''claim'' (claim_value evidence ''reserving'') (jrecord j) in
      validate_record env r node = Inr () \<and> length (json_text (PDict r)) \<le> MAX_BYTES \<and>
      nodes (after (begin_reservation env manifest evidence) w) (journal_path env node) = Some (new_node env (json_text (PDict r)) u))"
proof -
  from locked_Inr [OF assms(1) [unfolded begin_reservation_def] assms(2,3)] obtain j
    where j: "open_journal env node (after (acquire env node) w) = Inr j"
      and run: "outcome (seq (look (\<lambda>w. if item (record_of node w) ''claim'' \<noteq> PNone then Inl (GuardError ''node has an outstanding destruction reservation'')
        else bind_res (check_path evidence) (\<lambda>_. bind_res (any_present env (evidence_paths manifest evidence) w) (\<lambda>there.
          refuse_if there (GuardError ''evidence output already exists''))))) (\<lambda>_.
        seq (set_record node (AList.update ''claim'' (claim_value evidence ''reserving''))) (\<lambda>_. save_journal env node))) (holding env node j w) = Inr ()"
      and aft: "after (begin_reservation env manifest evidence) w = (let v = after (seq (look (\<lambda>w. if item (record_of node w) ''claim'' \<noteq> PNone then Inl (GuardError ''node has an outstanding destruction reservation'')
        else bind_res (check_path evidence) (\<lambda>_. bind_res (any_present env (evidence_paths manifest evidence) w) (\<lambda>there.
          refuse_if there (GuardError ''evidence output already exists''))))) (\<lambda>_.
        seq (set_record node (AList.update ''claim'' (claim_value evidence ''reserving''))) (\<lambda>_. save_journal env node))) (holding env node j w)
        in v\<lparr>held := (held v)(node := None)\<rparr>)"
    unfolding begin_reservation_def [symmetric] .
  from checked_save [OF run] j show ?thesis
    unfolding aft by (intro exI [of _ j]) (auto simp: Let_def split: if_split_asm)
qed

text \<open>A node whose stored record is \<open>r\<close>, opened again after a restart or by another process.\<close>

definition stored :: "senv \<Rightarrow> string \<Rightarrow> dict \<Rightarrow> sworld \<Rightarrow> bool" where
  "stored env node r w \<longleftrightarrow> plain (PDict r) \<and> schema_ok r node \<and> validate_record env r node = Inr ()
     \<and> length (json_text (PDict r)) \<le> MAX_BYTES
     \<and> (\<exists>u. nodes w (journal_path env node) = Some (new_node env (json_text (PDict r)) u))"

lemma stored_opens:
  assumes "stored env node r w"
  shows "\<exists>j u. open_journal env node (after (acquire env node) w) = Inr j \<and> jrecord j = sorted_dict r
     \<and> jsnapshot j = Some (json_text (PDict r), (device env, fresh u))
     \<and> nodes w (journal_path env node) = Some (new_node env (json_text (PDict r)) u)"
proof -
  from assms obtain u where u: "nodes w (journal_path env node) = Some (new_node env (json_text (PDict r)) u)"
    by (auto simp: stored_def)
  moreover have "nodes (after (acquire env node) w) (journal_path env node) = nodes w (journal_path env node)"
    using acquire_keeps [of env node w] lock_not_journal unfolding kept_by_lock_def by metis
  ultimately show ?thesis
    using reopened_journal [of r node env "after (acquire env node) w" u] assms by (auto simp: stored_def)
qed

lemma claimed_not_pending:
  "validate_record env r node = Inr () \<Longrightarrow> item r ''claim'' \<noteq> PNone \<Longrightarrow> item r ''publish'' = PNone"
  by (auto simp: validate_record_def Let_def bind_res_Inr pending_ok_def split: if_split_asm)

text \<open>
  C8: A node is reserved by one destruction at a time. Once a reservation has begun, every other
  reservation of the node is refused, whichever manifest of the node and whichever evidence file it
  names, and so is every publication of a manifest for it, in this process or in one that opens the
  journal later, while the phase reads \<open>reserving\<close>.
\<close>

theorem reservation_exclusive:
  assumes run: "outcome (begin_reservation env manifest evidence) w = Inr ()" "key env manifest = Inr node" "held w node = None"
    and texts: "\<forall>j. open_journal env node (after (acquire env node) w) = Inr j \<longrightarrow> plain (PDict (jrecord j))" "is_ascii (path_text evidence)"
    and later: "nodes v (journal_path env node) = nodes (after (begin_reservation env manifest evidence) w) (journal_path env node)"
      "held v node = None" "outcome (acquire env node) v = Inr ()" "key env manifest' = Inr node"
  shows "outcome (begin_reservation env manifest' evidence') v = Inl (GuardError ''node has an outstanding destruction reservation'')
    \<and> (check_path output = Inr () \<longrightarrow> (case previous of None \<Rightarrow> Inr () | Some p \<Rightarrow> check_path p) = Inr () \<longrightarrow>
      outcome (publish_manifest env manifest' output previous) v = Inl (GuardError ''node has an outstanding destruction reservation''))
    \<and> outcome (reservation_phase env manifest') v = Inr (PStr ''reserving'')"
proof (intro conjI impI)
  from begin_reservation_run [OF run] obtain j u where j: "open_journal env node (after (acquire env node) w) = Inr j"
    "item (jrecord j) ''claim'' = PNone"
    and r: "let r = AList.update ''claim'' (claim_value evidence ''reserving'') (jrecord j) in
      validate_record env r node = Inr () \<and> length (json_text (PDict r)) \<le> MAX_BYTES \<and>
      nodes (after (begin_reservation env manifest evidence) w) (journal_path env node) = Some (new_node env (json_text (PDict r)) u)"
    by blast
  define r' where "r' = AList.update ''claim'' (claim_value evidence ''reserving'') (jrecord j)"
  have "plain (claim_value evidence ''reserving'')" using texts(2) by (simp add: claim_value_def is_ascii_def list_all_iff)
  then have p: "plain (PDict r')" unfolding r'_def using texts(1) j(1) by (intro plain_update) (simp_all add: is_ascii_def)
  have st: "stored env node r' v"
    using p r open_journal_schema [OF j(1)] unfolding stored_def later(1) r'_def Let_def by (auto intro: schema_ok_update)
  then obtain k where k: "open_journal env node (after (acquire env node) v) = Inr k" "jrecord k = sorted_dict r'"
    using stored_opens by blast
  have claim: "item (jrecord k) ''claim'' = PDict [(''path'', PStr (path_text evidence)), (''phase'', PStr ''reserving'')]"
    unfolding k(2) sorted_dict_items(1) [OF p] by (simp add: r'_def item_update claim_value_def)
  have "validate_record env (jrecord k) node = Inr ()"
    unfolding k(2) validate_record_sorted [OF p] using st by (simp add: stored_def)
  with claim have pending: "item (jrecord k) ''publish'' = PNone" using claimed_not_pending by simp
  note runs = locked_runs [OF later(4,2,3) k(1)]
  show "outcome (begin_reservation env manifest' evidence') v = Inl (GuardError ''node has an outstanding destruction reservation'')"
    unfolding begin_reservation_def runs(1) by (simp add: look_run claim outside_def)
  show "outcome (reservation_phase env manifest') v = Inr (PStr ''reserving'')"
    unfolding reservation_phase_def runs(1) by (simp add: run_prims claim subscript_def)
  assume "check_path output = Inr ()" "(case previous of None \<Rightarrow> Inr () | Some p \<Rightarrow> check_path p) = Inr ()"
  then show "outcome (publish_manifest env manifest' output previous) v = Inl (GuardError ''node has an outstanding destruction reservation'')"
    unfolding publish_manifest_def by (simp add: look_run runs(1) publish_decision_def Let_def claim pending outside_def)
qed

section \<open>Resumed publications\<close>

lemma parent_mono: "parent env private p u = Inr () \<Longrightarrow> dirs u \<subseteq>\<^sub>m dirs v \<Longrightarrow> parent env private p v = Inr ()"
proof -
  assume u: "parent env private p u = Inr ()" and le: "dirs u \<subseteq>\<^sub>m dirs v"
  have some: "dirs u q = Some x \<Longrightarrow> dirs v q = Some x" for q x using le by (auto simp: map_le_def dom_def)
  from u obtain uid mode where up: "check_path p = Inr ()" "\<forall>n \<in> set [0..<Suc (length (butlast p))]. dirs u (take n (butlast p)) \<noteq> None"
    "dirs u (butlast p) = Some (uid, mode)" "\<not> (uid \<noteq> me env \<or> (if private then mode \<noteq> 448 else writable_by_others mode))"
    by (auto simp: parent_def Let_def bind_res_Inr list_ex_iff split: if_split_asm option.splits prod.splits)
  have "\<forall>n \<in> set [0..<Suc (length (butlast p))]. dirs v (take n (butlast p)) \<noteq> None"
    using up(2) some by (metis not_None_eq)
  then have "\<not> list_ex (\<lambda>n. dirs v (take n (butlast p)) = None) [0..<Suc (length (butlast p))]"
    unfolding list_ex_iff by blast
  with up some [OF up(3)] show ?thesis by (simp add: parent_def Let_def refuse_if_def del: upt_Suc)
qed

lemma both_Inr_True: "both a b = Inr True \<longleftrightarrow> a = Inr True \<and> b = Inr True"
  by (auto simp: both_def bind_res_Inr split: if_split_asm)

lemma all_of_True: "all_of f xs = Inr True \<longleftrightarrow> (\<forall>x \<in> set xs. f x = Inr True)"
  by (induction xs) (auto simp: both_Inr_True)

lemma validate_record_iff:
  "validate_record env r node = Inr () \<longleftrightarrow>
     (item r ''current'' = PNone \<or> entry_ok env node (item r ''current'') = Inr True)
     \<and> \<not> (item r ''current'' = PNone \<and> item r ''publish'' = PNone)
     \<and> (item r ''publish'' = PNone \<or> pending_ok env node (item r ''claim'') (item r ''publish'') = Inr True)
     \<and> (item r ''claim'' = PNone \<or> claim_ok (item r ''current'') (item r ''claim'') = Inr True)
     \<and> (\<forall>x \<in> set (list_of (item r ''history'')). entry_ok env node x = Inr True)
     \<and> (\<forall>x \<in> set (list_of (item r ''released'')). released_ok x = Inr True)"
proof -
  have check: "bind_res b (\<lambda>ok. refuse_if (\<not> ok) (GuardError e)) = Inr () \<longleftrightarrow> b = Inr True" for b :: "serr + bool" and e
    by (cases b) (auto simp: refuse_if_def)
  have skip: "(if c then Inr () else m) = Inr () \<longleftrightarrow> c \<or> m = Inr ()" for c and m :: "serr + unit" by simp
  have chain: "bind_res m (\<lambda>_. k) = Inr () \<longleftrightarrow> m = Inr () \<and> k = Inr ()" for m k :: "serr + unit"
    by (cases m) auto
  show ?thesis
    unfolding validate_record_def Let_def by (simp only: check skip chain both_Inr_True all_of_True refuse_if_simps)
qed

lemma registered_valid:
  assumes "validate_record env r node = Inr ()" "item r ''publish'' \<noteq> PNone"
    "absolute_ok (PStr (path_text output))" "key env manifest = Inr node" "identity_ok (identity_value i)"
  shows "validate_record env (registered manifest output i r) node = Inr ()"
proof -
  have "item r ''claim'' = PNone" using claimed_not_pending assms(1,2) by blast
  moreover have "entry_ok env node (PDict [(''path'', PStr (path_text output)), (''manifest'', PDict manifest), (''identity'', identity_value i)]) = Inr True"
    using assms(3-5) by (simp add: entry_ok_def keys_are_def has_key_def)
  ultimately show ?thesis
    using assms(1) unfolding validate_record_iff by (auto simp: registered_def Let_def item_update)
qed

text \<open>The file a pending publication finds: none yet, or the manifest that a stopped run left there.\<close>

definition awaiting :: "senv \<Rightarrow> dict \<Rightarrow> string list \<Rightarrow> sworld \<Rightarrow> bool" where
  "awaiting env manifest output w \<longleftrightarrow> dirs w output = None \<and> (case nodes w output of
     None \<Rightarrow> True
   | Some n \<Rightarrow> fkind n = Regular \<and> fuid n = me env \<and> fmode n = 384 \<and> fbytes n = json_text (PDict manifest))"

definition next_identity :: "senv \<Rightarrow> string \<Rightarrow> string list \<Rightarrow> sworld \<Rightarrow> int \<times> int" where
  "next_identity env node output w = (case nodes w output of
     Some n \<Rightarrow> ident n | None \<Rightarrow> (device env, fresh (after (acquire env node) w)))"

lemma save_succeeds:
  assumes "validate_record env (record_of node w) node = Inr ()" "jsnapshot (journal_of node w) = Some snapshot"
    "read_at env (journal_path env node) w = Inr (Some snapshot)" "dirs w (journal_path env node) = None" "wfaults w = []"
    "length (json_text (PDict (record_of node w))) \<le> MAX_BYTES"
  shows "outcome (save_journal env node) w = Inr ()"
proof -
  have "save_check env node w = Inr (json_text (PDict (record_of node w)), True)"
    using assms(1-3) by (cases snapshot) (simp add: save_check_def must_exist_def refuse_if_def)
  with assms(4-6) show ?thesis by (simp add: save_journal_def look_run atomic_def dio_eval seq_assoc not_less)
qed

lemma finish_publication_runs:
  assumes o: "parent env True output w = Inr ()" "awaiting env manifest output w" "length (json_text (PDict manifest)) \<le> MAX_BYTES"
    "output \<noteq> journal_path env node"
    and i: "i = (case nodes w output of Some n \<Rightarrow> ident n | None \<Rightarrow> (device env, fresh w))"
    and j: "journal_of node w = j" "jsnapshot j = Some snapshot" "read_at env (journal_path env node) w = Inr (Some snapshot)"
      "dirs w (journal_path env node) = None" "wfaults w = []"
    and r: "validate_record env (registered manifest output i (jrecord j)) node = Inr ()"
      "length (json_text (PDict (registered manifest output i (jrecord j)))) \<le> MAX_BYTES"
  shows "outcome (finish_publication env node manifest output) w = Inr ()"
    and "\<exists>u n. nodes (after (finish_publication env node manifest output) w) (journal_path env node)
        = Some (new_node env (json_text (PDict (registered manifest output i (jrecord j)))) u)
      \<and> nodes (after (finish_publication env node manifest output) w) output = Some n \<and> fbytes n = json_text (PDict manifest)"
proof -
  let ?raw = "json_text (PDict manifest)"
  define w1 where "w1 = (case nodes w output of Some n \<Rightarrow> w
    | None \<Rightarrow> w\<lparr>nodes := (nodes w)(output \<mapsto> new_node env ?raw w), fresh := fresh w + 1, wfaults := tl (wfaults w)\<rparr>)"
  define w2 where "w2 = after (set_record node (registered manifest output i)) w1"
  have run: "outcome (finish_publication env node manifest output) w = outcome (save_journal env node) w2"
    "after (finish_publication env node manifest output) w = after (save_journal env node) w2"
    unfolding finish_publication_def Let_def look_run w2_def w1_def
    using o i j(5) by (auto simp: present_def occupied_def awaiting_def read_def read_at_def must_exist_def atomic_def look_run
        publish_run seq_run seq_assoc run_prims split: option.splits)
  have w2: "record_of node w2 = registered manifest output i (jrecord j)" "jsnapshot (journal_of node w2) = Some snapshot"
    "nodes w2 = nodes w1" "dirs w2 = dirs w" "wfaults w2 = []"
    using j by (auto simp: w2_def w1_def set_record_def journal_of_def split: option.splits)
  have "nodes w1 (journal_path env node) = nodes w (journal_path env node)" using o(4) by (auto simp: w1_def split: option.splits)
  then have "read_at env (journal_path env node) w2 = Inr (Some snapshot)" using j(3) w2(3,4) by (simp only: read_at_def)
  then have s: "outcome (save_journal env node) w2 = Inr ()" using w2 j(4) r by (intro save_succeeds) simp_all
  then show "outcome (finish_publication env node manifest output) w = Inr ()" unfolding run .
  have "\<exists>n. nodes w1 output = Some n \<and> fbytes n = ?raw" using o(2) by (auto simp: w1_def awaiting_def new_node_def split: option.splits)
  with save_run(3) [OF s] o(4) w2 show "\<exists>u n. nodes (after (finish_publication env node manifest output) w) (journal_path env node)
        = Some (new_node env (json_text (PDict (registered manifest output i (jrecord j)))) u)
      \<and> nodes (after (finish_publication env node manifest output) w) output = Some n \<and> fbytes n = ?raw"
    unfolding run by auto
qed

lemma read_at_kept:
  assumes "stored env node r w" "dirs w (journal_path env node) = None" "nodes w (journal_path env node) = Some (new_node env (json_text (PDict r)) u)"
    "nodes v (journal_path env node) = nodes w (journal_path env node)" "dirs v (journal_path env node) = dirs w (journal_path env node)"
  shows "read_at env (journal_path env node) v = Inr (Some (json_text (PDict r), (device env, fresh u)))"
  using assms by (simp add: read_at_def new_node_def stored_def)


section \<open>Sample runs\<close>

definition sample_env :: senv where
  "sample_env = \<lparr>sha = (\<lambda>_. ''k''), home = [''h''], home_absolute = True, me = 0, device = 1, inherited = None,
     descriptor = (\<lambda>_. None), busy = False\<rparr>"

definition sample_dirs :: "string list \<Rightarrow> (int \<times> nat) option" where
  "sample_dirs p = (if p \<in> {[], [''h''], [''h'', ''.local''], [''h'', ''.local'', ''state''], [''h'', ''.local'', ''state'', ''vpn-deploy''],
     [''h'', ''.local'', ''state'', ''vpn-deploy'', ''staging-cleanup''], [''e'']} then Some (0, 448) else None)"

definition sample_file :: "string \<Rightarrow> int \<Rightarrow> snode" where
  "sample_file raw n = \<lparr>fkind = Regular, fmode = 384, fuid = 0, fnlink = 1, fbytes = raw, ident = (1, n)\<rparr>"

definition sample_manifest :: dict where
  "sample_manifest = [(''provider'', PStr ''upcloud''), (''provider_account_username'', PStr ''a''), (''server_uuid'', PStr ''s'')]"

definition sample_pending :: dict where
  "sample_pending = AList.update ''publish'' (PDict (proposal sample_manifest [''e'', ''m''] None)) (new_record ''k'')"

definition sample_current :: dict where
  "sample_current = AList.update ''current'' (PDict [(''path'', PStr ''/e/m''), (''manifest'', PDict sample_manifest),
     (''identity'', identity_value (1, 7))]) (new_record ''k'')"

definition sample_sworld :: "dict \<Rightarrow> sworld" where
  "sample_sworld r = \<lparr>nodes = [lock_path sample_env ''k'' \<mapsto> sample_file [] 2,
       journal_path sample_env ''k'' \<mapsto> sample_file (json_text (PDict r)) 3],
     dirs = sample_dirs, fresh = 9, held = (\<lambda>_. None), wfaults = []\<rparr>"

lemma sample_env_sel [simp]:
  "sha sample_env = (\<lambda>_. ''k'')" "home sample_env = [''h'']" "home_absolute sample_env" "me sample_env = 0" "device sample_env = 1"
  "inherited sample_env = None" "\<not> busy sample_env"
  by (simp_all add: sample_env_def)

lemma sample_paths:
  "registry_path sample_env ''staging-cleanup'' = [''h'', ''.local'', ''state'', ''vpn-deploy'', ''staging-cleanup'']"
  "lock_path sample_env ''k'' = [''h'', ''.local'', ''state'', ''vpn-deploy'', ''staging-cleanup'', ''k.lock'']"
  "journal_path sample_env ''k'' = [''h'', ''.local'', ''state'', ''vpn-deploy'', ''staging-cleanup'', ''k.json'']"
  by (simp_all add: registry_path_def lock_path_def journal_path_def node_file_def)

lemma sample_parent:
  assumes "dirs w = sample_dirs"
  shows "parent sample_env True (lock_path sample_env ''k'') w = Inr ()" "parent sample_env False [''h'', ''.local''] w = Inr ()"
    "x \<noteq> ''..'' \<Longrightarrow> parent sample_env True [''e'', x] w = Inr ()"
  using assms by (simp_all add: parent_def check_path_def sample_paths sample_dirs_def refuse_if_def writable_by_others_def)

lemma sample_acquire:
  assumes "dirs w = sample_dirs" "nodes w (lock_path sample_env ''k'') = Some (sample_file [] 2)"
  shows "acquire sample_env ''k'' w = ([], Inr ())"
proof -
  have enter: "enter sample_env ''staging-cleanup'' p w = ([], Inr ())" if "sample_dirs p = Some (0, 448)" for p
    using that assms(1) by (simp add: enter_def dio_eval occupied_def refuse_if_def writable_by_others_def)
  have "private_registry sample_env ''staging-cleanup'' w = ([], Inr (registry_path sample_env ''staging-cleanup''))"
    unfolding private_registry_def
    by (simp add: seq_def look_def ret_def sample_paths check_path_def refuse_if_def sample_parent(2) [OF assms(1)] enter sample_dirs_def)
  moreover have "open_lock sample_env ''k'' w = ([], Inr (sample_file [] 2))"
    using assms(2) by (simp add: open_lock_def dio_eval occupied_def sample_file_def)
  ultimately show ?thesis
    using assms(2) by (simp add: acquire_def seq_def look_def sample_parent(1) [OF assms(1)] sample_file_def refuse_if_def)
qed

lemmas sample_values = new_record_def proposal_def identity_value_def claim_value_def path_text_def sample_manifest_def

lemmas sample_length = json_text_def length_dumps_sorted MAX_BYTES_def quote_unescaped unescaped_def show_int_def show_nat_small

lemma sample_key: "key sample_env sample_manifest = Inr ''k''"
  by (simp add: key_def identified_def sample_manifest_def truthy_def)

lemma sample_entry: "entry_ok sample_env ''k'' (PDict [(''path'', PStr ''/e/m''), (''manifest'', PDict sample_manifest), (''identity'', identity_value (1, i))]) = Inr True"
  if "0 < i"
  using that by (simp add: entry_ok_def keys_are_def has_key_def absolute_ok_def starts_with_def identity_ok_def identity_value_def sample_key)

lemma sample_plain_manifest: "plain (PDict sample_manifest)"
  by (simp add: sample_manifest_def is_ascii_def)

lemma sample_stored:
  "stored sample_env ''k'' sample_current (sample_sworld sample_current)" "stored sample_env ''k'' sample_pending (sample_sworld sample_pending)"
proof -
  have there: "\<exists>u. nodes (sample_sworld r) (journal_path sample_env ''k'') = Some (new_node sample_env (json_text (PDict r)) u)" for r
    by (intro exI [of _ "(sample_sworld r)\<lparr>fresh := 3\<rparr>"]) (simp add: sample_sworld_def new_node_def sample_file_def)
  have len: "length (json_text (PDict sample_current)) \<le> MAX_BYTES" "length (json_text (PDict sample_pending)) \<le> MAX_BYTES"
    by (simp_all add: sample_current_def sample_pending_def sample_values sample_length)
  have schema: "schema_ok sample_current ''k''" "schema_ok sample_pending ''k''"
    unfolding sample_current_def sample_pending_def by (intro schema_ok_update new_record_schema; simp)+
  have plain: "plain (PDict sample_current)" "plain (PDict sample_pending)"
    unfolding sample_current_def sample_pending_def using sample_plain_manifest
    by (auto intro!: plain_update simp: new_record_def proposal_def identity_value_def path_text_def is_ascii_def show_nat_small
        simp del: plain.simps(5)) (simp_all add: is_ascii_def show_nat_small)
  have "validate_record sample_env sample_current ''k'' = Inr ()"
    unfolding validate_record_iff by (simp add: sample_current_def item_update new_record_def sample_entry)
  moreover have "validate_record sample_env sample_pending ''k'' = Inr ()"
    unfolding validate_record_iff
    by (simp add: sample_pending_def item_update new_record_def pending_ok_def proposal_def keys_are_def has_key_def absolute_ok_def
        path_text_def starts_with_def sample_key)
  ultimately show "stored sample_env ''k'' sample_current (sample_sworld sample_current)"
    "stored sample_env ''k'' sample_pending (sample_sworld sample_pending)"
    using there len schema plain unfolding stored_def by auto
qed

lemma sample_sworld_sel [simp]:
  "dirs (sample_sworld r) = sample_dirs" "fresh (sample_sworld r) = 9" "held (sample_sworld r) = (\<lambda>_. None)" "wfaults (sample_sworld r) = []"
  "nodes (sample_sworld r) [''e'', x] = None" "nodes (sample_sworld r) (lock_path sample_env ''k'') = Some (sample_file [] 2)"
  by (simp_all add: sample_sworld_def sample_paths)

lemma sample_after_acquire: "after (acquire sample_env ''k'') (sample_sworld r) = sample_sworld r" "outcome (acquire sample_env ''k'') (sample_sworld r) = Inr ()"
  using sample_acquire [of "sample_sworld r"] by (simp_all add: after_def)


lemma sample_sorted:
  "sorted_dict sample_current = [(''claim'', PNone), (''current'', sort_keys (item sample_current ''current'')), (''history'', PList []),
     (''key'', PStr ''k''), (''publish'', PNone), (''released'', PList []), (''version'', PInt 1)]"
  by (simp add: sample_current_def new_record_def)

lemma sample_reservation: "outcome (begin_reservation sample_env sample_manifest [''e'', ''x'']) (sample_sworld sample_current) = Inr ()"
proof -
  let ?w = "sample_sworld sample_current" and ?claim = "claim_value [''e'', ''x''] ''reserving''"
  from stored_opens [OF sample_stored(1)] obtain j u where j: "open_journal sample_env ''k'' (after (acquire sample_env ''k'') ?w) = Inr j"
    "jrecord j = sorted_dict sample_current" "jsnapshot j = Some (json_text (PDict sample_current), (device sample_env, fresh u))"
    "nodes ?w (journal_path sample_env ''k'') = Some (new_node sample_env (json_text (PDict sample_current)) u)" by blast
  let ?h = "holding sample_env ''k'' j ?w"
  have h: "dirs ?h = sample_dirs" "nodes ?h = nodes ?w" "wfaults ?h = []" by (simp_all add: holding_def sample_after_acquire)
  define v where "v = after (set_record ''k'' (AList.update ''claim'' ?claim)) ?h"
  have v: "record_of ''k'' v = AList.update ''claim'' ?claim (sorted_dict sample_current)" "jsnapshot (journal_of ''k'' v) = jsnapshot j"
    "nodes v = nodes ?w" "dirs v = sample_dirs" "wfaults v = []"
    using h j(2) by (simp_all add: v_def set_record_def journal_of_def) (simp_all add: holding_def)
  have cur: "entry_ok sample_env ''k'' (sort_keys (item sample_current ''current'')) = Inr True"
  proof (subst entry_ok_sorted)
    show "plain (item sample_current ''current'')" using sample_stored(1) plain_item unfolding stored_def by blast
    show "entry_ok sample_env ''k'' (item sample_current ''current'') = Inr True" by (simp add: sample_current_def item_update sample_entry)
  qed
  have n: "item sample_current ''current'' \<noteq> PNone" by (simp add: sample_current_def item_update)
  have "validate_record sample_env (record_of ''k'' v) ''k'' = Inr ()"
    unfolding v(1) sample_sorted validate_record_iff using cur n
    by (simp add: item_update claim_ok_def claim_value_def in_names_def both_def keys_are_def has_key_def absolute_ok_def starts_with_def path_text_def
        pv_tests)
  moreover have "length (json_text (PDict (record_of ''k'' v))) \<le> MAX_BYTES"
    unfolding v(1) sample_sorted by (simp add: sample_current_def item_update sample_values sample_length)
  moreover have "read_at sample_env (journal_path sample_env ''k'') v = Inr (jsnapshot j)"
    unfolding j(3) by (rule read_at_kept [OF sample_stored(1) _ j(4)]) (simp_all add: v sample_dirs_def sample_paths)
  ultimately have "outcome (save_journal sample_env ''k'') v = Inr ()"
    using v j(3) by (intro save_succeeds [where snapshot = "(json_text (PDict sample_current), (device sample_env, fresh u))"])
      (simp_all add: sample_dirs_def sample_paths)
  moreover have "any_present sample_env (evidence_paths sample_manifest [''e'', ''x'']) ?h = Inr False"
    using h sample_parent(3) [OF h(1), of "''x''"] by (simp add: evidence_paths_def sample_manifest_def present_def occupied_def sample_dirs_def)
  moreover have "item (jrecord j) ''claim'' = PNone" unfolding j(2) sample_sorted by simp
  ultimately show ?thesis
    unfolding begin_reservation_def locked_runs(1) [OF sample_key _ sample_after_acquire(2) j(1), simplified]
    by (simp add: look_run check_path_def refuse_if_def seq_run v_def [symmetric])
qed

theorem reservation_exclusive_witness:
  "\<exists>v. outcome (begin_reservation sample_env sample_manifest [''e'', ''y'']) v = Inl (GuardError ''node has an outstanding destruction reservation'')"
proof -
  let ?w = "sample_sworld sample_current" and ?jp = "journal_path sample_env ''k''"
  define v where "v = ?w\<lparr>nodes := (nodes ?w)(?jp := nodes (after (begin_reservation sample_env sample_manifest [''e'', ''x'']) ?w) ?jp)\<rparr>"
  have "outcome (begin_reservation sample_env sample_manifest [''e'', ''y'']) v = Inl (GuardError ''node has an outstanding destruction reservation'')"
  proof (rule reservation_exclusive [OF sample_reservation sample_key, THEN conjunct1])
    show "\<forall>j. open_journal sample_env ''k'' (after (acquire sample_env ''k'') ?w) = Inr j \<longrightarrow> plain (PDict (jrecord j))"
      using stored_opens [OF sample_stored(1)] sample_stored(1) plain_sort_keys [of "PDict sample_current"] by (auto simp: stored_def)
    show "outcome (acquire sample_env ''k'') v = Inr ()"
      using sample_acquire [of v] lock_not_journal [of sample_env "''k''" "''k''"] by (simp add: v_def)
  qed (simp_all add: v_def sample_key path_text_def is_ascii_def)
  then show ?thesis by blast
qed


end
