(* ===== verification/TransportSocks.thy ===== *)
theory TransportSocks
  imports Prelude "HOL-Library.Word"
begin

text \<open>
  The destination policy and the SOCKS5 wire codec of the recipient transports
  (\<^verbatim>\<open>scripts/transport_destination_policy.py\<close>, \<^verbatim>\<open>scripts/transport_socks.py\<close>).

  An address is a word of its width. A host in canonical text, \<open>str(normalize_address(...))\<close>, is the
  address itself; a host that is no address is a name. Bytes are characters.

  The text form of an address follows the \<open>ipaddress\<close> module of the standard library. The parameters
  (\<open>names\<close>) are the Unicode tables that names go through: \<open>lower\<close> and the \<open>idna\<close> codec in both directions.
\<close>

section \<open>Addresses\<close>

datatype ipaddr = V4 "32 word" | V6 "128 word"

datatype host = Addr ipaddr | Name string

datatype perr = PolicyError string

record names =
  lowered :: "string \<Rightarrow> string"
  idna_encode :: "string \<Rightarrow> string option"
  idna_decode :: "string \<Rightarrow> string option"

definition v4 :: "nat \<Rightarrow> nat \<Rightarrow> nat \<Rightarrow> nat \<Rightarrow> 32 word" where
  "v4 a b c d = of_nat (((a * 256 + b) * 256 + c) * 256 + d)"

definition v6 :: "nat list \<Rightarrow> 128 word" where
  \<comment> \<open>the leading groups of an address that ends in \<open>::\<close>\<close>
  "v6 groups = of_nat (foldl (\<lambda>n g. n * 65536 + g) 0 (groups @ replicate (8 - length groups) 0))"

text \<open>Reading an address: \<open>IPv4Address\<close> is tried first, then \<open>IPv6Address\<close>.\<close>

definition octet :: "string \<Rightarrow> nat option" where
  "octet s =
     (if s \<noteq> [] \<and> list_all is_digit s \<and> length s \<le> 3 \<and> (s = ''0'' \<or> hd s \<noteq> CHR ''0'') \<and> read_nat s \<le> 255 then Some (read_nat s) else None)"

definition ipv4_address :: "string \<Rightarrow> 32 word option" where
  "ipv4_address s = (case map octet (split_on (CHR ''.'') s) of
     [Some a, Some b, Some c, Some d] \<Rightarrow> Some (v4 a b c d) | _ \<Rightarrow> None)"

definition hex_digit :: "char \<Rightarrow> nat" where
  "hex_digit c = (let n = ord_of c in if n \<le> 57 then n - 48 else if n \<le> 70 then n - 55 else n - 87)"

definition hextet :: "string \<Rightarrow> nat option" where
  "hextet s = (if s \<noteq> [] \<and> list_all (\<lambda>c. is_hex c \<or> (65 \<le> ord_of c \<and> ord_of c \<le> 70)) s \<and> length s \<le> 4
     then Some (foldl (\<lambda>n c. 16 * n + hex_digit c) 0 s) else None)"

fun hextets :: "string list \<Rightarrow> nat list option" where
  "hextets [] = Some []"
| "hextets (s # ss) = (case (hextet s, hextets ss) of (Some n, Some ns) \<Rightarrow> Some (n # ns) | _ \<Rightarrow> None)"

definition hex_char :: "nat \<Rightarrow> char" where
  "hex_char n = (if n < 10 then char_of (48 + n) else char_of (87 + n))"

fun show_hex :: "nat \<Rightarrow> string" where
  "show_hex n = (if n < 16 then [hex_char n] else show_hex (n div 16) @ [hex_char (n mod 16)])"

declare show_hex.simps [simp del]

definition ipv6_parts :: "string \<Rightarrow> string list option" where
  \<comment> \<open>the groups between colons, with a trailing dotted quad written as two of them\<close>
  "ipv6_parts s =
     (let parts = split_on (CHR '':'') s in
      if length parts < 3 then None
      else if List.member (last parts) (CHR ''.'') then
        map_option (\<lambda>w. butlast parts @ [show_hex (unat w div 65536), show_hex (unat w mod 65536)]) (ipv4_address (last parts))
      else Some parts)"

definition ipv6_address :: "string \<Rightarrow> 128 word option" where
  "ipv6_address s = (case ipv6_parts s of None \<Rightarrow> None | Some parts \<Rightarrow>
     let n = length parts; gaps = filter (\<lambda>i. parts ! i = []) [1..<n - 1] in
     if 9 < n then None
     else (case gaps of
         [] \<Rightarrow> if n \<noteq> 8 then None else map_option v6 (hextets parts)
       | [skip] \<Rightarrow>
           let hi = (if hd parts = [] then skip - 1 else skip); lo = (if last parts = [] then n - skip - 2 else n - skip - 1) in
           if hd parts = [] \<and> hi \<noteq> 0 \<or> last parts = [] \<and> lo \<noteq> 0 \<or> 7 < hi + lo then None
           else (case (hextets (take hi parts), hextets (drop (n - lo) parts)) of
               (Some high, Some low) \<Rightarrow> Some (v6 (high @ replicate (8 - (hi + lo)) 0 @ low))
             | _ \<Rightarrow> None)
       | _ \<Rightarrow> None))"

definition ip_address :: "string \<Rightarrow> ipaddr option" where
  "ip_address s = (case ipv4_address s of Some w \<Rightarrow> Some (V4 w) | None \<Rightarrow> map_option V6 (ipv6_address s))"

text \<open>Writing an address: the first longest run of at least two zero groups becomes \<open>::\<close>.\<close>

definition groups6 :: "128 word \<Rightarrow> nat list" where
  "groups6 w = map (\<lambda>i. unat w div 65536 ^ (7 - i) mod 65536) [0..<8]"

fun zero_run :: "nat list \<Rightarrow> nat" where
  "zero_run [] = 0"
| "zero_run (g # gs) = (if g = 0 then Suc (zero_run gs) else 0)"

definition longest_run :: "nat list \<Rightarrow> nat \<times> nat" where
  \<comment> \<open>the start and the length of the first longest run\<close>
  "longest_run gs = foldl (\<lambda>best i. let k = zero_run (drop i gs) in if snd best < k then (i, k) else best) (0, 0) [0..<length gs]"

definition str_address :: "ipaddr \<Rightarrow> string" where
  "str_address a = (case a of
     V4 w \<Rightarrow> join ''.'' (map (\<lambda>i. show_nat (unat w div 256 ^ (3 - i) mod 256)) [0..<4])
   | V6 w \<Rightarrow>
       let gs = groups6 w; (start, run) = longest_run gs in
       if run \<le> 1 then join '':'' (map show_hex gs)
       else join '':'' (map show_hex (take start gs)) @ ''::'' @ join '':'' (map show_hex (drop (start + run) gs)))"

definition version :: "ipaddr \<Rightarrow> nat" where
  "version a = (case a of V4 _ \<Rightarrow> 4 | V6 _ \<Rightarrow> 6)"

definition unmapped :: "ipaddr \<Rightarrow> ipaddr" where
  \<comment> \<open>\<open>address.ipv4_mapped\<close> where it is not \<open>None\<close>\<close>
  "unmapped a = (case a of V4 w \<Rightarrow> V4 w | V6 w \<Rightarrow> if drop_bit 32 w = 0xFFFF then V4 (ucast w) else V6 w)"

definition normalize_address :: "string \<Rightarrow> perr + ipaddr" where
  "normalize_address s =
     (if 45 < ulen s \<or> List.member s (CHR 0x25) then Inl (PolicyError ''invalid-address'')
      else (case ip_address s of None \<Rightarrow> Inl (PolicyError ''invalid-address'') | Some a \<Rightarrow> Inr (unmapped a)))"

definition bad_name :: perr where
  "bad_name = PolicyError ''invalid-name''"

definition label_ok :: "string \<Rightarrow> bool" where
  "label_ok l \<longleftrightarrow> l \<noteq> [] \<and> length l \<le> 63 \<and> hd l \<noteq> CHR ''-'' \<and> last l \<noteq> CHR ''-''
     \<and> list_all (\<lambda>c. is_alnum c \<or> c = CHR ''-'' \<or> c = CHR ''_'') l"

definition canonical_name :: "names \<Rightarrow> string \<Rightarrow> perr + string" where
  "canonical_name env value =
     (if value = [] \<or> 254 < ulen value then Inl bad_name
      else
        let requested = lowered env (rev (dropWhile (\<lambda>c. c = CHR ''.'') (rev value))) in
        (case idna_encode env requested of
           None \<Rightarrow> Inl bad_name
         | Some encoded \<Rightarrow>
             let name = lowered env encoded in
             if \<not> is_ascii encoded then Inl bad_name
             else if \<not> is_ascii requested \<and> map_option (lowered env) (idna_decode env name) \<noteq> Some requested then Inl bad_name
             else if 253 < length name \<or> ends_with ''..'' value then Inl bad_name
             else if \<not> list_all label_ok (split_on (CHR ''.'') name) then Inl bad_name
             else Inr (name @ ''.'')))"

section \<open>The destination policy\<close>

definition IPV4_DENY :: "(32 word \<times> nat) list" where
  "IPV4_DENY = [(v4 0 0 0 0, 8), (v4 10 0 0 0, 8), (v4 100 64 0 0, 10), (v4 127 0 0 0, 8), (v4 169 254 0 0, 16),
     (v4 172 16 0 0, 12), (v4 192 168 0 0, 16), (v4 198 18 0 0, 15), (v4 224 0 0 0, 4), (v4 240 0 0 0, 4)]"

definition IPV6_DENY :: "(128 word \<times> nat) list" where
  "IPV6_DENY = [(0, 128), (1, 128), (v6 [0x64, 0xFF9B], 96), (v6 [0x2002], 16), (v6 [0xFC00], 7), (v6 [0xFE80], 10), (v6 [0xFF00], 8)]"

definition in_network :: "'a::len word \<Rightarrow> 'a word \<times> nat \<Rightarrow> bool" where
  \<comment> \<open>\<open>address in ip_network(...)\<close>: the bits under the mask agree\<close>
  "in_network a n \<longleftrightarrow> drop_bit (LENGTH('a) - snd n) a = drop_bit (LENGTH('a) - snd n) (fst n)"

definition denied :: "ipaddr \<Rightarrow> bool" where
  "denied a = (case a of V4 w \<Rightarrow> list_ex (in_network w) IPV4_DENY | V6 w \<Rightarrow> list_ex (in_network w) IPV6_DENY)"

datatype network = Tcp | Udp

record dpolicy =
  owned :: "ipaddr list"
  management_tcp :: "int list"
  management_udp :: "int list"

definition management :: "dpolicy \<Rightarrow> network \<Rightarrow> int list" where
  "management p n = (case n of Tcp \<Rightarrow> management_tcp p | Udp \<Rightarrow> management_udp p)"

definition destination_policy :: "string list \<Rightarrow> int list \<Rightarrow> int list \<Rightarrow> perr + dpolicy" where
  "destination_policy addresses tcp udp = bind_res (map_res (normalize_address) addresses) (\<lambda>own.
     Inr \<lparr>owned = own, management_tcp = tcp, management_udp = udp\<rparr>)"

definition allows :: "dpolicy \<Rightarrow> ipaddr \<Rightarrow> int \<Rightarrow> network \<Rightarrow> bool" where
  "allows p a port n =
     (let normalized = unmapped a in
      if \<not> (1 \<le> port \<and> port \<le> 65535) then False
      else if denied normalized then False
      else \<not> (List.member (owned p) normalized \<and> List.member (management p n) port))"

definition value_of :: "ipaddr \<Rightarrow> nat" where
  "value_of a = (case a of V4 w \<Rightarrow> unat w | V6 w \<Rightarrow> unat w)"

fun zip_longest :: "'a list \<Rightarrow> 'a list \<Rightarrow> 'a list" where
  \<comment> \<open>the pairs of \<open>itertools.zip_longest\<close>, flattened without their missing halves\<close>
  "zip_longest [] ys = ys"
| "zip_longest xs [] = xs"
| "zip_longest (x # xs) (y # ys) = x # y # zip_longest xs ys"

definition admitted_candidates :: "dpolicy \<Rightarrow> ipaddr list \<Rightarrow> int \<Rightarrow> network \<Rightarrow> perr + ipaddr list" where
  "admitted_candidates p addresses port n =
     (let candidates = filter (\<lambda>a. allows p a port n) (remdups (map unmapped addresses));
          ordered = (\<lambda>v. sort_key value_of (filter (\<lambda>a. version a = v) candidates)) in
      if candidates = [] then Inl (PolicyError ''destination-denied'') else Inr (zip_longest (ordered 4) (ordered 6)))"

section \<open>The wire codec\<close>

datatype werr = NeedMore | WireError string

definition FAILURE :: string where
  "FAILURE = map char_of [5, 1, 0, 1 :: nat] @ replicate 6 (CHR 0x00)"

definition MAX_HANDSHAKE :: nat where
  "MAX_HANDSHAKE = 1024"

abbreviation byte :: "string \<Rightarrow> nat \<Rightarrow> nat" where
  "byte d i \<equiv> ord_of (d ! i)"

definition need :: "string \<Rightarrow> nat \<Rightarrow> werr + unit" where
  "need d n = refuse_if (length d < n) NeedMore"

definition chunk :: "nat \<Rightarrow> nat \<Rightarrow> string \<Rightarrow> string" where
  \<comment> \<open>\<open>d[a:b]\<close>\<close>
  "chunk a b d = take (b - a) (drop a d)"

definition greeting :: "string \<Rightarrow> werr + nat \<times> string" where
  "greeting d =
     bind_res (need d 2) (\<lambda>_.
     bind_res (refuse_if (byte d 0 \<noteq> 5 \<or> byte d 1 = 0) (WireError ''invalid-greeting'')) (\<lambda>_.
     bind_res (need d (2 + byte d 1)) (\<lambda>_.
     bind_res (refuse_if (\<not> List.member (chunk 2 (2 + byte d 1) d) (CHR 0x02)) (WireError ''authentication-required'')) (\<lambda>_.
     Inr (2 + byte d 1, [CHR 0x05, CHR 0x02])))))"

definition authentication :: "string \<Rightarrow> string \<Rightarrow> string \<Rightarrow> werr + nat \<times> string" where
  "authentication username password d =
     bind_res (need d 2) (\<lambda>_.
     bind_res (refuse_if (byte d 0 \<noteq> 1 \<or> byte d 1 = 0) (WireError ''invalid-authentication'')) (\<lambda>_.
     let user_end = 2 + byte d 1 in
     bind_res (need d (user_end + 1)) (\<lambda>_.
     bind_res (refuse_if (byte d user_end = 0) (WireError ''invalid-authentication'')) (\<lambda>_.
     let stop = user_end + 1 + byte d user_end in
     bind_res (need d stop) (\<lambda>_.
     bind_res (refuse_if (chunk 2 user_end d \<noteq> username \<or> chunk (user_end + 1) stop d \<noteq> password) (WireError ''authentication-refused'')) (\<lambda>_.
     Inr (stop, [CHR 0x01, CHR 0x00])))))))"

text \<open>Numbers in network byte order: \<open>struct\<close> and the \<open>packed\<close> form of an address.\<close>

fun packed :: "nat \<Rightarrow> nat \<Rightarrow> string" where
  "packed 0 n = []"
| "packed (Suc k) n = packed k (n div 256) @ [char_of (n mod 256)]"

definition unpacked :: "string \<Rightarrow> nat" where
  "unpacked s = foldl (\<lambda>n c. 256 * n + ord_of c) 0 s"

definition named_host :: "names \<Rightarrow> string \<Rightarrow> werr + host" where
  "named_host env value =
     (if \<not> valid_utf8 value then Inl (WireError ''invalid-name'')
      else (case normalize_address value of
          Inr a \<Rightarrow> Inr (Addr a)
        | Inl _ \<Rightarrow> (case canonical_name env value of Inr n \<Rightarrow> Inr (Name n) | Inl _ \<Rightarrow> Inl (WireError ''invalid-name''))))"

definition address :: "names \<Rightarrow> nat \<Rightarrow> string \<Rightarrow> werr + nat \<times> host \<times> nat" where
  "address env offset d =
     bind_res (need d (offset + 1)) (\<lambda>_.
     let atyp = byte d offset; start = offset + 1; port = (\<lambda>stop. unpacked (chunk stop (stop + 2) d)) in
     if atyp = 1 then
       bind_res (need d (start + 4 + 2)) (\<lambda>_.
       Inr (start + 4 + 2, Addr (V4 (of_nat (unpacked (chunk start (start + 4) d)))), port (start + 4)))
     else if atyp = 4 then
       bind_res (need d (start + 16 + 2)) (\<lambda>_.
       Inr (start + 16 + 2, Addr (unmapped (V6 (of_nat (unpacked (chunk start (start + 16) d))))), port (start + 16)))
     else if atyp = 3 then
       bind_res (need d (start + 1)) (\<lambda>_.
       let n = byte d start; from = start + 1 in
       bind_res (refuse_if (n = 0) (WireError ''invalid-name'')) (\<lambda>_.
       bind_res (need d (from + n + 2)) (\<lambda>_.
       bind_res (named_host env (chunk from (from + n) d)) (\<lambda>h.
       Inr (from + n + 2, h, port (from + n))))))
     else Inl (WireError ''invalid-address-type''))"

definition request :: "names \<Rightarrow> string \<Rightarrow> werr + nat \<times> nat \<times> host \<times> nat" where
  "request env d =
     bind_res (need d 4) (\<lambda>_.
     bind_res (refuse_if (byte d 0 \<noteq> 5 \<or> byte d 2 \<noteq> 0 \<or> \<not> (byte d 1 = 1 \<or> byte d 1 = 3)) (WireError ''invalid-request'')) (\<lambda>_.
     bind_res (address env 3 d) (\<lambda>(stop, h, port).
     bind_res (refuse_if (byte d 1 = 1 \<and> port = 0) (WireError ''invalid-port'')) (\<lambda>_.
     Inr (stop, byte d 1, h, port)))))"

definition encoded_address :: "ipaddr \<Rightarrow> int \<Rightarrow> werr + string" where
  "encoded_address a port =
     (if \<not> (0 \<le> port \<and> port \<le> 65535) then Inl (WireError ''invalid-port'')
      else Inr ((case unmapped a of V4 w \<Rightarrow> [CHR 0x01] @ packed 4 (unat w) | V6 w \<Rightarrow> [CHR 0x04] @ packed 16 (unat w)) @ packed 2 (nat port)))"

definition reply :: "ipaddr \<Rightarrow> int \<Rightarrow> werr + string" where
  "reply a port = bind_res (encoded_address a port) (\<lambda>s. Inr ([CHR 0x05, CHR 0x00, CHR 0x00] @ s))"

definition upstream_auth :: "string \<Rightarrow> string \<Rightarrow> werr + string" where
  "upstream_auth user secret =
     (if \<not> (1 \<le> length user \<and> length user \<le> 255) \<or> \<not> (1 \<le> length secret \<and> length secret \<le> 255) then Inl (WireError ''invalid-authentication'')
      else Inr ([CHR 0x01, char_of (length user)] @ user @ [char_of (length secret)] @ secret))"

definition upstream_request :: "nat \<Rightarrow> ipaddr \<Rightarrow> int \<Rightarrow> werr + string" where
  "upstream_request command a port =
     bind_res (if command = 3 then encoded_address (V4 0) 0 else encoded_address a port) (\<lambda>s.
     Inr ([CHR 0x05, char_of command, CHR 0x00] @ s))"

definition upstream_reply :: "names \<Rightarrow> string \<Rightarrow> werr + nat \<times> host \<times> nat" where
  "upstream_reply env d =
     bind_res (need d 4) (\<lambda>_.
     bind_res (refuse_if (byte d 0 \<noteq> 5 \<or> byte d 1 \<noteq> 0 \<or> byte d 2 \<noteq> 0 \<or> \<not> (byte d 3 = 1 \<or> byte d 3 = 4)) (WireError ''upstream-refused'')) (\<lambda>_.
     address env 3 d))"

definition datagram :: "names \<Rightarrow> nat \<Rightarrow> string \<Rightarrow> werr + host \<times> nat \<times> string" where
  "datagram env maximum d =
     (if maximum < length d \<or> length d < 4 \<or> take 3 d \<noteq> replicate 3 (CHR 0x00) then Inl (WireError ''invalid-datagram'')
      else (case address env 3 d of
          Inl NeedMore \<Rightarrow> Inl (WireError ''truncated-datagram'')
        | Inl e \<Rightarrow> Inl e
        | Inr (stop, h, port) \<Rightarrow> if port = 0 then Inl (WireError ''invalid-port'') else Inr (h, port, drop stop d)))"

definition encoded_datagram :: "ipaddr \<Rightarrow> int \<Rightarrow> string \<Rightarrow> nat \<Rightarrow> werr + string" where
  "encoded_datagram a port payload maximum =
     bind_res (encoded_address a port) (\<lambda>s.
     let frame = replicate 3 (CHR 0x00) @ s @ payload in
     if maximum < length frame then Inl (WireError ''oversized-datagram'') else Inr frame)"

text \<open>
  \<open>_frame\<close> of the normalizer: the parser is tried before every byte, so nothing after the frame is
  consumed. The connection yields the bytes of \<open>stream\<close> and then ends; \<open>deadline\<close> is the number of bytes
  that arrive in time. The result is the value and what is left of the stream.
\<close>

fun frame :: "(string \<Rightarrow> werr + 'a) \<Rightarrow> nat \<Rightarrow> string \<Rightarrow> string \<Rightarrow> werr + 'a \<times> string" where
  "frame parser deadline d [] =
     (if MAX_HANDSHAKE < length d then Inl (WireError ''oversized-handshake'')
      else case parser d of
        Inr v \<Rightarrow> Inr (v, [])
      | Inl NeedMore \<Rightarrow> Inl (WireError (if deadline = 0 then ''handshake-expired'' else ''control-closed''))
      | Inl e \<Rightarrow> Inl e)"
| "frame parser deadline d (c # stream) =
     (if MAX_HANDSHAKE < length d then Inl (WireError ''oversized-handshake'')
      else case parser d of
        Inr v \<Rightarrow> Inr (v, c # stream)
      | Inl NeedMore \<Rightarrow> if deadline = 0 then Inl (WireError ''handshake-expired'') else frame parser (deadline - 1) (d @ [c]) stream
      | Inl e \<Rightarrow> Inl e)"

section \<open>Numbers on the wire\<close>

lemma length_packed [simp]: "length (packed k n) = k"
  by (induction k arbitrary: n) auto

lemma unpacked_snoc: "unpacked (s @ [c]) = 256 * unpacked s + ord_of c"
  by (simp add: unpacked_def)

lemma unpacked_packed: "unpacked (packed k n) = n mod 256 ^ k"
proof (induction k arbitrary: n)
  case 0
  show ?case by (simp add: unpacked_def)
next
  case (Suc k)
  have "n mod (256 * 256 ^ k) = 256 * (n div 256 mod 256 ^ k) + n mod 256" by (rule mod_mult2_eq)
  then show ?case by (simp add: unpacked_snoc Suc)
qed

lemma unpacked_width: "unpacked s < 256 ^ length s"
proof (induction s rule: rev_induct)
  case (snoc c s)
  have "ord_of c < 256" by simp
  moreover have "256 * unpacked s + 256 \<le> 256 * 256 ^ length s" using snoc by simp
  ultimately have "256 * unpacked s + ord_of c < 256 * 256 ^ length s" by linarith
  then show ?case by (simp add: unpacked_snoc)
qed (simp add: unpacked_def)

lemma unpacked_port: "0 \<le> port \<Longrightarrow> port \<le> 65535 \<Longrightarrow> unpacked (packed 2 (nat port)) = nat port"
  by (simp add: unpacked_packed)

lemma unpacked_word4: "of_nat (unpacked (packed 4 (unat (w :: 32 word)))) = w"
  using unsigned_less [of w, where 'a = nat] by (simp add: unpacked_packed mod_less)

lemma unpacked_word16: "of_nat (unpacked (packed 16 (unat (w :: 128 word)))) = w"
  using unsigned_less [of w, where 'a = nat] by (simp add: unpacked_packed mod_less)

lemma chunk_here: "chunk (length p) (length p + length s) (p @ s @ t) = s"
  by (simp add: chunk_def)

lemma unmapped_idem [simp]: "unmapped (unmapped a) = unmapped a"
  by (cases a) (auto simp: unmapped_def)

lemma address_encoded:
  assumes "encoded_address a port = Inr s"
  shows "address env (length p) (p @ s @ t) = Inr (length p + length s, Addr (unmapped a), nat port)"
proof -
  have port: "unpacked (packed 2 (nat port)) = nat port" using assms by (auto simp: encoded_address_def unpacked_port split: if_split_asm)
  show ?thesis
  proof (cases "unmapped a")
    case (V4 w)
    with assms have s: "s = [CHR 0x01] @ packed 4 (unat w) @ packed 2 (nat port)" by (auto simp: encoded_address_def split: if_split_asm)
    have "chunk (length p + 1) (length p + 1 + 4) (p @ s @ t) = packed 4 (unat w)"
      "chunk (length p + 1 + 4) (length p + 1 + 4 + 2) (p @ s @ t) = packed 2 (nat port)"
      unfolding s using chunk_here [of "p @ [CHR 0x01]" "packed 4 (unat w)" "packed 2 (nat port) @ t"]
        chunk_here [of "p @ [CHR 0x01] @ packed 4 (unat w)" "packed 2 (nat port)" t] by (simp_all add: add.commute)
    then show ?thesis using V4 by (simp add: address_def need_def refuse_if_def nth_append s unpacked_word4 port)
  next
    case (V6 w)
    with assms have s: "s = [CHR 0x04] @ packed 16 (unat w) @ packed 2 (nat port)" by (auto simp: encoded_address_def split: if_split_asm)
    have "chunk (length p + 1) (length p + 1 + 16) (p @ s @ t) = packed 16 (unat w)"
      "chunk (length p + 1 + 16) (length p + 1 + 16 + 2) (p @ s @ t) = packed 2 (nat port)"
      unfolding s using chunk_here [of "p @ [CHR 0x04]" "packed 16 (unat w)" "packed 2 (nat port) @ t"]
        chunk_here [of "p @ [CHR 0x04] @ packed 16 (unat w)" "packed 2 (nat port)" t] by (simp_all add: add.commute)
    then show ?thesis using V6 unmapped_idem [of a] by (simp add: address_def need_def refuse_if_def nth_append s unpacked_word16 port)
  qed
qed

lemma encoded_first: "encoded_address a port = Inr s \<Longrightarrow> (hd s = CHR 0x01 \<or> hd s = CHR 0x04) \<and> s \<noteq> []"
  by (auto simp: encoded_address_def split: if_split_asm ipaddr.splits)

lemma encoded_port: "encoded_address a port = Inr s \<Longrightarrow> 0 \<le> port"
  by (auto simp: encoded_address_def split: if_split_asm)

lemma datagram_encoded:
  assumes "port \<noteq> 0" "encoded_datagram a port payload maximum = Inr d"
  shows "datagram env maximum d = Inr (Addr (unmapped a), nat port, payload)"
proof -
  from assms(2) obtain s where s: "encoded_address a port = Inr s" "d = replicate 3 (CHR 0x00) @ s @ payload" "length d \<le> maximum"
    by (auto simp: encoded_datagram_def Let_def bind_res_Inr split: if_split_asm)
  have "address env 3 d = Inr (3 + length s, Addr (unmapped a), nat port)"
    using address_encoded [OF s(1), of env "replicate 3 (CHR 0x00)" payload] s(2) by simp
  moreover have "3 < length d" using encoded_first [OF s(1)] s(2) by simp
  ultimately show ?thesis using s encoded_port [OF s(1)] assms(1) by (simp add: datagram_def)
qed


definition sample_names :: names where
  "sample_names = \<lparr>lowered = id, idna_encode = Some, idna_decode = Some\<rparr>"


section \<open>Frames\<close>

text \<open>
  The contract between the parsers of the handshake and the reader that feeds them byte by byte:
  a successful parse is decided by the first \<open>size v\<close> bytes, and every shorter prefix asks for more.
\<close>

locale wire_parser =
  fixes parser :: "string \<Rightarrow> werr + 'v" and frame_size :: "'v \<Rightarrow> nat"
  assumes within: "parser d = Inr v \<Longrightarrow> frame_size v \<le> length d"
    and decided: "parser d = Inr v \<Longrightarrow> take (frame_size v) d' = take (frame_size v) d \<Longrightarrow> frame_size v \<le> length d' \<Longrightarrow> parser d' = Inr v"
    and prefix_more: "parser d = Inr v \<Longrightarrow> k < frame_size v \<Longrightarrow> parser (take k d) = Inl NeedMore"
begin

lemma frame_from:
  assumes "parser (d @ stream) = Inr v" "length d \<le> frame_size v" "frame_size v \<le> MAX_HANDSHAKE" "frame_size v \<le> length d + deadline"
  shows "frame parser deadline d stream = Inr (v, drop (frame_size v - length d) stream)"
  using assms
proof (induction stream arbitrary: d deadline)
  case Nil
  then have "length d = frame_size v" using within [of d v] by simp
  with Nil show ?case by simp
next
  case (Cons c stream)
  show ?case
  proof (cases "length d = frame_size v")
    case True
    with Cons.prems(1) have "parser d = Inr v" by (auto intro: decided [of "d @ c # stream"])
    with True Cons.prems(3) show ?thesis by simp
  next
    case False
    with Cons.prems(2) have "length d < frame_size v" by simp
    with prefix_more [OF Cons.prems(1), of "length d"] have more: "parser d = Inl NeedMore" by simp
    have "frame parser (deadline - 1) (d @ [c]) stream = Inr (v, drop (frame_size v - length (d @ [c])) stream)"
      using Cons.prems \<open>length d < frame_size v\<close> by (intro Cons.IH) simp_all
    moreover have "0 < deadline" using Cons.prems(4) \<open>length d < frame_size v\<close> by simp
    moreover have "frame_size v - length d = Suc (frame_size v - length (d @ [c]))" using \<open>length d < frame_size v\<close> by simp
    ultimately show ?thesis using more Cons.prems(3) \<open>length d < frame_size v\<close> by simp
  qed
qed

lemma frame_complete:
  "parser stream = Inr v \<Longrightarrow> frame_size v \<le> MAX_HANDSHAKE \<Longrightarrow> frame_size v \<le> deadline \<Longrightarrow>
     frame parser deadline [] stream = Inr (v, drop (frame_size v) stream)"
  using frame_from [of "[]" stream v deadline] by simp

lemma frame_sound:
  assumes "frame parser deadline d stream = Inr (v, rest)"
  shows "\<exists>taken. stream = taken @ rest \<and> parser (d @ taken) = Inr v"
  using assms
proof (induction parser deadline d stream rule: frame.induct)
  case (2 parser deadline d c stream)
  then show ?case by (force split: if_split_asm sum.splits werr.splits)
qed (auto split: if_split_asm sum.splits werr.splits)

lemma now_exact:
  assumes "parser d = Inr v" "\<forall>k < length d. parser (take k d) = Inl NeedMore"
  shows "frame_size v = length d"
proof (rule ccontr)
  assume "frame_size v \<noteq> length d"
  with within [OF assms(1)] have k: "frame_size v < length d" by simp
  with decided [OF assms(1), of "take (frame_size v) d"] have "parser (take (frame_size v) d) = Inr v" by simp
  with assms(2) k show False by simp
qed

lemma frame_stops:
  assumes "frame parser deadline d stream = Inr (v, rest)" "\<forall>k < length d. parser (take k d) = Inl NeedMore"
  shows "\<exists>taken. stream = taken @ rest \<and> parser (d @ taken) = Inr v \<and> frame_size v = length (d @ taken)"
  using assms
proof (induction stream arbitrary: d deadline)
  case Nil
  then have "parser d = Inr v" "rest = []" by (auto split: if_split_asm sum.split_asm werr.split_asm)
  with now_exact Nil.prems(2) show ?case by simp
next
  case (Cons c stream)
  show ?case
  proof (cases "parser d")
    case (Inr w)
    with Cons.prems(1) have "w = v" "rest = c # stream" by (auto split: if_split_asm)
    with Inr now_exact Cons.prems(2) show ?thesis by simp
  next
    case (Inl w)
    with Cons.prems(1) have "w = NeedMore" "frame parser (deadline - 1) (d @ [c]) stream = Inr (v, rest)"
      by (auto split: if_split_asm werr.split_asm)
    moreover have "\<forall>k < length (d @ [c]). parser (take k (d @ [c])) = Inl NeedMore"
      using Cons.prems(2) Inl \<open>w = NeedMore\<close> by (auto simp: less_Suc_eq)
    ultimately obtain taken where "stream = taken @ rest" "parser ((d @ [c]) @ taken) = Inr v" "frame_size v = length ((d @ [c]) @ taken)"
      using Cons.IH by blast
    then have "c # stream = (c # taken) @ rest \<and> parser (d @ (c # taken)) = Inr v \<and> frame_size v = length (d @ (c # taken))" by simp
    then show ?thesis by blast
  qed
qed

end

lemma byte_take: "i < k \<Longrightarrow> byte (take k d) i = byte d i"
  by simp

lemma chunk_take: "b \<le> k \<Longrightarrow> chunk a b (take k d) = chunk a b d"
  by (simp add: chunk_def drop_take min_def)

lemma bytes_agree: "take n d' = take n d \<Longrightarrow> i < n \<Longrightarrow> d' ! i = d ! i"
  by (metis nth_take)

lemma chunk_agree: "take n d' = take n d \<Longrightarrow> b \<le> n \<Longrightarrow> chunk a b d' = chunk a b d"
  using chunk_take [of b n a d] chunk_take [of b n a d'] by simp

lemma need_cases: "need d n = (if length d < n then Inl NeedMore else Inr ())"
  by (simp add: need_def refuse_if_def)

interpretation greeting: wire_parser greeting fst
proof
  fix d v
  assume v: "greeting d = Inr v"
  then have d: "2 \<le> length d" "byte d 0 = 5" "byte d 1 \<noteq> 0" "2 + byte d 1 \<le> length d"
    "List.member (chunk 2 (2 + byte d 1) d) (CHR 0x02)" "v = (2 + byte d 1, [CHR 0x05, CHR 0x02])"
    by (auto simp: greeting_def need_cases bind_res_Inr split: if_split_asm)
  then show "fst v \<le> length d" by simp
  show "greeting d' = Inr v" if "take (fst v) d' = take (fst v) d" "fst v \<le> length d'" for d'
  proof -
    have "d' ! 0 = d ! 0" "d' ! 1 = d ! 1" "chunk 2 (2 + byte d 1) d' = chunk 2 (2 + byte d 1) d"
      using that d(3,6) by (auto intro: bytes_agree chunk_agree)
    with d that show ?thesis by (simp add: greeting_def need_cases refuse_if_def)
  qed
  show "greeting (take k d) = Inl NeedMore" if "k < fst v" for k
  proof (cases "k < 2")
    case False
    with d that show ?thesis by (simp add: greeting_def need_cases refuse_if_def byte_take)
  qed (use d in \<open>simp add: greeting_def need_cases\<close>)
qed

lemma address_cases:
  assumes "address env off d = Inr v"
  obtains (v4) "byte d off = 1" "off + 1 + 4 + 2 \<le> length d"
      "v = (off + 1 + 4 + 2, Addr (V4 (of_nat (unpacked (chunk (off + 1) (off + 1 + 4) d)))), unpacked (chunk (off + 1 + 4) (off + 1 + 4 + 2) d))"
  | (v6) "byte d off = 4" "off + 1 + 16 + 2 \<le> length d"
      "v = (off + 1 + 16 + 2, Addr (unmapped (V6 (of_nat (unpacked (chunk (off + 1) (off + 1 + 16) d))))), unpacked (chunk (off + 1 + 16) (off + 1 + 16 + 2) d))"
  | (named) h n where "byte d off = 3" "byte d (off + 1) = n" "n \<noteq> 0" "off + 1 + 1 + n + 2 \<le> length d"
      "named_host env (chunk (off + 1 + 1) (off + 1 + 1 + n) d) = Inr h"
      "v = (off + 1 + 1 + n + 2, h, unpacked (chunk (off + 1 + 1 + n) (off + 1 + 1 + n + 2) d))"
proof -
  from assms have "off + 1 \<le> length d" by (auto simp: address_def need_cases split: if_split_asm)
  consider "byte d off = 1" | "byte d off = 4" | "byte d off = 3" | "byte d off \<notin> {1, 3, 4}" by blast
  then show ?thesis
  proof cases
    case 1
    with assms show ?thesis by (intro v4) (auto simp: address_def need_cases Let_def split: if_split_asm)
  next
    case 2
    with assms show ?thesis by (intro v6) (auto simp: address_def need_cases Let_def split: if_split_asm)
  next
    case 3
    with assms obtain h where "byte d (off + 1) \<noteq> 0" "off + 1 + 1 + byte d (off + 1) + 2 \<le> length d"
      "named_host env (chunk (off + 1 + 1) (off + 1 + 1 + byte d (off + 1)) d) = Inr h"
      "v = (off + 1 + 1 + byte d (off + 1) + 2, h, unpacked (chunk (off + 1 + 1 + byte d (off + 1)) (off + 1 + 1 + byte d (off + 1) + 2) d))"
      by (auto simp: address_def need_cases Let_def bind_res_Inr split: if_split_asm)
    with 3 show ?thesis by (intro named [OF _ refl])
  next
    case 4
    with assms show ?thesis by (auto simp: address_def need_cases Let_def split: if_split_asm)
  qed
qed

lemma address_again:
  "off + 1 + 4 + 2 \<le> length d \<Longrightarrow> byte d off = 1 \<Longrightarrow>
     address env off d = Inr (off + 1 + 4 + 2, Addr (V4 (of_nat (unpacked (chunk (off + 1) (off + 1 + 4) d)))), unpacked (chunk (off + 1 + 4) (off + 1 + 4 + 2) d))"
  "off + 1 + 16 + 2 \<le> length d \<Longrightarrow> byte d off = 4 \<Longrightarrow>
     address env off d = Inr (off + 1 + 16 + 2, Addr (unmapped (V6 (of_nat (unpacked (chunk (off + 1) (off + 1 + 16) d))))), unpacked (chunk (off + 1 + 16) (off + 1 + 16 + 2) d))"
  "off + 1 + 1 + n + 2 \<le> length d \<Longrightarrow> byte d off = 3 \<Longrightarrow> byte d (off + 1) = n \<Longrightarrow> n \<noteq> 0 \<Longrightarrow> named_host env (chunk (off + 1 + 1) (off + 1 + 1 + n) d) = Inr h \<Longrightarrow>
     address env off d = Inr (off + 1 + 1 + n + 2, h, unpacked (chunk (off + 1 + 1 + n) (off + 1 + 1 + n + 2) d))"
  by (simp_all add: address_def need_cases refuse_if_def Let_def)

lemma address_within: "address env off d = Inr v \<Longrightarrow> off < fst v \<and> fst v \<le> length d"
  by (erule address_cases) auto

lemma address_decided:
  assumes "address env off d = Inr v" "take (fst v) d' = take (fst v) d" "fst v \<le> length d'"
  shows "address env off d' = Inr v"
  using assms(1)
proof (cases rule: address_cases)
  case v4
  with assms(2,3) bytes_agree [OF assms(2), of off] chunk_agree [OF assms(2)] show ?thesis by (simp add: address_again(1))
next
  case v6
  with assms(2,3) bytes_agree [OF assms(2), of off] chunk_agree [OF assms(2)] show ?thesis by (simp add: address_again(2))
next
  case (named h n)
  then have "d' ! off = d ! off" "d' ! (off + 1) = d ! (off + 1)" "chunk (off + 1 + 1) (off + 1 + 1 + n) d' = chunk (off + 1 + 1) (off + 1 + 1 + n) d"
    "chunk (off + 1 + 1 + n) (off + 1 + 1 + n + 2) d' = chunk (off + 1 + 1 + n) (off + 1 + 1 + n + 2) d"
    using assms(2) by (auto intro!: bytes_agree [OF assms(2)] chunk_agree [OF assms(2)])
  with named assms(3) show ?thesis using address_again(3) [of off n d' env h] by (simp del: One_nat_def)
qed

lemma address_prefix_more:
  assumes "address env off d = Inr v" "k < fst v"
  shows "address env off (take k d) = Inl NeedMore"
proof (cases "k < off + 1")
  case True
  then show ?thesis using address_within [OF assms(1)] by (simp add: address_def need_cases)
next
  case False
  from assms(1) show ?thesis
  proof (cases rule: address_cases)
    case v4
    with False assms(2) show ?thesis by (simp add: address_def need_cases)
  next
    case v6
    with False assms(2) show ?thesis by (simp add: address_def need_cases)
  next
    case (named h n)
    with False assms(2) show ?thesis by (cases "k < off + 2") (simp_all add: address_def need_cases refuse_if_def Let_def)
  qed
qed

interpretation socks_request: wire_parser "request env" fst
proof
  fix d v
  assume v: "request env d = Inr v"
  then obtain stop h port where d: "4 \<le> length d" "byte d 0 = 5" "byte d 2 = 0" "byte d 1 = 1 \<or> byte d 1 = 3"
    "address env 3 d = Inr (stop, h, port)" "\<not> (byte d 1 = 1 \<and> port = 0)" "v = (stop, byte d 1, h, port)"
    by (auto simp: request_def need_cases bind_res_Inr split: if_split_asm)
  from address_within [OF d(5)] d(7) show "fst v \<le> length d" by simp
  show "request env d' = Inr v" if t: "take (fst v) d' = take (fst v) d" "fst v \<le> length d'" for d'
  proof -
    have "d' ! 0 = d ! 0" "d' ! 1 = d ! 1" "d' ! 2 = d ! 2"
      using address_within [OF d(5)] d(7) by (auto intro!: bytes_agree [OF t(1)])
    moreover have "address env 3 d' = Inr (stop, h, port)" using t d(7) by (intro address_decided [OF d(5)]) simp_all
    ultimately show ?thesis using d t address_within [OF d(5)] by (simp add: request_def need_cases refuse_if_def)
  qed
  show "request env (take k d) = Inl NeedMore" if "k < fst v" for k
  proof (cases "k < 4")
    case False
    have "address env 3 (take k d) = Inl NeedMore" using that d(7) by (intro address_prefix_more [OF d(5)]) simp
    with False d show ?thesis by (simp add: request_def need_cases refuse_if_def)
  qed (simp add: request_def need_cases min_less_iff_disj)
qed

interpretation socks_reply: wire_parser "upstream_reply env" fst
proof
  fix d v
  assume v: "upstream_reply env d = Inr v"
  then have d: "4 \<le> length d" "byte d 0 = 5" "byte d 1 = 0" "byte d 2 = 0" "byte d 3 = 1 \<or> byte d 3 = 4" "address env 3 d = Inr v"
    by (auto simp: upstream_reply_def need_cases bind_res_Inr split: if_split_asm)
  from address_within [OF d(6)] show "fst v \<le> length d" by simp
  show "upstream_reply env d' = Inr v" if t: "take (fst v) d' = take (fst v) d" "fst v \<le> length d'" for d'
  proof -
    have "d' ! 0 = d ! 0" "d' ! 1 = d ! 1" "d' ! 2 = d ! 2" "d' ! 3 = d ! 3"
      using address_within [OF d(6)] by (auto intro!: bytes_agree [OF t(1)])
    with d t address_decided [OF d(6) t] address_within [OF d(6)] show ?thesis
      by (simp add: upstream_reply_def need_cases refuse_if_def)
  qed
  show "upstream_reply env (take k d) = Inl NeedMore" if "k < fst v" for k
    using d address_prefix_more [OF d(6) that] by (cases "k < 4") (auto simp: upstream_reply_def need_cases refuse_if_def)
qed

lemma authentication_accepts:
  assumes "upstream_auth u s = Inr f"
  shows "authentication u s (f @ rest) = Inr (length f, [CHR 0x01, CHR 0x00])"
proof -
  from assms have f: "f = [CHR 0x01, char_of (length u)] @ u @ [char_of (length s)] @ s" and u: "1 \<le> length u" "length u \<le> 255" "1 \<le> length s" "length s \<le> 255"
    by (auto simp: upstream_auth_def split: if_split_asm)
  have b: "byte (f @ rest) 1 = length u" "byte (f @ rest) (2 + length u) = length s" "byte (f @ rest) 0 = 1"
    using u by (simp_all add: f nth_append)
  have "chunk 2 (2 + length u) (f @ rest) = u" "chunk (2 + length u + 1) (2 + length u + 1 + length s) (f @ rest) = s"
    by (simp_all add: f chunk_def)
  moreover have "length f = 2 + length u + 1 + length s" by (simp add: f)
  moreover have "u \<noteq> []" "s \<noteq> []" using u by auto
  ultimately show ?thesis unfolding authentication_def Let_def b need_cases refuse_if_def by simp
qed

lemma authentication_requires:
  assumes "authentication u s d = Inr v"
  shows "\<exists>f rest. upstream_auth u s = Inr f \<and> d = f @ rest \<and> v = (length f, [CHR 0x01, CHR 0x00])"
proof -
  define n where "n = byte d 1"
  define m where "m = byte d (2 + n)"
  from assms have c: "2 + n + 1 + m \<le> length d" "byte d 0 = 1" "n \<noteq> 0" "m \<noteq> 0" "chunk 2 (2 + n) d = u" "chunk (2 + n + 1) (2 + n + 1 + m) d = s"
    "v = (2 + n + 1 + m, [CHR 0x01, CHR 0x00])"
    by (auto simp: authentication_def need_cases Let_def bind_res_Inr n_def m_def split: if_split_asm)
  have len: "length u = n" "length s = m" using c(1,5,6) by (auto simp: chunk_def)
  have small: "n < 256" "m < 256" by (simp_all add: n_def m_def)
  have "take (2 + n + 1 + m) d = [d ! 0, d ! 1] @ u @ [d ! (2 + n)] @ s"
  proof -
    have "take (2 + n + 1 + m) d = take 2 d @ chunk 2 (2 + n) d @ take 1 (drop (2 + n) d) @ chunk (2 + n + 1) (2 + n + 1 + m) d"
      by (simp only: take_add chunk_def append_assoc add_diff_cancel_left')
    moreover have "take 2 d = [d ! 0, d ! 1]" using c(1) by (intro nth_equalityI) (auto simp: less_Suc_eq numeral_2_eq_2)
    moreover have "take 1 (drop (2 + n) d) = [d ! (2 + n)]" using c(1) by (simp add: take_Suc hd_drop_conv_nth)
    ultimately show ?thesis using c(5,6) by simp
  qed
  moreover have "d ! 0 = CHR 0x01" using c(2) by (intro of_char_eq_iff [where 'a = nat, THEN iffD1]) simp
  moreover have "d ! 1 = char_of n" "d ! (2 + n) = char_of m" by (simp_all add: n_def m_def)
  ultimately have f: "upstream_auth u s = Inr (take (2 + n + 1 + m) d)" using c(3,4) len small by (simp add: upstream_auth_def)
  show ?thesis
    using f c(1,7) by (intro exI [of _ "take (2 + n + 1 + m) d"] exI [of _ "drop (2 + n + 1 + m) d"]) simp
qed

text \<open>
  C33: Authentication accepts exactly the credentials. The parser of a client's authentication
  accepts a byte string if and only if it starts with the frame that the other side of the codec
  builds for the same user name and password, and it consumes that frame and nothing else.
\<close>

theorem authentication_exact:
  "authentication u s d = Inr v \<longleftrightarrow>
     (\<exists>f rest. upstream_auth u s = Inr f \<and> d = f @ rest \<and> v = (length f, [CHR 0x01, CHR 0x00]))"
  using authentication_accepts authentication_requires by blast

interpretation socks_authentication: wire_parser "authentication u s" fst
proof
  fix d v
  assume "authentication u s d = Inr v"
  from authentication_requires [OF this] obtain f rest where f: "upstream_auth u s = Inr f" "d = f @ rest" "v = (length f, [CHR 0x01, CHR 0x00])" by blast
  then show "fst v \<le> length d" by simp
  show "authentication u s d' = Inr v" if "take (fst v) d' = take (fst v) d" "fst v \<le> length d'" for d'
  proof -
    have "d' = f @ drop (length f) d'" using that f by (metis append_take_drop_id append_eq_conv_conj fst_conv)
    with authentication_accepts [OF f(1), of "drop (length f) d'"] f(3) show ?thesis by simp
  qed
  show "authentication u s (take k d) = Inl NeedMore" if "k < fst v" for k
  proof -
    have e: "f = [CHR 0x01, char_of (length u)] @ u @ [char_of (length s)] @ s" and u: "1 \<le> length u" "length u \<le> 255" "1 \<le> length s" "length s \<le> 255"
      using f(1) by (auto simp: upstream_auth_def split: if_split_asm)
    have k: "k < 2 + length u + 1 + length s" using that f(3) e by simp
    have b: "1 < k \<Longrightarrow> byte (take k d) 1 = length u" "2 + length u < k \<Longrightarrow> byte (take k d) (2 + length u) = length s" "0 < k \<Longrightarrow> byte (take k d) 0 = 1"
      using u by (simp_all add: f(2) e nth_append)
    have l: "length (take k d) = k" using that f by simp
    have ne: "u \<noteq> []" "s \<noteq> []" using u by auto
    consider "k < 2" | "2 \<le> k" "k < 2 + length u + 1" | "2 + length u + 1 \<le> k" by linarith
    then show ?thesis
    proof cases
      case 1
      then show ?thesis unfolding authentication_def need_cases l by simp
    next
      case 2
      then show ?thesis unfolding authentication_def need_cases l using b(1,3) ne by (simp add: refuse_if_def Let_def del: length_take nth_take One_nat_def)
    next
      case 3
      then show ?thesis unfolding authentication_def need_cases l using b ne k by (simp add: refuse_if_def Let_def del: length_take nth_take One_nat_def)
    qed
  qed
qed

text \<open>
  C34: Reading a handshake byte by byte equals parsing it at once. Whenever a stream starts with a
  complete greeting, authentication, request or reply that fits the handshake limit and arrives in
  time, the reader returns what the parser returns for the whole stream, and leaves every byte
  after the frame unread for the relay.
\<close>

theorem frame_exact:
  "(greeting stream = Inr g \<longrightarrow> fst g \<le> MAX_HANDSHAKE \<longrightarrow> fst g \<le> deadline \<longrightarrow>
       frame greeting deadline [] stream = Inr (g, drop (fst g) stream))
   \<and> (authentication u s stream = Inr a \<longrightarrow> fst a \<le> MAX_HANDSHAKE \<longrightarrow> fst a \<le> deadline \<longrightarrow>
       frame (authentication u s) deadline [] stream = Inr (a, drop (fst a) stream))
   \<and> (request env stream = Inr r \<longrightarrow> fst r \<le> MAX_HANDSHAKE \<longrightarrow> fst r \<le> deadline \<longrightarrow>
       frame (request env) deadline [] stream = Inr (r, drop (fst r) stream))
   \<and> (upstream_reply env stream = Inr y \<longrightarrow> fst y \<le> MAX_HANDSHAKE \<longrightarrow> fst y \<le> deadline \<longrightarrow>
       frame (upstream_reply env) deadline [] stream = Inr (y, drop (fst y) stream))"
  by (intro conjI impI) (rule greeting.frame_complete socks_authentication.frame_complete socks_request.frame_complete socks_reply.frame_complete; assumption)+

theorem frame_exact_witness:
  "frame (upstream_reply sample_names) 100 [] ([CHR 0x05, CHR 0x00, CHR 0x00, CHR 0x01] @ packed 4 (unat (v4 1 1 1 1)) @ packed 2 53 @ ''data'')
     = Inr ((10, Addr (V4 (v4 1 1 1 1)), 53), ''data'')"
proof -
  let ?f = "[CHR 0x05, CHR 0x00, CHR 0x00, CHR 0x01] @ packed 4 (unat (v4 1 1 1 1)) @ packed 2 53"
  have "encoded_address (V4 (v4 1 1 1 1)) 53 = Inr ([CHR 0x01] @ packed 4 (unat (v4 1 1 1 1)) @ packed 2 53)"
    by (simp add: encoded_address_def unmapped_def)
  from address_encoded [OF this, of sample_names "[CHR 0x05, CHR 0x00, CHR 0x00]" "''data''"]
  have "address sample_names 3 (?f @ ''data'') = Inr (10, Addr (V4 (v4 1 1 1 1)), 53)" by (simp add: unmapped_def numeral_3_eq_3)
  then have "upstream_reply sample_names (?f @ ''data'') = Inr (10, Addr (V4 (v4 1 1 1 1)), 53)"
    by (simp add: upstream_reply_def need_cases refuse_if_def)
  from frame_exact [THEN conjunct2, THEN conjunct2, THEN conjunct2, rule_format, OF this, of 100] show ?thesis by (simp add: MAX_HANDSHAKE_def)
qed

section \<open>Admitted destinations\<close>

lemma unat_drop: "unat (drop_bit k (x :: 'a::len word)) = unat x div 2 ^ k"
  by (metis unat_drop_bit_eq drop_bit_eq_div)

lemma in_network_range:
  fixes a n :: "'a::len word"
  assumes "unat n mod 2 ^ (LENGTH('a) - l) = 0"
  shows "in_network a (n, l) \<longleftrightarrow> unat n \<le> unat a \<and> unat a < unat n + 2 ^ (LENGTH('a) - l)"
proof -
  let ?k = "2 ^ (LENGTH('a) - l) :: nat"
  from assms have n: "unat n = unat n div ?k * ?k" by (metis add.right_neutral div_mult_mod_eq)
  have "in_network a (n, l) \<longleftrightarrow> unat a div ?k = unat n div ?k"
    unfolding in_network_def by (metis fst_conv snd_conv unsigned_word_eqI unat_drop)
  also have "\<dots> \<longleftrightarrow> unat n div ?k * ?k \<le> unat a \<and> unat a < unat n div ?k * ?k + ?k"
    by (metis add.commute div_nat_eqI div_times_less_eq_dividend dividend_less_div_times mult.commute mult_Suc_right pos2 zero_less_power)
  finally show ?thesis using n by simp
qed

text \<open>The denied ranges, from the first address to the one after the last, independently of the prefixes.\<close>

definition quad :: "nat \<Rightarrow> nat \<Rightarrow> nat \<Rightarrow> nat \<Rightarrow> nat" where
  "quad a b c d = ((a * 256 + b) * 256 + c) * 256 + d"

definition private_v4 :: "nat \<Rightarrow> bool" where
  "private_v4 n \<longleftrightarrow> list_ex (\<lambda>(lo, hi). lo \<le> n \<and> n < hi) [(quad 0 0 0 0, quad 1 0 0 0), (quad 10 0 0 0, quad 11 0 0 0),
     (quad 100 64 0 0, quad 100 128 0 0), (quad 127 0 0 0, quad 128 0 0 0), (quad 169 254 0 0, quad 169 255 0 0),
     (quad 172 16 0 0, quad 172 32 0 0), (quad 192 168 0 0, quad 192 169 0 0), (quad 198 18 0 0, quad 198 20 0 0),
     (quad 224 0 0 0, quad 240 0 0 0), (quad 240 0 0 0, quad 256 0 0 0)]"

definition private_v6 :: "nat \<Rightarrow> bool" where
  "private_v6 n \<longleftrightarrow> list_ex (\<lambda>(lo, hi). lo \<le> n \<and> n < hi) [(0, 1), (1, 2), (0x64FF9B * 2 ^ 96, 0x64FF9B * 2 ^ 96 + 2 ^ 32),
     (0x2002 * 2 ^ 112, 0x2003 * 2 ^ 112), (0xFC00 * 2 ^ 112, 0xFE00 * 2 ^ 112), (0xFE80 * 2 ^ 112, 0xFEC0 * 2 ^ 112),
     (0xFF00 * 2 ^ 112, 0x10000 * 2 ^ 112)]"

lemma denied_v4: "denied (V4 w) \<longleftrightarrow> private_v4 (unat w)"
  by (simp add: denied_def IPV4_DENY_def v4_def in_network_range private_v4_def quad_def)

lemma replicate_groups: "replicate 6 x = [x, x, x, x, x, x]" "replicate 7 x = [x, x, x, x, x, x, x]"
  by (simp_all add: numeral_eq_Suc)

lemma v6_values:
  "v6 [a] = of_nat (a * 2 ^ 112)" "v6 [a, b] = of_nat ((a * 65536 + b) * 2 ^ 96)"
  by (simp_all add: v6_def replicate_groups)

lemma below_two: "n < Suc (Suc 0) \<longleftrightarrow> n < 2"
  by arith

lemma denied_v6: "denied (V6 w) \<longleftrightarrow> private_v6 (unat w)"
  by (simp add: denied_def IPV6_DENY_def v6_values in_network_range private_v6_def below_two)

definition private_address :: "ipaddr \<Rightarrow> bool" where
  "private_address a = (case a of V4 w \<Rightarrow> private_v4 (unat w) | V6 w \<Rightarrow> private_v6 (unat w))"

lemma denied_private: "denied a \<longleftrightarrow> private_address a"
  by (cases a) (simp_all add: private_address_def denied_v4 denied_v6)

lemma set_zip_longest [simp]: "set (zip_longest xs ys) = set xs \<union> set ys"
  by (induction xs ys rule: zip_longest.induct) auto

lemma length_zip_longest [simp]: "length (zip_longest xs ys) = length xs + length ys"
  by (induction xs ys rule: zip_longest.induct) auto

lemma distinct_zip_longest:
  "distinct xs \<Longrightarrow> distinct ys \<Longrightarrow> set xs \<inter> set ys = {} \<Longrightarrow> distinct (zip_longest xs ys)"
  by (induction xs ys rule: zip_longest.induct) auto

lemma zip_longest_filter:
  assumes "list_all P xs" "list_all (\<lambda>y. \<not> P y) ys"
  shows "filter P (zip_longest xs ys) = xs"
  using assms by (induction xs ys rule: zip_longest.induct) (auto simp: list_all_iff filter_empty_conv)

lemma zip_longest_second: "ys \<noteq> [] \<Longrightarrow> hd ys \<in> set (take 2 (zip_longest xs ys))"
  by (cases xs; cases ys) auto

lemma version_cases: "version a = 4 \<or> version a = 6"
  by (cases a) (simp_all add: version_def)

text \<open>
  C16: Admission of a resolver's answers. The candidates for a destination are exactly the addresses
  the resolver returned, with mapped addresses written as the address they embed, that the policy allows:
  each occurs once, none lies in a private, loopback, link-local, multicast, reserved, NAT64 or 6to4 range,
  and none is an address of the host itself with a management port. When the answer contains an
  admitted IPv6 address, one is among the first two candidates. An answer without an admitted
  address is refused.
\<close>

theorem candidates_exact:
  "case admitted_candidates p addresses port n of
     Inl e \<Rightarrow> e = PolicyError ''destination-denied'' \<and> (\<forall>a \<in> set addresses. \<not> allows p a port n)
   | Inr cs \<Rightarrow> set cs = unmapped ` {a \<in> set addresses. allows p a port n} \<and> cs \<noteq> [] \<and> distinct cs
       \<and> (\<forall>a \<in> set cs. \<not> private_address a \<and> \<not> (a \<in> set (owned p) \<and> port \<in> set (management p n)))
       \<and> ((\<exists>a \<in> set cs. version a = 6) \<longrightarrow> (\<exists>a \<in> set (take 2 cs). version a = 6))"
proof -
  define candidates where "candidates = filter (\<lambda>a. allows p a port n) (remdups (map unmapped addresses))"
  define ordered where "ordered v = sort_key value_of (filter (\<lambda>a. version a = v) candidates)" for v
  have allow: "allows p (unmapped a) port n = allows p a port n" for a by (simp add: allows_def)
  then have cand: "set candidates = unmapped ` {a \<in> set addresses. allows p a port n}" "distinct candidates"
    by (auto simp: candidates_def)
  have ord: "set (ordered v) = {a \<in> set candidates. version a = v}" "distinct (ordered v)" for v
    using cand(2) by (simp_all add: ordered_def)
  have all: "set (zip_longest (ordered 4) (ordered 6)) = set candidates" using version_cases by (auto simp: ord)
  have six: "\<exists>a \<in> set (take 2 (zip_longest (ordered 4) (ordered 6))). version a = 6" if "\<exists>a \<in> set candidates. version a = 6"
  proof -
    have "ordered 6 \<noteq> []" using that ord(1) [of 6] by fastforce
    then show ?thesis using zip_longest_second [of "ordered 6" "ordered 4"] ord(1) [of 6] hd_in_set by blast
  qed
  have "distinct (zip_longest (ordered 4) (ordered 6))" by (rule distinct_zip_longest) (auto simp: ord)
  moreover have "\<not> private_address a \<and> \<not> (a \<in> set (owned p) \<and> port \<in> set (management p n))" if "a \<in> set candidates" for a
  proof -
    from that cand(1) obtain b where "allows p b port n" "a = unmapped b" by auto
    then show ?thesis by (auto simp: allows_def denied_private Let_def split: if_split_asm)
  qed
  moreover have "zip_longest (ordered 4) (ordered 6) \<noteq> []" if "candidates \<noteq> []"
    using that all by (metis set_empty)
  ultimately have ok: "Q" if "candidates \<noteq> []" "Q = (let cs = zip_longest (ordered 4) (ordered 6) in set cs = unmapped ` {a \<in> set addresses. allows p a port n} \<and> cs \<noteq> [] \<and> distinct cs
       \<and> (\<forall>a \<in> set cs. \<not> private_address a \<and> \<not> (a \<in> set (owned p) \<and> port \<in> set (management p n)))
       \<and> ((\<exists>a \<in> set cs. version a = 6) \<longrightarrow> (\<exists>a \<in> set (take 2 cs). version a = 6)))" for Q
    using six that unfolding Let_def all cand(1) [symmetric] by blast
  have run: "admitted_candidates p addresses port n =
      (if candidates = [] then Inl (PolicyError ''destination-denied'') else Inr (zip_longest (ordered 4) (ordered 6)))"
    unfolding admitted_candidates_def candidates_def ordered_def Let_def ..
  show ?thesis
  proof (cases "candidates = []")
    case True
    then show ?thesis using cand(1) by (auto simp: run)
  next
    case False
    then have e: "admitted_candidates p addresses port n = Inr (zip_longest (ordered 4) (ordered 6))" by (simp add: run)
    show ?thesis unfolding e sum.case using ok [OF False refl] unfolding Let_def .
  qed
qed
definition sample_policy :: dpolicy where
  "sample_policy = \<lparr>owned = [V4 (v4 8 8 4 4)], management_tcp = [22], management_udp = []\<rparr>"

lemma sample_decisions:
  "allows sample_policy (V4 (v4 8 8 8 8)) 22 Tcp" "\<not> allows sample_policy (V4 (v4 10 0 0 1)) 22 Tcp"
  "\<not> allows sample_policy (V4 (v4 8 8 4 4)) 22 Tcp"
  by (simp_all add: allows_def sample_policy_def management_def unmapped_def denied_private private_address_def private_v4_def quad_def v4_def)

theorem candidates_exact_witness:
  "\<exists>cs. admitted_candidates sample_policy [V4 (v4 8 8 8 8), V4 (v4 10 0 0 1), V4 (v4 8 8 4 4)] 22 Tcp = Inr cs
     \<and> set cs = {V4 (v4 8 8 8 8)} \<and> distinct cs \<and> (\<forall>a \<in> set cs. \<not> private_address a)"
proof -
  let ?as = "[V4 (v4 8 8 8 8), V4 (v4 10 0 0 1), V4 (v4 8 8 4 4)]"
  have "{a \<in> set ?as. allows sample_policy a 22 Tcp} = {V4 (v4 8 8 8 8)}" using sample_decisions by auto
  then show ?thesis
    using candidates_exact [where p = sample_policy and addresses = ?as and port = 22 and n = Tcp] sample_decisions(1) by (auto simp: unmapped_def split: sum.splits)
qed

end
