(* ===== verification/EgressNormalizer.thy ===== *)
theory EgressNormalizer
  imports Json TransportSocks
begin

text \<open>
  The egress normalizer of the recipient transports (\<^verbatim>\<open>scripts/transport_egress_normalizer.py\<close>): a SOCKS
  front end that resolves and admits destinations and passes them on, as literal addresses, to fixed gateways.

  A loop over sockets is a function for one pass, whose argument holds what the kernel answers in that pass
  (readiness, bytes, errors, the clock); a run is a list of passes. Times are rationals in seconds.
\<close>

section \<open>Configuration\<close>

datatype nerr = NormalizerError string | Raised pyexc

definition MAX_CONFIG :: nat where
  "MAX_CONFIG = 131072"

definition LISTENERS :: "(string \<times> string) list" where
  "LISTENERS = [(''direct_xray'', ''direct''), (''direct_hysteria'', ''direct''), (''warp_xray'', ''warp'')]"

definition LOCAL_DNS_FORWARDER :: string where
  "LOCAL_DNS_FORWARDER = ''127.0.0.2''"

definition keys :: "pv \<Rightarrow> string list \<Rightarrow> nerr + dict" where
  "keys v expected = (if is_dict v \<and> keys_are (dict_of v) expected then Inr (dict_of v) else Inl (NormalizerError ''invalid-config-shape''))"

definition integer :: "pv \<Rightarrow> int \<Rightarrow> int \<Rightarrow> nerr + int" where
  "integer v low high = (if type_is_int v \<and> low \<le> int_of v \<and> int_of v \<le> high then Inr (int_of v) else Inl (NormalizerError ''invalid-config-number''))"

definition identity :: "pv \<Rightarrow> nerr + int" where
  "identity v = integer v 1 (2 ^ 32 - 2)"

definition credential :: "bool \<Rightarrow> pv \<Rightarrow> nerr + string" where
  "credential password v =
     (if is_str v \<and> (if password then 32 else 1) \<le> ulen (str_of v) \<and> ulen (str_of v) \<le> (if password then 128 else 63)
         \<and> is_ascii (str_of v) \<and> list_all (\<lambda>c. 32 \<le> ord_of c \<and> ord_of c \<le> 126) (str_of v)
      then Inr (str_of v) else Inl (NormalizerError ''invalid-config-credential''))"

definition normalize_value :: "pv \<Rightarrow> perr + ipaddr" where
  \<comment> \<open>\<open>normalize_address\<close> on a value of any type\<close>
  "normalize_value v = (if is_str v then normalize_address (str_of v) else Inl (PolicyError ''invalid-address''))"

text \<open>The properties of an IPv4 address the backends are checked for, after the registries of the library.\<close>

definition is_loopback :: "32 word \<Rightarrow> bool" where
  "is_loopback w = in_network w (v4 127 0 0 0, 8)"

definition is_private :: "32 word \<Rightarrow> bool" where
  "is_private w \<longleftrightarrow> list_ex (in_network w) [(v4 0 0 0 0, 8), (v4 10 0 0 0, 8), (v4 127 0 0 0, 8), (v4 169 254 0 0, 16),
       (v4 172 16 0 0, 12), (v4 192 0 0 0, 24), (v4 192 0 0 170, 31), (v4 192 0 2 0, 24), (v4 192 168 0 0, 16), (v4 198 18 0 0, 15),
       (v4 198 51 100 0, 24), (v4 203 0 113 0, 24), (v4 240 0 0 0, 4), (v4 255 255 255 255, 32)]
     \<and> \<not> List.member [v4 192 0 0 9, v4 192 0 0 10] w"

definition backend_address :: "string \<Rightarrow> pv \<Rightarrow> bool" where
  "backend_address name v = (case normalize_value v of
     Inr (V4 w) \<Rightarrow> str_address (V4 w) = str_of v \<and> \<not> (name = ''direct'' \<and> str_of v \<noteq> ''127.0.0.55'')
       \<and> \<not> (name = ''warp'' \<and> (is_loopback w \<or> \<not> is_private w \<or> w = 0))
   | _ \<Rightarrow> False)"

text \<open>What the two loops collect of a backend or a listener: its endpoint, its password and its port pool.\<close>

record row =
  endpoint :: "string \<times> int"
  secret :: string
  pool :: "pv \<times> pv"

definition check_backend :: "string \<times> pv \<Rightarrow> nerr + row" where
  "check_backend nb = (case nb of (name, backend) \<Rightarrow>
     bind_res (keys backend [''address'', ''port'', ''username'', ''password'', ''udp_source_port_min'', ''udp_source_port_max'']) (\<lambda>b.
     bind_res (refuse_if (\<not> backend_address name (item b ''address'')) (NormalizerError ''invalid-backend-address'')) (\<lambda>_.
     bind_res (integer (item b ''port'') 1 65535) (\<lambda>port.
     bind_res (credential False (item b ''username'')) (\<lambda>_.
     bind_res (credential True (item b ''password'')) (\<lambda>password.
     Inr \<lparr>endpoint = (str_of (item b ''address''), port), secret = password,
          pool = (item b ''udp_source_port_min'', item b ''udp_source_port_max'')\<rparr>))))))"

definition check_identity :: "pv option \<Rightarrow> dict \<Rightarrow> nerr + unit" where
  \<comment> \<open>skipped in input mode, where the runtime identity is \<open>None\<close>\<close>
  "check_identity runtime l = (case runtime of None \<Rightarrow> Inr () | Some uid \<Rightarrow>
     bind_res (identity (item l ''frontend_uid'')) (\<lambda>frontend.
     refuse_if (eq_int uid frontend) (NormalizerError ''identity-not-separated'')))"

definition check_listener :: "pv option \<Rightarrow> string list \<Rightarrow> (string \<times> int) list \<Rightarrow> pv \<Rightarrow> nerr + string \<times> row" where
  "check_listener runtime names endpoints listener =
     bind_res (keys listener ([''name'', ''address'', ''port'', ''username'', ''password'', ''backend'', ''udp_port_min'', ''udp_port_max'']
       @ (if runtime = None then [] else [''frontend_uid'']))) (\<lambda>l.
     let name = item l ''name'' in
     bind_res (refuse_if (\<not> is_str name \<or> \<not> List.member (map fst LISTENERS) (str_of name) \<or> List.member names (str_of name)
         \<or> map_option PStr (map_of LISTENERS (str_of name)) \<noteq> Some (item l ''backend'')) (NormalizerError ''invalid-listener-contract'')) (\<lambda>_.
     bind_res (refuse_if (item l ''address'' \<noteq> PStr ''127.0.0.1'') (NormalizerError ''invalid-listener-address'')) (\<lambda>_.
     bind_res (integer (item l ''port'') 1 65535) (\<lambda>port.
     bind_res (refuse_if (List.member endpoints (''127.0.0.1'', port)) (NormalizerError ''duplicate-endpoint'')) (\<lambda>_.
     bind_res (check_identity runtime l) (\<lambda>_.
     bind_res (credential False (item l ''username'')) (\<lambda>_.
     bind_res (credential True (item l ''password'')) (\<lambda>password.
     Inr (str_of name, \<lparr>endpoint = (''127.0.0.1'', port), secret = password, pool = (item l ''udp_port_min'', item l ''udp_port_max'')\<rparr>)))))))))"

fun check_listeners :: "pv option \<Rightarrow> string list \<Rightarrow> (string \<times> int) list \<Rightarrow> pv list \<Rightarrow> nerr + (string \<times> row) list" where
  "check_listeners runtime names endpoints [] = Inr []"
| "check_listeners runtime names endpoints (l # ls) =
     bind_res (check_listener runtime names endpoints l) (\<lambda>(name, r).
     bind_res (check_listeners runtime (name # names) (endpoint r # endpoints) ls) (\<lambda>rs. Inr ((name, r) # rs)))"

definition check_pool :: "(string \<times> int) list \<Rightarrow> pv \<times> pv \<Rightarrow> nerr + int \<times> int" where
  "check_pool endpoints p =
     bind_res (integer (fst p) 1 65535) (\<lambda>low.
     bind_res (integer (snd p) low 65535) (\<lambda>high.
     bind_res (refuse_if (high - low > 8191 \<or> list_ex (\<lambda>e. low \<le> snd e \<and> snd e \<le> high) endpoints) (NormalizerError ''invalid-port-pool'')) (\<lambda>_.
     Inr (low, high))))"

fun check_overlap :: "(int \<times> int) list \<Rightarrow> (int \<times> int) list \<Rightarrow> nerr + unit" where
  "check_overlap before [] = Inr ()"
| "check_overlap before ((low, high) # pools) =
     (if list_ex (\<lambda>(other_low, other_high). low \<le> other_high \<and> other_low \<le> high) before then Inl (NormalizerError ''overlapping-port-pools'')
      else check_overlap (before @ [(low, high)]) pools)"

definition check_nameserver :: "pv \<Rightarrow> nerr + unit" where
  "check_nameserver v = (case normalize_value v of
     Inl _ \<Rightarrow> Inl (NormalizerError ''invalid-resolvers'')
   | Inr a \<Rightarrow> refuse_if (str_address a \<noteq> str_of v
       \<or> \<not> (str_of v = LOCAL_DNS_FORWARDER \<or> allows \<lparr>owned = [], management_tcp = [], management_udp = []\<rparr> a 53 Udp))
       (NormalizerError ''invalid-resolvers''))"

definition check_resolver :: "pv \<Rightarrow> nerr + unit" where
  "check_resolver v =
     bind_res (keys v [''nameservers'', ''timeout_seconds'', ''attempts'', ''lookup_timeout_seconds'', ''workers'']) (\<lambda>r.
     let servers = item r ''nameservers'' in
     bind_res (refuse_if (\<not> is_list servers \<or> \<not> (1 \<le> length (list_of servers) \<and> length (list_of servers) \<le> 3)) (NormalizerError ''invalid-resolvers'')) (\<lambda>_.
     bind_res (each check_nameserver (list_of servers)) (\<lambda>_.
     bind_res (refuse_if (\<not> distinct (list_of servers)) (NormalizerError ''invalid-resolvers'')) (\<lambda>_.
     each (\<lambda>(name, low, high). bind_res (integer (item r name) low high) (\<lambda>_. Inr ()))
       [(''timeout_seconds'', 1, 5), (''attempts'', 1, 2), (''lookup_timeout_seconds'', 1, 15), (''workers'', 1, 8)]))))"

definition check_ports :: "pv \<Rightarrow> nerr + unit" where
  "check_ports ports =
     bind_res (refuse_if (\<not> is_list ports \<or> 256 < length (list_of ports)) (NormalizerError ''invalid-management-ports'')) (\<lambda>_.
     bind_res (each (\<lambda>port. bind_res (integer port 1 65535) (\<lambda>_. Inr ())) (list_of ports)) (\<lambda>_.
     refuse_if (\<not> distinct (list_of ports)) (NormalizerError ''invalid-management-ports'')))"

definition canonical_text :: "pv \<Rightarrow> bool" where
  "canonical_text v = (case normalize_value v of Inl _ \<Rightarrow> False | Inr a \<Rightarrow> str_address a = str_of v)"

definition check_policy :: "pv \<Rightarrow> nerr + unit" where
  "check_policy v =
     bind_res (keys v [''owned_addresses'', ''management_tcp_ports'', ''management_udp_ports'']) (\<lambda>p.
     let owned = item p ''owned_addresses'' in
     bind_res (refuse_if (\<not> is_list owned \<or> 256 < length (list_of owned)) (NormalizerError ''invalid-owned-addresses'')) (\<lambda>_.
     bind_res (refuse_if (\<not> list_all canonical_text (list_of owned)) (NormalizerError ''invalid-owned-addresses'')) (\<lambda>_.
     each (\<lambda>name. check_ports (item p name)) [''management_tcp_ports'', ''management_udp_ports''])))"

definition limit_ranges :: "(string \<times> int \<times> int) list" where
  "limit_ranges = [(''max_connections'', 1, 512), (''max_associations'', 1, 1024), (''max_pending_packets'', 1, 4096),
     (''max_datagram_bytes'', 22, 65507), (''max_bindings_per_association'', 1, 128), (''handshake_seconds'', 1, 60),
     (''connect_seconds'', 1, 60), (''idle_seconds'', 1, 86400), (''udp_quarantine_seconds'', 240, 86400)]"

definition check_limits :: "pv \<Rightarrow> nerr + unit" where
  "check_limits v =
     bind_res (keys v (map fst limit_ranges)) (\<lambda>l.
     each (\<lambda>(name, low, high). bind_res (integer (item l name) low high) (\<lambda>_. Inr ())) limit_ranges)"

definition check_rows :: "row list \<Rightarrow> row list \<Rightarrow> nerr + unit" where
  \<comment> \<open>the checks across backends and listeners\<close>
  "check_rows backends listeners =
     (let rows = backends @ listeners; endpoints = map endpoint rows; passwords = map secret rows in
      bind_res (refuse_if (\<not> distinct passwords) (NormalizerError ''reused-config-credential'')) (\<lambda>_.
      bind_res (map_res (check_pool endpoints) (map pool rows)) (\<lambda>pools.
      check_overlap [] pools)))"

definition validate_config :: "bool \<Rightarrow> pv \<Rightarrow> nerr + pv" where
  "validate_config input_only raw =
     bind_res (keys raw ([''schema_version'', ''backends'', ''listeners'', ''resolver'', ''policy'', ''limits'']
       @ (if input_only then [] else [''runtime_uid'']))) (\<lambda>d.
     bind_res (refuse_if (item d ''schema_version'' \<noteq> PInt 1) (NormalizerError ''invalid-config-version'')) (\<lambda>_.
     bind_res (if input_only then Inr None else bind_res (identity (item d ''runtime_uid'')) (\<lambda>uid. Inr (Some (PInt uid)))) (\<lambda>runtime.
     let backends = item d ''backends''; listeners = item d ''listeners'' in
     bind_res (refuse_if (\<not> is_dict backends \<or> dict_of backends = [] \<or> \<not> list_all (\<lambda>(n, _). n = ''direct'' \<or> n = ''warp'') (dict_of backends))
       (NormalizerError ''invalid-backends'')) (\<lambda>_.
     bind_res (map_res check_backend (dict_of backends)) (\<lambda>backend_rows.
     bind_res (refuse_if (\<not> is_list listeners \<or> \<not> (1 \<le> length (list_of listeners) \<and> length (list_of listeners) \<le> 3))
       (NormalizerError ''invalid-listeners'')) (\<lambda>_.
     bind_res (check_listeners runtime [] (map endpoint backend_rows) (list_of listeners)) (\<lambda>listener_rows.
     bind_res (refuse_if (\<not> list_all (\<lambda>(n, _). list_ex (\<lambda>(name, _). map_of LISTENERS name = Some n) listener_rows) (dict_of backends)
         \<or> \<not> list_all (\<lambda>(name, _). list_ex (\<lambda>(n, _). map_of LISTENERS name = Some n) (dict_of backends)) listener_rows)
       (NormalizerError ''unconsumed-backend'')) (\<lambda>_.
     bind_res (check_rows backend_rows (map snd listener_rows)) (\<lambda>_.
     bind_res (check_resolver (item d ''resolver'')) (\<lambda>_.
     bind_res (check_policy (item d ''policy'')) (\<lambda>_.
     bind_res (check_limits (item d ''limits'')) (\<lambda>_.
     Inr raw))))))))))))"

definition load_config :: "bool \<Rightarrow> string option \<Rightarrow> nerr + pv" where
  \<comment> \<open>the argument is what was read from the standard input or the private file, \<open>None\<close> when the file was refused\<close>
  "load_config input_only contents = (case contents of
     None \<Rightarrow> Inl (NormalizerError ''unsafe-config-file'')
   | Some data \<Rightarrow>
       if MAX_CONFIG < length data then Inl (NormalizerError ''oversized-config'')
       else (case decode_json unique_hook data of
           Inl (Json JHook) \<Rightarrow> Inl (NormalizerError ''duplicate-config-field'')
         | Inl (Json JDigits) \<Rightarrow> Inl (Raised ValueError)
         | Inl _ \<Rightarrow> Inl (NormalizerError ''invalid-config'')
         | Inr v \<Rightarrow> validate_config input_only v))"

text \<open>
  The identity and the resolver authority the process runs with. \<open>stat_of\<close> is a system file's owner, mode, kind
  and size; a file's lines, of ASCII text, are given, and \<open>unix_probe\<close> is the error of creating a local socket, if any.
\<close>

record runtime_env =
  linux :: bool
  euid :: int
  stat_of :: "string \<Rightarrow> int \<times> nat \<times> bool \<times> nat"
  lines_of :: "string \<Rightarrow> string list"
  environ :: "string list"
  unix_probe :: "string option"

definition ascii_space :: "char \<Rightarrow> bool" where
  "ascii_space c \<longleftrightarrow> ord_of c = 32 \<or> (9 \<le> ord_of c \<and> ord_of c \<le> 13) \<or> (28 \<le> ord_of c \<and> ord_of c \<le> 31)"

definition line_text :: "string \<Rightarrow> string" where
  \<comment> \<open>\<open>line.split("#", 1)[0].strip()\<close>\<close>
  "line_text line = strip ascii_space (fst (partition_on (CHR ''#'') line))"

fun words :: "string \<Rightarrow> string list" where
  \<comment> \<open>\<open>line.split()\<close>\<close>
  "words [] = []"
| "words (c # cs) = (if ascii_space c then words cs
     else (case cs of [] \<Rightarrow> [[c]] | d # _ \<Rightarrow> if ascii_space d then [c] # words cs else (case words cs of [] \<Rightarrow> [[c]] | w # ws \<Rightarrow> (c # w) # ws)))"

definition validate_runtime_environment :: "runtime_env \<Rightarrow> int \<Rightarrow> string list \<Rightarrow> int \<Rightarrow> int \<Rightarrow> nerr + unit" where
  "validate_runtime_environment e runtime_uid nameservers timeout attempts =
     bind_res (refuse_if (\<not> linux e \<or> euid e \<noteq> runtime_uid \<or> euid e = 0) (NormalizerError ''invalid-runtime-identity'')) (\<lambda>_.
     bind_res (each (\<lambda>path. case stat_of e path of (uid, mode, regular, bytes) \<Rightarrow>
         refuse_if (uid \<noteq> 0 \<or> bit mode 1 \<or> bit mode 4 \<or> \<not> regular \<or> 16384 < bytes) (NormalizerError ''unsafe-resolver-authority''))
       [''/etc/resolv.conf'', ''/etc/nsswitch.conf'', ''/etc/hosts'']) (\<lambda>_.
     bind_res (refuse_if (filter (\<lambda>l. l \<noteq> []) (map line_text (lines_of e ''/etc/resolv.conf''))
         \<noteq> map (\<lambda>v. ''nameserver '' @ v) nameservers @ [''options timeout:'' @ show_int timeout @ '' attempts:'' @ show_int attempts])
       (NormalizerError ''unsealed-resolver-authority'')) (\<lambda>_.
     bind_res (refuse_if (list_ex (\<lambda>l. l \<noteq> []) (map line_text (lines_of e ''/etc/hosts''))
         \<or> map words (filter (\<lambda>l. strip ascii_space (fst (partition_on (CHR '':'') l)) = ''hosts'') (map line_text (lines_of e ''/etc/nsswitch.conf'')))
             \<noteq> [[''hosts:'', ''dns'']]) (NormalizerError ''unsealed-resolver-authority'')) (\<lambda>_.
     bind_res (refuse_if (list_ex (\<lambda>n. List.member (environ e) n) [''LOCALDOMAIN'', ''RES_OPTIONS'', ''HOSTALIASES'', ''PYTHONPATH'', ''PYTHONHOME''])
       (NormalizerError ''unsealed-resolver-environment'')) (\<lambda>_.
     refuse_if (\<not> (case unix_probe e of None \<Rightarrow> False | Some n \<Rightarrow> List.member [''EPERM'', ''EACCES'', ''EAFNOSUPPORT''] n))
       (NormalizerError ''unsealed-resolver-ipc''))))))"

section \<open>What an accepted configuration guarantees\<close>

definition backend_row :: "string \<times> pv \<Rightarrow> row" where
  "backend_row nb = (let b = dict_of (snd nb) in
     \<lparr>endpoint = (str_of (item b ''address''), int_of (item b ''port'')), secret = str_of (item b ''password''),
      pool = (item b ''udp_source_port_min'', item b ''udp_source_port_max'')\<rparr>)"

definition listener_row :: "pv \<Rightarrow> row" where
  "listener_row v = (let l = dict_of v in
     \<lparr>endpoint = (str_of (item l ''address''), int_of (item l ''port'')), secret = str_of (item l ''password''),
      pool = (item l ''udp_port_min'', item l ''udp_port_max'')\<rparr>)"

definition listener_name :: "pv \<Rightarrow> string" where
  "listener_name v = str_of (item (dict_of v) ''name'')"

definition backends_of :: "pv \<Rightarrow> row list" where
  "backends_of raw = map backend_row (dict_of (item (dict_of raw) ''backends''))"

definition listeners_of :: "pv \<Rightarrow> row list" where
  "listeners_of raw = map listener_row (list_of (item (dict_of raw) ''listeners''))"

definition ports :: "row \<Rightarrow> int set" where
  "ports r = {int_of (fst (pool r)) .. int_of (snd (pool r))}"

lemma map_res_map:
  assumes "map_res f xs = Inr ys" "\<And>x y. x \<in> set xs \<Longrightarrow> f x = Inr y \<Longrightarrow> y = g x"
  shows "ys = map g xs"
  using assms by (induction xs arbitrary: ys) (auto simp: bind_res_Inr)

lemma map_res_Inr_all: "map_res f xs = Inr ys \<Longrightarrow> x \<in> set xs \<Longrightarrow> \<exists>y. f x = Inr y"
  by (induction xs arbitrary: ys) (auto simp: bind_res_Inr)

lemma keys_Inr: "keys v ks = Inr d \<longleftrightarrow> is_dict v \<and> keys_are (dict_of v) ks \<and> d = dict_of v"
  by (auto simp: keys_def)

lemma integer_Inr: "integer v low high = Inr i \<longleftrightarrow> v = PInt i \<and> low \<le> i \<and> i \<le> high"
  by (cases v) (auto simp: integer_def pv_tests pv_payloads)

lemma credential_Inr:
  "credential p v = Inr s \<Longrightarrow> v = PStr s \<and> (if p then 32 else 1) \<le> length s \<and> length s \<le> (if p then 128 else 63)"
proof -
  have "ulen s = length s" if "is_ascii s" for s using that by (induction s) (auto simp: ulen_def is_ascii_def)
  then show "credential p v = Inr s \<Longrightarrow> ?thesis" by (cases v) (auto simp: credential_def pv_tests pv_payloads split: if_split_asm)
qed

lemmas checked = bind_res_Inr keys_Inr integer_Inr refuse_if_simps

lemma check_backend_row: "check_backend nb = Inr r \<Longrightarrow> r = backend_row nb \<and> 32 \<le> length (secret r)"
  by (cases nb) (auto simp: check_backend_def checked backend_row_def Let_def dest!: credential_Inr)

lemma check_listener_row:
  assumes "check_listener runtime names endpoints l = Inr nr"
  shows "nr = (listener_name l, listener_row l)" "32 \<le> length (secret (listener_row l))" "listener_name l \<notin> set names"
    "endpoint (listener_row l) \<notin> set endpoints" "runtime = Some (PInt uid) \<Longrightarrow> item (dict_of l) ''frontend_uid'' \<noteq> PInt uid"
  using assms
  by (auto simp: check_listener_def checked listener_row_def listener_name_def check_identity_def identity_def Let_def pv_test_iff dest!: credential_Inr
      split: option.splits)

lemma check_listeners_rows:
  assumes "check_listeners runtime names endpoints ls = Inr rs"
  shows "rs = map (\<lambda>l. (listener_name l, listener_row l)) ls \<and> distinct (map listener_name ls) \<and> set (map listener_name ls) \<inter> set names = {}
    \<and> distinct (map (endpoint \<circ> listener_row) ls) \<and> set (map (endpoint \<circ> listener_row) ls) \<inter> set endpoints = {}
    \<and> (\<forall>l \<in> set ls. 32 \<le> length (secret (listener_row l)) \<and> (\<forall>uid. runtime = Some (PInt uid) \<longrightarrow> item (dict_of l) ''frontend_uid'' \<noteq> PInt uid))"
  using assms
proof (induction ls arbitrary: names endpoints rs)
  case (Cons l ls)
  then obtain nr rs' where one: "check_listener runtime names endpoints l = Inr nr"
    and rest: "check_listeners runtime (fst nr # names) (endpoint (snd nr) # endpoints) ls = Inr rs'" and rs: "rs = nr # rs'"
    by (auto simp: bind_res_Inr)
  note this = check_listener_row [OF one]
  with Cons.IH [OF rest] rs show ?case by auto
qed simp

lemma check_overlap_disjoint:
  assumes "check_overlap before ps = Inr u" "\<And>p. p \<in> set before \<union> set ps \<Longrightarrow> fst p \<le> snd p"
  shows "sorted_wrt (\<lambda>p q. {fst p .. snd p} \<inter> {fst q .. snd q} = {}) ps"
    "\<And>p q. p \<in> set before \<Longrightarrow> q \<in> set ps \<Longrightarrow> {fst p .. snd p} \<inter> {fst q .. snd q} = {}"
proof -
  have "sorted_wrt (\<lambda>p q. {fst p .. snd p} \<inter> {fst q .. snd q} = {}) ps
    \<and> (\<forall>p \<in> set before. \<forall>q \<in> set ps. {fst p .. snd p} \<inter> {fst q .. snd q} = {})"
    using assms
  proof (induction before ps rule: check_overlap.induct)
    case (2 before low high pools)
    from 2(2) have now: "\<forall>p \<in> set before. \<not> (low \<le> snd p \<and> fst p \<le> high)" and rest: "check_overlap (before @ [(low, high)]) pools = Inr u"
      by (auto simp: list_ex_iff split: if_split_asm)
    have free: "\<not> list_ex (\<lambda>(other_low, other_high). low \<le> other_high \<and> other_low \<le> high) before" using now by (auto simp: list_ex_iff)
    have IH: "sorted_wrt (\<lambda>p q. {fst p .. snd p} \<inter> {fst q .. snd q} = {}) pools
      \<and> (\<forall>p \<in> set (before @ [(low, high)]). \<forall>q \<in> set pools. {fst p .. snd p} \<inter> {fst q .. snd q} = {})"
      by (rule 2(1) [OF free rest]) (use 2(3) in auto)
    moreover have "{fst p .. snd p} \<inter> {low .. high} = {}" if "p \<in> set before" for p using now that by fastforce
    ultimately show ?case by auto
  qed simp
  then show "sorted_wrt (\<lambda>p q. {fst p .. snd p} \<inter> {fst q .. snd q} = {}) ps"
    "\<And>p q. p \<in> set before \<Longrightarrow> q \<in> set ps \<Longrightarrow> {fst p .. snd p} \<inter> {fst q .. snd q} = {}" by auto
qed

lemma check_rows_separated:
  assumes "check_rows bs ls = Inr u"
  shows "distinct (map secret (bs @ ls))" "sorted_wrt (\<lambda>r s. ports r \<inter> ports s = {}) (bs @ ls)"
    "\<forall>r \<in> set (bs @ ls). ports r \<noteq> {} \<and> ports r \<subseteq> {1..65535} \<and> card (ports r) \<le> 8192 \<and> (\<forall>s \<in> set (bs @ ls). snd (endpoint s) \<notin> ports r)"
proof -
  let ?rows = "bs @ ls" and ?range = "\<lambda>p. (int_of (fst p), int_of (snd p))"
  from assms obtain pools where d: "distinct (map secret ?rows)"
    and m: "map_res (check_pool (map endpoint ?rows)) (map pool ?rows) = Inr pools" and ov: "check_overlap [] pools = Inr u"
    unfolding check_rows_def Let_def by (auto simp: bind_res_Inr)
  show "distinct (map secret ?rows)" by (rule d)
  have one: "\<exists>low high. p = (PInt low, PInt high) \<and> 1 \<le> low \<and> low \<le> high \<and> high \<le> 65535 \<and> high - low \<le> 8191
      \<and> (\<forall>s \<in> set ?rows. snd (endpoint s) \<notin> {low..high})" if "check_pool (map endpoint ?rows) p = Inr y" for p y
    using that by (cases p) (auto simp: check_pool_def checked list_ex_iff)
  have eq: "pools = map ?range (map pool ?rows)" using m by (rule map_res_map) (auto simp: check_pool_def checked)
  have each: "\<exists>low high. pool r = (PInt low, PInt high) \<and> 1 \<le> low \<and> low \<le> high \<and> high \<le> 65535 \<and> high - low \<le> 8191
      \<and> (\<forall>s \<in> set ?rows. snd (endpoint s) \<notin> {low..high})" if "r \<in> set ?rows" for r
    using map_res_Inr_all [OF m, of "pool r"] that one by fastforce
  have "fst p \<le> snd p" if "p \<in> set [] \<union> set pools" for p using that each unfolding eq by fastforce
  from check_overlap_disjoint(1) [OF ov this] show "sorted_wrt (\<lambda>r s. ports r \<inter> ports s = {}) ?rows"
    unfolding eq map_map sorted_wrt_map by (simp add: ports_def del: map_append Int_atLeastAtMost)
  show "\<forall>r \<in> set ?rows. ports r \<noteq> {} \<and> ports r \<subseteq> {1..65535} \<and> card (ports r) \<le> 8192 \<and> (\<forall>s \<in> set ?rows. snd (endpoint s) \<notin> ports r)"
  proof
    fix r assume "r \<in> set ?rows"
    from each [OF this] obtain low high where r: "pool r = (PInt low, PInt high)" "1 \<le> low" "low \<le> high" "high \<le> 65535" "high - low \<le> 8191"
      "\<forall>s \<in> set ?rows. snd (endpoint s) \<notin> {low..high}" by blast
    then have "ports r = {low..high}" by (simp add: ports_def)
    with r show "ports r \<noteq> {} \<and> ports r \<subseteq> {1..65535} \<and> card (ports r) \<le> 8192 \<and> (\<forall>s \<in> set ?rows. snd (endpoint s) \<notin> ports r)" by auto
  qed
qed

lemma accepted_parts:
  assumes "validate_config input_only raw = Inr c"
  obtains runtime lrows where "c = raw"
    and "(if input_only then Inr None else bind_res (identity (item (dict_of raw) ''runtime_uid'')) (\<lambda>uid. Inr (Some (PInt uid)))) = (Inr runtime :: nerr + _)"
    and "map_res check_backend (dict_of (item (dict_of raw) ''backends'')) = Inr (backends_of raw)"
    and "check_listeners runtime [] (map endpoint (backends_of raw)) (list_of (item (dict_of raw) ''listeners'')) = Inr lrows"
    and "check_rows (backends_of raw) (listeners_of raw) = Inr ()"
proof -
  from assms obtain runtime brows lrows where c: "c = raw"
    and uid: "(if input_only then Inr None else bind_res (identity (item (dict_of raw) ''runtime_uid'')) (\<lambda>uid. Inr (Some (PInt uid)))) = (Inr runtime :: nerr + _)"
    and b: "map_res check_backend (dict_of (item (dict_of raw) ''backends'')) = Inr brows"
    and l: "check_listeners runtime [] (map endpoint brows) (list_of (item (dict_of raw) ''listeners'')) = Inr lrows"
    and r: "check_rows brows (map snd lrows) = Inr ()"
    unfolding validate_config_def Let_def bind_res_Inr keys_Inr by auto
  have bs: "brows = backends_of raw" unfolding backends_of_def by (rule map_res_map [OF b]) (use check_backend_row in blast)
  from check_listeners_rows [OF l] have "map snd lrows = listeners_of raw" by (simp add: listeners_of_def)
  with that c uid b l r bs show thesis by metis
qed

lemma accepted_pools_disjoint:
  "validate_config input_only raw = Inr c \<Longrightarrow> sorted_wrt (\<lambda>r s. ports r \<inter> ports s = {}) (backends_of raw @ listeners_of raw)"
  by (erule accepted_parts) (rule check_rows_separated)

text \<open>
  C18: Separation in an accepted configuration. When the configuration is accepted, the UDP port pools of
  all backends and listeners are non-empty, lie within the valid ports, hold at most 8192 ports and are
  pairwise disjoint, and no configured endpoint uses a port of any pool; no two passwords are equal and each has at
  least 32 characters; the listeners have distinct names and endpoints, distinct also from the endpoints of the backends;
  and, outside input mode, no listener serves the identity the normalizer itself runs with.
\<close>

theorem config_separated:
  assumes "validate_config input_only raw = Inr c" "rows = backends_of raw @ listeners_of raw"
  shows "c = raw \<and> sorted_wrt (\<lambda>r s. ports r \<inter> ports s = {}) rows
    \<and> (\<forall>r \<in> set rows. ports r \<noteq> {} \<and> ports r \<subseteq> {1..65535} \<and> card (ports r) \<le> 8192 \<and> (\<forall>s \<in> set rows. snd (endpoint s) \<notin> ports r))
    \<and> distinct (map secret rows) \<and> (\<forall>r \<in> set rows. 32 \<le> length (secret r))
    \<and> distinct (map listener_name (list_of (item (dict_of raw) ''listeners'')))
    \<and> distinct (map endpoint (listeners_of raw)) \<and> endpoint ` set (listeners_of raw) \<inter> endpoint ` set (backends_of raw) = {}
    \<and> (\<not> input_only \<longrightarrow>
         (\<forall>l \<in> set (list_of (item (dict_of raw) ''listeners'')). item (dict_of l) ''frontend_uid'' \<noteq> item (dict_of raw) ''runtime_uid''))"
proof (intro conjI impI)
  from assms(1) obtain runtime lrows where c: "c = raw"
    and uid: "(if input_only then Inr None else bind_res (identity (item (dict_of raw) ''runtime_uid'')) (\<lambda>uid. Inr (Some (PInt uid)))) = (Inr runtime :: nerr + _)"
    and b: "map_res check_backend (dict_of (item (dict_of raw) ''backends'')) = Inr (backends_of raw)"
    and l: "check_listeners runtime [] (map endpoint (backends_of raw)) (list_of (item (dict_of raw) ''listeners'')) = Inr lrows"
    and r: "check_rows (backends_of raw) (listeners_of raw) = Inr ()"
    by (rule accepted_parts)
  note ls = check_listeners_rows [OF l] and sep = check_rows_separated [OF r]
  have long: "32 \<le> length (secret r)" if "r \<in> set (backends_of raw)" for r
    using that map_res_Inr_all [OF b] check_backend_row unfolding backends_of_def by fastforce
  show "c = raw" by (rule c)
  show "sorted_wrt (\<lambda>r s. ports r \<inter> ports s = {}) rows" "distinct (map secret rows)"
    "\<forall>r \<in> set rows. ports r \<noteq> {} \<and> ports r \<subseteq> {1..65535} \<and> card (ports r) \<le> 8192 \<and> (\<forall>s \<in> set rows. snd (endpoint s) \<notin> ports r)"
    unfolding assms(2) using sep by blast+
  show "\<forall>r \<in> set rows. 32 \<le> length (secret r)" unfolding assms(2) using long ls by (auto simp: listeners_of_def)
  show "distinct (map listener_name (list_of (item (dict_of raw) ''listeners'')))" "distinct (map endpoint (listeners_of raw))"
    using ls by (simp_all add: listeners_of_def)
  show "endpoint ` set (listeners_of raw) \<inter> endpoint ` set (backends_of raw) = {}" using ls unfolding listeners_of_def by (simp add: image_comp)
  show "\<forall>l \<in> set (list_of (item (dict_of raw) ''listeners'')). item (dict_of l) ''frontend_uid'' \<noteq> item (dict_of raw) ''runtime_uid''" if "\<not> input_only"
    using ls uid that by (auto simp: bind_res_Inr identity_def integer_Inr)
qed

definition sample_backend :: pv where
  "sample_backend = PDict [(''address'', PStr ''127.0.0.55''), (''port'', PInt 1080), (''username'', PStr ''u''),
     (''password'', PStr (replicate 32 (CHR ''a''))), (''udp_source_port_min'', PInt 2000), (''udp_source_port_max'', PInt 2099)]"

definition sample_listener :: pv where
  "sample_listener = PDict [(''name'', PStr ''direct_xray''), (''address'', PStr ''127.0.0.1''), (''port'', PInt 1081), (''username'', PStr ''u''),
     (''password'', PStr (replicate 32 (CHR ''b''))), (''backend'', PStr ''direct''), (''udp_port_min'', PInt 3000), (''udp_port_max'', PInt 3099)]"

definition sample_resolver :: pv where
  "sample_resolver = PDict [(''nameservers'', PList [PStr ''127.0.0.2'']), (''timeout_seconds'', PInt 2), (''attempts'', PInt 1),
     (''lookup_timeout_seconds'', PInt 5), (''workers'', PInt 2)]"

definition sample_authority :: pv where
  "sample_authority = PDict [(''owned_addresses'', PList []), (''management_tcp_ports'', PList [PInt 22]), (''management_udp_ports'', PList [])]"

definition sample_limits :: pv where
  "sample_limits = PDict [(''max_connections'', PInt 64), (''max_associations'', PInt 64), (''max_pending_packets'', PInt 64),
     (''max_datagram_bytes'', PInt 1500), (''max_bindings_per_association'', PInt 8), (''handshake_seconds'', PInt 10),
     (''connect_seconds'', PInt 10), (''idle_seconds'', PInt 60), (''udp_quarantine_seconds'', PInt 300)]"

definition sample_config :: pv where
  "sample_config = PDict [(''schema_version'', PInt 1), (''backends'', PDict [(''direct'', sample_backend)]), (''listeners'', PList [sample_listener]),
     (''resolver'', sample_resolver), (''policy'', sample_authority), (''limits'', sample_limits)]"

lemmas shape_eval = keys_def keys_are_def has_key_def integer_def refuse_if_eval

lemma sample_secret:
  "credential True (PStr (replicate 32 (CHR ''a''))) = Inr (replicate 32 (CHR ''a''))"
  "credential True (PStr (replicate 32 (CHR ''b''))) = Inr (replicate 32 (CHR ''b''))"
  "credential False (PStr ''u'') = Inr ''u''"
  by (simp_all add: credential_def ulen_def is_ascii_def list_all_iff)

lemma local_text: "ip_address ''127.0.0.55'' = Some (V4 (v4 127 0 0 55))" "ip_address ''127.0.0.2'' = Some (V4 (v4 127 0 0 2))"
  by (simp_all add: ip_address_def ipv4_address_def octet_def is_digit_def read_nat_def digit_val_def)

lemma quad_indices: "[0..<4] = [0, 1, 2, 3 :: nat]"
  by (simp add: upt_rec numeral_eq_Suc)

lemma local_str: "str_address (V4 (v4 127 0 0 55)) = ''127.0.0.55''" "str_address (V4 (v4 127 0 0 2)) = ''127.0.0.2''"
  by (simp_all add: str_address_def v4_def quad_indices show_nat.simps digit_char_def char_of_def bit_Suc_0_iff)

lemmas local_eval = normalize_value_def normalize_address_def ulen_def local_text local_str unmapped_def

lemma sample_backend_row:
  "check_backend (''direct'', sample_backend) =
     Inr \<lparr>endpoint = (''127.0.0.55'', 1080), secret = replicate 32 (CHR ''a''), pool = (PInt 2000, PInt 2099)\<rparr>"
  by (simp add: check_backend_def sample_backend_def shape_eval sample_secret backend_address_def local_eval)

lemma sample_listener_row:
  "check_listener None [] [(''127.0.0.55'', 1080)] sample_listener =
     Inr (''direct_xray'', \<lparr>endpoint = (''127.0.0.1'', 1081), secret = replicate 32 (CHR ''b''), pool = (PInt 3000, PInt 3099)\<rparr>)"
  by (simp add: check_listener_def sample_listener_def shape_eval sample_secret LISTENERS_def check_identity_def)

lemma sample_sections: "check_resolver sample_resolver = Inr ()" "check_policy sample_authority = Inr ()" "check_limits sample_limits = Inr ()"
  by (simp_all add: check_resolver_def check_policy_def check_limits_def limit_ranges_def check_ports_def shape_eval check_nameserver_def
      local_eval LOCAL_DNS_FORWARDER_def sample_resolver_def sample_authority_def sample_limits_def Let_def)

lemma sample_config_accepted: "validate_config True sample_config = Inr sample_config"
  by (simp add: validate_config_def sample_config_def sample_backend_row sample_listener_row sample_sections shape_eval LISTENERS_def
      check_rows_def check_pool_def)

theorem config_separated_witness:
  "validate_config True sample_config = Inr sample_config \<and> length (backends_of sample_config @ listeners_of sample_config) = 2
    \<and> sorted_wrt (\<lambda>r s. ports r \<inter> ports s = {}) (backends_of sample_config @ listeners_of sample_config)
    \<and> distinct (map secret (backends_of sample_config @ listeners_of sample_config))"
  using config_separated [OF sample_config_accepted refl] sample_config_accepted by (simp add: backends_of_def listeners_of_def sample_config_def)

end
