(* ===== verification/EgressSessions.thy ===== *)
theory EgressSessions
  imports EgressNormalizer "HOL-Library.Multiset" "HOL-Library.Sublist"
begin

text \<open>
  The sessions of the egress normalizer (\<^verbatim>\<open>scripts/transport_egress_normalizer.py\<close>): the resolver
  subprocesses, the UDP port pools, the authenticated connection to a gateway, the race between candidates, the stream
  relay and the UDP association.

  \<open>io\<close> is what the kernel answers to one nonblocking call of each kind on one socket. A lookup of the operating
  system and the resolution of a name are arguments of the definitions that use them.
\<close>

section \<open>Resolver\<close>

definition MAX_RESOLVER_RESPONSE :: nat where
  "MAX_RESOLVER_RESPONSE = 8192"

definition network_of :: "pv \<Rightarrow> network option" where
  "network_of v = (if v = PStr ''tcp'' then Some Tcp else if v = PStr ''udp'' then Some Udp else None)"

definition caught :: "'e + 'a \<Rightarrow> unit + 'a" where
  \<comment> \<open>every exception of the \<open>try\<close> block is handled alike\<close>
  "caught m = (case m of Inl _ \<Rightarrow> Inl () | Inr v \<Rightarrow> Inr v)"

definition worker_addresses :: "names \<Rightarrow> (string \<Rightarrow> int \<Rightarrow> network \<Rightarrow> pyexc + string list) \<Rightarrow> pv \<Rightarrow> unit + int \<times> string list" where
  "worker_addresses env getaddrinfo job =
     bind_res (caught (keys job [''id'', ''host'', ''port'', ''network''])) (\<lambda>d.
     bind_res (caught (integer (item d ''id'') 1 (2 ^ 63 - 1))) (\<lambda>identifier.
     bind_res (caught (integer (item d ''port'') 1 65535)) (\<lambda>port.
     bind_res (if is_str (item d ''host'') then caught (canonical_name env (str_of (item d ''host''))) else Inl ()) (\<lambda>host.
     bind_res (refuse_if (PStr host \<noteq> item d ''host'') ()) (\<lambda>_.
     bind_res (case network_of (item d ''network'') of None \<Rightarrow> Inl () | Some n \<Rightarrow> Inr n) (\<lambda>network.
     bind_res (caught (getaddrinfo host port network)) (\<lambda>rows.
     bind_res (caught (map_res normalize_address rows)) (\<lambda>as.
     let addresses = sort (remdups (map str_address as)) in
     bind_res (refuse_if (64 < length addresses) ()) (\<lambda>_. Inr (identifier, addresses))))))))))"

definition worker_id :: "pv \<Rightarrow> int" where
  \<comment> \<open>the identifier a refusal carries\<close>
  "worker_id job = (let i = item (dict_of job) ''id'' in if type_is_int i \<and> 1 \<le> int_of i \<and> int_of i < 2 ^ 63 then int_of i else 0)"

definition resolver_worker :: "names \<Rightarrow> (string \<Rightarrow> int \<Rightarrow> network \<Rightarrow> pyexc + string list) \<Rightarrow> string \<Rightarrow> int + string" where
  \<comment> \<open>one line of input: the exit status, or the line of output\<close>
  "resolver_worker env getaddrinfo line =
     (if line = [] then Inl 0
      else if 1024 < length line \<or> last line \<noteq> CHR 0x0A then Inl 1
      else
        let job = (case decode_json plain_hook line of Inr v \<Rightarrow> v | Inl _ \<Rightarrow> PDict []);
            (identifier, addresses) = (case worker_addresses env getaddrinfo job of Inr r \<Rightarrow> r | Inl _ \<Rightarrow> (worker_id job, []))
        in Inr (dumps (PDict [(''id'', PInt identifier), (''addresses'', PList (map PStr addresses))]) @ [CHR 0x0A]))"

text \<open>What a waiting caller sees next of the worker's output.\<close>

datatype worker_event = Quiet | Chunk string | Halted | Broken

fun worker_output :: "string \<Rightarrow> worker_event list \<Rightarrow> string option" where
  "worker_output output events =
     (if List.member output (CHR 0x0A) then Some output
      else (case events of
          [] \<Rightarrow> None
        | Quiet # es \<Rightarrow> worker_output output es
        | Chunk c # es \<Rightarrow> if c = [] \<or> MAX_RESOLVER_RESPONSE < length output + length c then None else worker_output (output @ c) es
        | _ \<Rightarrow> None))"

declare worker_output.simps [simp del]

definition resolver_answer :: "int \<Rightarrow> string \<Rightarrow> ipaddr list option" where
  "resolver_answer job_id output = (case decode_json plain_hook output of
     Inl _ \<Rightarrow> None
   | Inr v \<Rightarrow>
       if is_dict v \<and> keys_are (dict_of v) [''id'', ''addresses''] \<and> eq_int (item (dict_of v) ''id'') job_id
          \<and> is_list (item (dict_of v) ''addresses'') \<and> length (list_of (item (dict_of v) ''addresses'')) \<le> 64
       then (case map_res normalize_value (list_of (item (dict_of v) ''addresses'')) of Inl _ \<Rightarrow> None | Inr as \<Rightarrow> Some as)
       else None)"

text \<open>The pool of workers; a process is a number, \<open>spawned\<close> counts those started so far.\<close>

record rpool =
  available :: "nat list"
  processes :: "nat list"
  counter :: int
  spawned :: nat

definition spawn :: "rpool \<Rightarrow> rpool" where
  "spawn p = p\<lparr>processes := processes p @ [spawned p], spawned := spawned p + 1\<rparr>"

definition start_pool :: "nat \<Rightarrow> rpool" where
  "start_pool workers = ((\<lambda>p. (spawn p)\<lparr>available := available p @ [spawned p]\<rparr>) ^^ workers) \<lparr>available = [], processes = [], counter = 0, spawned = 0\<rparr>"

definition return_worker :: "bool \<Rightarrow> bool \<Rightarrow> bool \<Rightarrow> nat \<Rightarrow> rpool \<Rightarrow> rpool" where
  \<comment> \<open>the \<open>finally\<close> clause; \<open>spawns\<close> tells whether a replacement can be started\<close>
  "return_worker good stopped spawns w p =
     (if good \<and> \<not> stopped then p\<lparr>available := available p @ [w]\<rparr>
      else
        let closed = p\<lparr>processes := remove1 w (processes p)\<rparr> in
        if stopped \<or> \<not> spawns then closed else (spawn closed)\<lparr>available := available closed @ [spawned closed]\<rparr>)"

definition resolve :: "worker_event list \<Rightarrow> bool \<Rightarrow> bool \<Rightarrow> rpool \<Rightarrow> (nerr + ipaddr list) \<times> rpool" where
  "resolve events stopped spawns p = (case available p of
     [] \<Rightarrow> (Inl (NormalizerError ''resolution-unavailable''), p)
   | w # rest \<Rightarrow>
       let taken = p\<lparr>available := rest, counter := counter p + 1\<rparr>;
           answer = (case worker_output [] events of None \<Rightarrow> None | Some out \<Rightarrow> resolver_answer (counter taken) out);
           returned = return_worker (answer \<noteq> None) stopped spawns w taken
       in (if answer = None \<and> \<not> stopped \<and> \<not> spawns then Inl (Raised OSError)
           else case answer of None \<Rightarrow> Inl (NormalizerError ''resolution-unavailable'') | Some as \<Rightarrow> Inr as, returned))"

section \<open>Port pools\<close>

definition port_pool :: "int \<Rightarrow> int \<Rightarrow> int list" where
  "port_pool low high = [low..high]"

fun acquire_from :: "(int \<Rightarrow> bool) \<Rightarrow> nat \<Rightarrow> int list \<Rightarrow> (nerr + int) \<times> int list" where
  \<comment> \<open>\<open>binds\<close> tells which ports the kernel lets the socket bind\<close>
  "acquire_from binds 0 free = (Inl (NormalizerError ''association-capacity''), free)"
| "acquire_from binds (Suc n) [] = (Inl (NormalizerError ''association-capacity''), [])"
| "acquire_from binds (Suc n) (port # free) = (if binds port then (Inr port, free) else acquire_from binds n (free @ [port]))"

definition acquire :: "(int \<Rightarrow> bool) \<Rightarrow> int list \<Rightarrow> (nerr + int) \<times> int list" where
  "acquire binds free = acquire_from binds (length free) free"

definition release :: "int \<Rightarrow> int list \<Rightarrow> int list" where
  "release port free = free @ [port]"

section \<open>The gateway connection\<close>

datatype send_result = SendBlocked | SendBroken | Sent nat

datatype recv_result = RecvBlocked | RecvBroken | Got string

record io =
  ready :: bool
  so_error :: bool
  sends :: send_result
  recvs :: recv_result

definition expected :: "string \<Rightarrow> string \<Rightarrow> werr + nat" where
  "expected answer d =
     (if length d < length answer then Inl NeedMore
      else if d \<noteq> answer then Inl (WireError ''upstream-authentication-refused'') else Inr (length d))"

record gateway =
  literal :: ipaddr
  target :: int
  username :: string
  password :: string
  pending :: string
  received :: string
  stage :: nat
  connecting :: bool

definition HELLO :: string where
  "HELLO = [CHR 0x05, CHR 0x01, CHR 0x02]"

definition CHOSEN :: string where
  "CHOSEN = [CHR 0x05, CHR 0x02]"

definition GRANTED :: string where
  "GRANTED = [CHR 0x01, CHR 0x00]"

definition open_gateway :: "string \<Rightarrow> string \<Rightarrow> ipaddr \<Rightarrow> int \<Rightarrow> bool \<Rightarrow> gateway" where
  \<comment> \<open>\<open>in_progress\<close>: the connection was not established at once\<close>
  "open_gateway user key a port in_progress =
     \<lparr>literal = a, target = port, username = user, password = key, pending = HELLO, received = [], stage = 0, connecting = in_progress\<rparr>"

definition writing :: "gateway \<Rightarrow> bool" where
  "writing g \<longleftrightarrow> connecting g \<or> pending g \<noteq> []"

text \<open>
  \<open>advance\<close> in its three parts. The exceptions it raises are all handled alike by the caller, and are \<open>Inl ()\<close>.
  Besides the state it returns the bytes it handed to the kernel and the bytes it took from it.
\<close>

definition advance_write :: "io \<Rightarrow> bool \<Rightarrow> gateway \<Rightarrow> unit + bool \<times> gateway \<times> string" where
  \<comment> \<open>the flag: whether the call goes on to read\<close>
  "advance_write i writable g =
     bind_res (refuse_if (connecting g \<and> writable \<and> so_error i) ()) (\<lambda>_.
     let g = g\<lparr>connecting := connecting g \<and> \<not> writable\<rparr> in
     if pending g \<noteq> [] \<and> writable \<and> \<not> connecting g then
       (case sends i of
          SendBlocked \<Rightarrow> Inr (False, g, [])
        | SendBroken \<Rightarrow> Inl ()
        | Sent n \<Rightarrow> if n = 0 then Inl () else Inr (True, g\<lparr>pending := drop n (pending g)\<rparr>, take n (pending g)))
     else Inr (True, g, []))"

definition advance_stage :: "names \<Rightarrow> (ipaddr \<Rightarrow> int \<Rightarrow> network \<Rightarrow> bool) \<Rightarrow> gateway \<Rightarrow> unit + bool \<times> gateway" where
  "advance_stage env admitted g =
     (if stage g = 2 then
        (case upstream_reply env (received g) of Inr _ \<Rightarrow> Inr (True, g) | Inl NeedMore \<Rightarrow> Inr (False, g) | Inl _ \<Rightarrow> Inl ())
      else
        (case expected (if stage g = 0 then CHOSEN else GRANTED) (received g) of
           Inl NeedMore \<Rightarrow> Inr (False, g)
         | Inl _ \<Rightarrow> Inl ()
         | Inr _ \<Rightarrow>
             bind_res (if stage g = 0 then caught (upstream_auth (username g) (password g))
                       else if \<not> admitted (literal g) (target g) Tcp then Inl ()
                       else caught (upstream_request 1 (literal g) (target g))) (\<lambda>message.
             Inr (False, g\<lparr>received := [], pending := message, stage := stage g + 1\<rparr>))))"

definition advance :: "names \<Rightarrow> (ipaddr \<Rightarrow> int \<Rightarrow> network \<Rightarrow> bool) \<Rightarrow> io \<Rightarrow> bool \<Rightarrow> bool \<Rightarrow> gateway \<Rightarrow> (unit + bool \<times> gateway) \<times> string \<times> string" where
  "advance env admitted i readable writable g = (case advance_write i writable g of
     Inl _ \<Rightarrow> (Inl (), [], [])
   | Inr (go, g, sent) \<Rightarrow>
       if \<not> go \<or> \<not> readable \<or> writing g then (Inr (False, g), sent, [])
       else (case recvs i of
           RecvBlocked \<Rightarrow> (Inr (False, g), sent, [])
         | RecvBroken \<Rightarrow> (Inl (), sent, [])
         | Got c \<Rightarrow>
             if c = [] \<or> MAX_HANDSHAKE \<le> length (received g) then (Inl (), sent, take 1 c)
             else (advance_stage env admitted (g\<lparr>received := received g @ take 1 c\<rparr>), sent, take 1 c)))"

subsection \<open>What the gateway sees\<close>

text \<open>
  A session of calls to \<open>advance\<close>, until one raises or completes: the bytes sent, the bytes taken, and the outcome
  (\<open>None\<close>: still going; \<open>Some True\<close>: complete; \<open>Some False\<close>: raised).
\<close>

type_synonym call = "io \<times> bool \<times> bool"

fun session :: "names \<Rightarrow> (ipaddr \<Rightarrow> int \<Rightarrow> network \<Rightarrow> bool) \<Rightarrow> gateway \<Rightarrow> call list \<Rightarrow> string \<times> string \<times> bool option" where
  "session env admitted g [] = ([], [], None)"
| "session env admitted g ((i, readable, writable) # calls) = (case advance env admitted i readable writable g of
     (Inl _, sent, got) \<Rightarrow> (sent, got, Some False)
   | (Inr (True, _), sent, got) \<Rightarrow> (sent, got, Some True)
   | (Inr (False, g), sent, got) \<Rightarrow> (case session env admitted g calls of (sent', got', r) \<Rightarrow> (sent @ sent', got @ got', r)))"

text \<open>
  The state after the bytes \<open>out\<close> were sent and \<open>inp\<close> was taken: at stage 0 the greeting, then the authentication after the
  gateway chose it, then the request after it was granted.
\<close>

definition protocol :: "names \<Rightarrow> (ipaddr \<Rightarrow> int \<Rightarrow> network \<Rightarrow> bool) \<Rightarrow> gateway \<Rightarrow> string \<Rightarrow> string \<Rightarrow> bool" where
  "protocol env admitted g out inp \<longleftrightarrow>
     (stage g = 0 \<and> out @ pending g = HELLO \<and> inp = received g \<and> length inp < 2
    \<or> stage g = 1 \<and> (\<exists>auth. upstream_auth (username g) (password g) = Inr auth \<and> out @ pending g = HELLO @ auth)
        \<and> inp = CHOSEN @ received g \<and> length (received g) < 2
    \<or> stage g = 2 \<and> admitted (literal g) (target g) Tcp
        \<and> (\<exists>auth req. upstream_auth (username g) (password g) = Inr auth \<and> upstream_request 1 (literal g) (target g) = Inr req
             \<and> out @ pending g = HELLO @ auth @ req)
        \<and> inp = CHOSEN @ GRANTED @ received g \<and> (received g = [] \<or> upstream_reply env (received g) = Inl NeedMore))"

definition same_target :: "gateway \<Rightarrow> gateway \<Rightarrow> bool" where
  "same_target g h \<longleftrightarrow> literal h = literal g \<and> target h = target g \<and> username h = username g \<and> password h = password g"

lemma advance_write_keeps:
  assumes "advance_write i w g = Inr (go, h, sent)"
  shows "sent @ pending h = pending g" "stage h = stage g" "received h = received g" "same_target g h"
  using assms by (auto simp: advance_write_def bind_res_Inr same_target_def refuse_if_def Let_def split: if_split_asm send_result.split_asm)

lemma protocol_sent:
  assumes "protocol env admitted g out inp" "sent @ pending h = pending g" "stage h = stage g" "received h = received g" "same_target g h"
  shows "protocol env admitted h (out @ sent) inp"
proof -
  have e: "(out @ sent) @ pending h = out @ pending g" using assms(2) by simp
  have t: "literal h = literal g" "target h = target g" "username h = username g" "password h = password g" using assms(5) by (simp_all add: same_target_def)
  show ?thesis using assms(1) unfolding protocol_def e t assms(3,4) .
qed

lemma expected_Inr: "expected a d = Inr n \<longleftrightarrow> d = a \<and> n = length a"
  by (auto simp: expected_def)

lemma expected_NeedMore: "expected a d = Inl NeedMore \<longleftrightarrow> length d < length a"
  by (simp add: expected_def)

lemma caught_Inr: "caught m = Inr v \<longleftrightarrow> m = Inr v"
  by (cases m) (simp_all add: caught_def)

lemma advance_stage_early:
  assumes "stage g \<noteq> 2" "advance_stage env admitted g = Inr (done, h)"
  shows "\<not> done \<and> (h = g \<and> length (received g) < 2
    \<or> received g = (if stage g = 0 then CHOSEN else GRANTED)
      \<and> (\<exists>m. (if stage g = 0 then upstream_auth (username g) (password g) = Inr m
            else admitted (literal g) (target g) Tcp \<and> upstream_request 1 (literal g) (target g) = Inr m)
          \<and> h = g\<lparr>received := [], pending := m, stage := stage g + 1\<rparr>))"
proof (cases "expected (if stage g = 0 then CHOSEN else GRANTED) (received g)")
  case (Inl e)
  with assms have "e = NeedMore" "\<not> done" "h = g" by (auto simp: advance_stage_def split: werr.split_asm)
  with Inl show ?thesis by (simp add: expected_NeedMore CHOSEN_def GRANTED_def split: if_split_asm)
next
  case (Inr n)
  with assms obtain m where "(if stage g = 0 then caught (upstream_auth (username g) (password g))
        else if \<not> admitted (literal g) (target g) Tcp then Inl () else caught (upstream_request 1 (literal g) (target g))) = Inr m"
      "h = g\<lparr>received := [], pending := m, stage := stage g + 1\<rparr>" "\<not> done"
    by (auto simp: advance_stage_def bind_res_Inr)
  with Inr show ?thesis by (auto simp: expected_Inr caught_Inr split: if_split_asm)
qed

lemma protocol_stages:
  "stage g = 0 \<Longrightarrow> protocol env admitted g out inp \<longleftrightarrow> out @ pending g = HELLO \<and> inp = received g \<and> length inp < 2"
  "stage g = 1 \<Longrightarrow> protocol env admitted g out inp \<longleftrightarrow>
     (\<exists>auth. upstream_auth (username g) (password g) = Inr auth \<and> out @ pending g = HELLO @ auth)
     \<and> inp = CHOSEN @ received g \<and> length (received g) < 2"
  "stage g = 2 \<Longrightarrow> protocol env admitted g out inp \<longleftrightarrow> admitted (literal g) (target g) Tcp
     \<and> (\<exists>auth req. upstream_auth (username g) (password g) = Inr auth \<and> upstream_request 1 (literal g) (target g) = Inr req
          \<and> out @ pending g = HELLO @ auth @ req)
     \<and> inp = CHOSEN @ GRANTED @ received g \<and> (received g = [] \<or> upstream_reply env (received g) = Inl NeedMore)"
  by (simp_all add: protocol_def)

lemma advance_stage_last:
  assumes "stage g = 2" "advance_stage env admitted g = Inr (over, h)"
  shows "h = g" "\<not> over \<Longrightarrow> upstream_reply env (received g) = Inl NeedMore" "over \<Longrightarrow> \<exists>v. upstream_reply env (received g) = Inr v"
  using assms by (auto simp: advance_stage_def split: sum.split_asm werr.split_asm)

lemma advance_stage_protocol:
  assumes "protocol env admitted g out inp" "pending g = []" "advance_stage env admitted (g\<lparr>received := received g @ [c]\<rparr>) = Inr (over, h)"
  shows "same_target g h \<and> (\<not> over \<longrightarrow> protocol env admitted h out (inp @ [c]))
    \<and> (over \<longrightarrow> stage g = 2 \<and> (\<exists>v. upstream_reply env (received g @ [c]) = Inr v))"
proof -
  consider "stage g = 0" | "stage g = 1" | "stage g = 2" using assms(1) by (auto simp: protocol_def)
  then show ?thesis
  proof cases
    case 1
    with advance_stage_early [OF _ assms(3)] assms(1,2) show ?thesis by (auto simp: protocol_stages same_target_def)
  next
    case 2
    with advance_stage_early [OF _ assms(3)] assms(1,2) show ?thesis by (auto simp: protocol_stages same_target_def)
  next
    case 3
    with advance_stage_last [OF _ assms(3)] assms(1,2) show ?thesis by (auto simp: protocol_stages same_target_def)
  qed
qed

text \<open>What may have been sent once the gateway has said \<open>inp\<close>.\<close>

definition in_turn :: "(ipaddr \<Rightarrow> int \<Rightarrow> network \<Rightarrow> bool) \<Rightarrow> gateway \<Rightarrow> string \<Rightarrow> string \<Rightarrow> bool" where
  "in_turn admitted g out inp \<longleftrightarrow> (\<exists>auth req. prefix out (HELLO @ auth @ req)
     \<and> (length HELLO < length out \<longrightarrow> upstream_auth (username g) (password g) = Inr auth \<and> prefix CHOSEN inp)
     \<and> (length (HELLO @ auth) < length out \<longrightarrow>
          admitted (literal g) (target g) Tcp \<and> upstream_request 1 (literal g) (target g) = Inr req \<and> prefix (CHOSEN @ GRANTED) inp))"

definition finished :: "names \<Rightarrow> (ipaddr \<Rightarrow> int \<Rightarrow> network \<Rightarrow> bool) \<Rightarrow> gateway \<Rightarrow> string \<Rightarrow> string \<Rightarrow> bool" where
  "finished env admitted g out inp \<longleftrightarrow> admitted (literal g) (target g) Tcp \<and>
     (\<exists>auth req answer v. upstream_auth (username g) (password g) = Inr auth \<and> upstream_request 1 (literal g) (target g) = Inr req
        \<and> out = HELLO @ auth @ req \<and> inp = CHOSEN @ GRANTED @ answer \<and> upstream_reply env answer = Inr v \<and> fst v = length answer)"

lemma in_turn_same: "same_target g h \<Longrightarrow> in_turn admitted h out inp = in_turn admitted g out inp"
  and finished_same: "same_target g h \<Longrightarrow> finished env admitted h out inp = finished env admitted g out inp"
  by (simp_all add: in_turn_def finished_def same_target_def)

lemma same_target_trans: "same_target g h \<Longrightarrow> same_target h k \<Longrightarrow> same_target g k"
  by (simp add: same_target_def)

lemma protocol_in_turn:
  assumes "protocol env admitted g out inp"
  shows "in_turn admitted g out (inp @ extra)"
proof -
  consider "stage g = 0" | "stage g = 1" | "stage g = 2" using assms by (auto simp: protocol_def)
  then show ?thesis
  proof cases
    case 1
    with assms have "out @ pending g = HELLO" by (simp add: protocol_stages)
    then have "prefix out HELLO" by (metis prefixI)
    then show ?thesis unfolding in_turn_def by (metis append_Nil2 append.assoc leD prefix_length_le prefix_prefix le_add1 length_append order_trans)
  next
    case 2
    with assms obtain auth where "upstream_auth (username g) (password g) = Inr auth" "out @ pending g = HELLO @ auth" "inp = CHOSEN @ received g"
      by (auto simp: protocol_stages)
    moreover from this have "prefix out (HELLO @ auth @ [])" by (metis append_Nil2 prefixI)
    moreover from this have "\<not> length (HELLO @ auth) < length out" by (metis append_Nil2 leD prefix_length_le)
    ultimately show ?thesis unfolding in_turn_def by (metis append.assoc prefixI)
  next
    case 3
    with assms obtain auth req where "upstream_auth (username g) (password g) = Inr auth" "upstream_request 1 (literal g) (target g) = Inr req"
      "out @ pending g = HELLO @ auth @ req" "inp = CHOSEN @ GRANTED @ received g" "admitted (literal g) (target g) Tcp"
      by (auto simp: protocol_stages)
    then show ?thesis unfolding in_turn_def by (metis append.assoc prefixI)
  qed
qed

lemma reply_exact:
  assumes "upstream_reply env (d @ [c]) = Inr v" "d = [] \<or> upstream_reply env d = Inl NeedMore"
  shows "fst v = length (d @ [c])"
proof (rule ccontr)
  assume "fst v \<noteq> length (d @ [c])"
  with socks_reply.within [OF assms(1)] have "fst v \<le> length d" by simp
  with socks_reply.decided [OF assms(1), of d] have "upstream_reply env d = Inr v" by simp
  with assms(2) show False by (auto simp: upstream_reply_def need_cases)
qed

lemma protocol_finished:
  assumes "protocol env admitted g out inp" "pending g = []" "stage g = 2" "upstream_reply env (received g @ [c]) = Inr v"
  shows "finished env admitted g out (inp @ [c])"
proof -
  from assms reply_exact [OF assms(4)] have "fst v = length (received g @ [c])" by (simp add: protocol_stages)
  with assms show ?thesis unfolding finished_def protocol_stages(3) [OF assms(3)] by (cases v) auto
qed

lemma advance_protocol:
  assumes "protocol env admitted g out inp" "advance env admitted i r w g = (res, sent, got)"
  shows "in_turn admitted g (out @ sent) (inp @ got)"
    and "res = Inr (False, h) \<Longrightarrow> same_target g h \<and> protocol env admitted h (out @ sent) (inp @ got)"
    and "res = Inr (True, h) \<Longrightarrow> finished env admitted g (out @ sent) (inp @ got)"
proof -
  have "in_turn admitted g (out @ sent) (inp @ got)
    \<and> (res = Inr (False, h) \<longrightarrow> same_target g h \<and> protocol env admitted h (out @ sent) (inp @ got))
    \<and> (res = Inr (True, h) \<longrightarrow> finished env admitted g (out @ sent) (inp @ got))"
  proof (cases "advance_write i w g")
    case (Inl u)
    with assms show ?thesis using protocol_in_turn [OF assms(1), of "[]"] by (auto simp: advance_def)
  next
    case (Inr x)
    obtain go k sent' where x: "x = (go, k, sent')" by (cases x)
    note kept = advance_write_keeps [OF Inr [unfolded x]]
    have p: "protocol env admitted k (out @ sent') inp" by (rule protocol_sent [OF assms(1) kept])
    have turn: "in_turn admitted g (out @ sent') (inp @ e)" for e using protocol_in_turn [OF p] in_turn_same [OF kept(4)] by blast
    show ?thesis
    proof (cases "\<not> go \<or> \<not> r \<or> writing k")
      case True
      with assms(2) Inr x show ?thesis using p kept(4) turn [of "[]"] by (auto simp: advance_def)
    next
      case False
      then have idle: "pending k = []" by (simp add: writing_def)
      show ?thesis
      proof (cases "\<exists>c cs. recvs i = Got (c # cs) \<and> \<not> MAX_HANDSHAKE \<le> length (received k)")
        case True
        then obtain c cs where "recvs i = Got (c # cs)" "\<not> MAX_HANDSHAKE \<le> length (received k)" by blast
        with False Inr x assms(2) have e: "sent = sent'" "got = [c]" "res = advance_stage env admitted (k\<lparr>received := received k @ [c]\<rparr>)"
          by (auto simp: advance_def)
        have st: "same_target k h' \<and> (\<not> over \<longrightarrow> protocol env admitted h' (out @ sent') (inp @ [c]))
            \<and> (over \<longrightarrow> stage k = 2 \<and> (\<exists>v. upstream_reply env (received k @ [c]) = Inr v))" if "res = Inr (over, h')" for over h'
          by (rule advance_stage_protocol [OF p idle]) (use that e in simp)
        have "finished env admitted g (out @ sent') (inp @ [c])" if "res = Inr (True, h)"
          using st [OF that] protocol_finished [OF p idle] finished_same [OF kept(4)] by blast
        moreover have "same_target g h \<and> protocol env admitted h (out @ sent') (inp @ [c])" if "res = Inr (False, h)"
          using st [OF that] same_target_trans [OF kept(4)] by blast
        ultimately show ?thesis unfolding e(1,2) using turn by blast
      next
        case none: False
        with False Inr x assms(2) show ?thesis using p kept(4) turn [of "[]"] turn [of got]
          by (auto simp: advance_def neq_Nil_conv split: recv_result.split_asm if_split_asm)
      qed
    qed
  qed
  then show "in_turn admitted g (out @ sent) (inp @ got)"
    "res = Inr (False, h) \<Longrightarrow> same_target g h \<and> protocol env admitted h (out @ sent) (inp @ got)"
    "res = Inr (True, h) \<Longrightarrow> finished env admitted g (out @ sent) (inp @ got)" by blast+
qed

lemma session_protocol:
  assumes "protocol env admitted g out inp" "session env admitted g calls = (sent, got, r)"
  shows "in_turn admitted g (out @ sent) (inp @ got) \<and> (r = Some True \<longrightarrow> finished env admitted g (out @ sent) (inp @ got))"
  using assms
proof (induction calls arbitrary: g out inp sent got)
  case Nil
  then show ?case using protocol_in_turn [of env admitted g out inp "[]"] by simp
next
  case (Cons call calls)
  obtain i rd wr where call: "call = (i, rd, wr)" by (cases call)
  obtain res s t where a: "advance env admitted i rd wr g = (res, s, t)" by (cases "advance env admitted i rd wr g")
  note step = advance_protocol [OF Cons.prems(1) a]
  show ?case
  proof (cases res)
    case (Inl u)
    with Cons.prems(2) call a step(1) show ?thesis by auto
  next
    case (Inr x)
    obtain over h where x: "x = (over, h)" by (cases x)
    show ?thesis
    proof (cases over)
      case True
      with Cons.prems(2) call a step(1) step(3) Inr x show ?thesis by simp
    next
      case False
      obtain s' t' where rest: "session env admitted h calls = (s', t', r)" "sent = s @ s'" "got = t @ t'"
        using Cons.prems(2) call a Inr x False by (auto split: prod.split_asm)
      from step(2) [of h] Inr x False have h: "same_target g h" "protocol env admitted h (out @ s) (inp @ t)" by simp_all
      from Cons.IH [OF h(2) rest(1)] show ?thesis unfolding rest(2,3) in_turn_same [OF h(1)] finished_same [OF h(1)] by simp
    qed
  qed
qed

text \<open>
  C9: The connection to a gateway speaks in turn. Whatever the kernel answers to the nonblocking calls,
  the bytes sent to the gateway are a prefix of the greeting, the credentials and the CONNECT request for the literal
  address, in this order; credentials are sent only after the gateway has chosen password authentication, and the request only
  after it has granted access and the policy has admitted the literal address. When the connection is handed to the relay,
  all three were sent completely, the gateway answered with a successful reply, and not one byte after that reply was taken from the stream.
\<close>

theorem gateway_handshake:
  assumes "session env admitted (open_gateway user key a port c) calls = (out, inp, result)"
  shows "(\<exists>auth req. prefix out (HELLO @ auth @ req)
      \<and> (length HELLO < length out \<longrightarrow> upstream_auth user key = Inr auth \<and> prefix CHOSEN inp)
      \<and> (length (HELLO @ auth) < length out \<longrightarrow> admitted a port Tcp \<and> upstream_request 1 a port = Inr req \<and> prefix (CHOSEN @ GRANTED) inp))
    \<and> (result = Some True \<longrightarrow> admitted a port Tcp
      \<and> (\<exists>auth req answer v. upstream_auth user key = Inr auth \<and> upstream_request 1 a port = Inr req
           \<and> out = HELLO @ auth @ req \<and> inp = CHOSEN @ GRANTED @ answer \<and> upstream_reply env answer = Inr v \<and> fst v = length answer))"
proof -
  have "protocol env admitted (open_gateway user key a port c) [] []" by (simp add: protocol_def open_gateway_def)
  from session_protocol [OF this assms] show ?thesis by (simp add: in_turn_def finished_def open_gateway_def)
qed

definition sample_write :: "nat \<Rightarrow> call" where
  "sample_write n = (\<lparr>ready = True, so_error = False, sends = Sent n, recvs = RecvBlocked\<rparr>, False, True)"

definition sample_read :: "char \<Rightarrow> call" where
  "sample_read c = (\<lparr>ready = True, so_error = False, sends = SendBlocked, recvs = Got [c]\<rparr>, True, False)"

definition sample_calls :: "call list" where
  "sample_calls = [sample_write 3, sample_read (CHR 0x05), sample_read (CHR 0x02), sample_write 5, sample_read (CHR 0x01), sample_read (CHR 0x00),
     sample_write 10] @ map sample_read [CHR 0x05, CHR 0x00, CHR 0x00, CHR 0x01, CHR 0x00, CHR 0x00, CHR 0x00, CHR 0x00, CHR 0x00, CHR 0x00]"

lemma sample_admitted: "allows sample_policy (V4 (v4 8 8 8 8)) 443 Tcp"
  by (simp add: allows_def sample_policy_def management_def unmapped_def denied_private private_address_def private_v4_def quad_def v4_def)

lemma sample_request:
  "upstream_request (Suc 0) (V4 (v4 8 8 8 8)) 443 = Inr ([CHR 0x05, char_of (Suc 0), CHR 0x00, CHR 0x01] @ packed 4 (unat (v4 8 8 8 8)) @ packed 2 443)"
  by (simp add: upstream_request_def encoded_address_def unmapped_def)

lemma sample_session:
  "\<exists>out inp. session sample_names (allows sample_policy) (open_gateway ''u'' ''k'' (V4 (v4 8 8 8 8)) 443 False) sample_calls = (out, inp, Some True)"
  by (simp add: sample_calls_def sample_write_def sample_read_def open_gateway_def advance_def advance_write_def advance_stage_def writing_def
      refuse_if_eval HELLO_def CHOSEN_def GRANTED_def expected_def upstream_auth_def caught_def MAX_HANDSHAKE_def sample_admitted sample_request
      upstream_reply_def address_def need_cases)

theorem gateway_handshake_witness:
  "\<exists>out inp. session sample_names (allows sample_policy) (open_gateway ''u'' ''k'' (V4 (v4 8 8 8 8)) 443 False) sample_calls = (out, inp, Some True)
     \<and> (\<exists>auth req. upstream_auth ''u'' ''k'' = Inr auth \<and> upstream_request 1 (V4 (v4 8 8 8 8)) 443 = Inr req \<and> out = HELLO @ auth @ req)
     \<and> prefix (CHOSEN @ GRANTED) inp"
proof -
  obtain out inp where run: "session sample_names (allows sample_policy) (open_gateway ''u'' ''k'' (V4 (v4 8 8 8 8)) 443 False) sample_calls = (out, inp, Some True)"
    using sample_session by blast
  from gateway_handshake [OF run] run show ?thesis by (auto simp: prefix_def)
qed

end
