(* ===== verification/EgressTraffic.thy ===== *)
theory EgressTraffic
  imports EgressSessions
begin

text \<open>
  The traffic of the egress normalizer (\<^verbatim>\<open>scripts/transport_egress_normalizer.py\<close>): leases of ports and slots, the race
  between candidate addresses, the client handshake, the stream relay and the UDP association. One pass of a loop is a
  function of the state and of what the kernel and the clock answer in that pass.
\<close>

section \<open>Leases\<close>

text \<open>
  The contract of everything that is borrowed and returned: a pool either refuses and stays as it is, or gives away one of
  its items, and takes back what is returned.
\<close>

locale lease =
  fixes borrow :: "'k \<Rightarrow> 's \<Rightarrow> ('e + 'a) \<times> 's" and give_back :: "'a \<Rightarrow> 's \<Rightarrow> 's" and free :: "'s \<Rightarrow> 'a multiset"
  assumes borrowed: "borrow k s = (Inr x, t) \<Longrightarrow> free s = add_mset x (free t)"
    and refused: "borrow k s = (Inl e, t) \<Longrightarrow> free t = free s"
    and given_back: "free (give_back x s) = add_mset x (free s)"

text \<open>Any interleaving of borrowers: \<open>Inl k\<close> borrows in the environment \<open>k\<close>, \<open>Inr i\<close> returns the \<open>i\<close>-th item held.\<close>

fun leases :: "('k \<Rightarrow> 's \<Rightarrow> ('e + 'a) \<times> 's) \<Rightarrow> ('a \<Rightarrow> 's \<Rightarrow> 's) \<Rightarrow> ('k + nat) list \<Rightarrow> 's \<Rightarrow> 'a list \<Rightarrow> 's \<times> 'a list" where
  "leases borrow give_back [] s held = (s, held)"
| "leases borrow give_back (Inl k # ops) s held = (case borrow k s of
     (Inr x, t) \<Rightarrow> leases borrow give_back ops t (held @ [x])
   | (Inl _, t) \<Rightarrow> leases borrow give_back ops t held)"
| "leases borrow give_back (Inr i # ops) s held =
     (if i < length held then leases borrow give_back ops (give_back (held ! i) s) (take i held @ drop (Suc i) held)
      else leases borrow give_back ops s held)"

context lease
begin

lemma conserved: "leases borrow give_back ops s held = (t, held') \<Longrightarrow> free t + mset held' = free s + mset held"
proof (induction ops arbitrary: s held)
  case (Cons op ops)
  show ?case
  proof (cases op)
    case (Inl k)
    obtain r u where r: "borrow k s = (r, u)" by (cases "borrow k s")
    with Cons Inl show ?thesis by (cases r) (auto dest: borrowed refused)
  next
    case (Inr i)
    show ?thesis
    proof (cases "i < length held")
      case True
      then have "mset held = add_mset (held ! i) (mset (take i held @ drop (Suc i) held))"
        by (metis id_take_nth_drop mset.simps(2) mset_append union_mset_add_mset_right)
      with True Cons Inr show ?thesis by (simp add: given_back)
    qed (use Cons Inr in simp)
  qed
qed simp

lemma none_lost: "leases borrow give_back ops s [] = (t, held) \<Longrightarrow> free t + mset held = free s"
  using conserved [of ops s "[]"] by simp

lemma exclusive:
  assumes "leases borrow give_back ops s [] = (t, held)" "free s = mset xs" "distinct xs"
  shows "distinct held \<and> set held \<inter> set_mset (free t) = {} \<and> set held \<union> set_mset (free t) = set xs"
proof -
  obtain ys where ys: "mset ys = free t" using ex_mset by blast
  then have "mset (ys @ held) = mset xs" using none_lost [OF assms(1)] assms(2) by simp
  with assms(3) have "distinct (ys @ held)" "set (ys @ held) = set xs" by (metis mset_eq_imp_distinct_iff, metis mset_eq_setD)
  moreover have "set_mset (free t) = set ys" using ys by (metis set_mset_mset)
  ultimately show ?thesis by auto
qed

end

section \<open>Port pools and slots\<close>

lemma acquire_from_rotation:
  assumes "n \<le> length ps"
  shows "case acquire_from binds n ps of
      (Inr p, qs) \<Rightarrow> binds p \<and> mset ps = add_mset p (mset qs)
    | (Inl _, qs) \<Rightarrow> mset qs = mset ps \<and> (\<forall>p \<in> set (take n ps). \<not> binds p)"
  using assms
proof (induction n arbitrary: ps)
  case (Suc n)
  then obtain p qs where ps: "ps = p # qs" by (cases ps) auto
  show ?case
  proof (cases "binds p")
    case False
    from Suc ps have "n \<le> length (qs @ [p])" by simp
    from Suc.IH [OF this] Suc.prems ps False show ?thesis by (auto split: prod.splits sum.splits)
  qed (simp add: ps)
qed simp

lemma acquire_spec:
  "case acquire binds ps of
      (Inr p, qs) \<Rightarrow> binds p \<and> mset ps = add_mset p (mset qs)
    | (Inl _, qs) \<Rightarrow> mset qs = mset ps \<and> (\<forall>p \<in> set ps. \<not> binds p)"
  using acquire_from_rotation [of "length ps" ps binds, OF order_refl] unfolding acquire_def take_all [OF order_refl] .

interpretation ports: lease acquire release mset
proof
  show "mset s = add_mset x (mset t)" if "acquire k s = (Inr x, t)" for k s x t using acquire_spec [where binds = k and ps = s] that by simp
  show "mset t = mset s" if "acquire k s = (Inl e, t)" for k s e t using acquire_spec [where binds = k and ps = s] that by simp
  show "mset (release x s) = add_mset x (mset s)" for x s by (simp add: release_def)
qed

text \<open>A \<open>BoundedSemaphore\<close> without blocking: the number of free slots.\<close>

definition take_slot :: "unit \<Rightarrow> nat \<Rightarrow> (nerr + unit) \<times> nat" where
  "take_slot k n = (if n = 0 then (Inl (NormalizerError ''association-capacity''), 0) else (Inr (), n - 1))"

definition free_slot :: "unit \<Rightarrow> nat \<Rightarrow> nat" where
  "free_slot u n = n + 1"

interpretation slots: lease take_slot free_slot "\<lambda>n. replicate_mset n ()"
  by unfold_locales (auto simp: take_slot_def free_slot_def gr0_conv_Suc split: if_split_asm)

definition pool_of :: "row \<Rightarrow> int list" where
  \<comment> \<open>the pool that \<open>Normalizer.__init__\<close> builds for a backend or a listener\<close>
  "pool_of r = port_pool (int_of (fst (pool r))) (int_of (snd (pool r)))"

lemma pool_of_ports: "set (pool_of r) = ports r" "distinct (pool_of r)"
  by (simp_all add: pool_of_def port_pool_def ports_def)


lemma sample_lease:
  "leases acquire release [Inl (\<lambda>_. True)] (pool_of ((backends_of sample_config @ listeners_of sample_config) ! 0)) [] = ([2001..2099], [2000])"
  "leases acquire release [Inl (\<lambda>_. True)] (pool_of ((backends_of sample_config @ listeners_of sample_config) ! 1)) [] = ([3001..3099], [3000])"
  by (simp_all add: backends_of_def listeners_of_def sample_config_def backend_row_def listener_row_def sample_backend_def sample_listener_def
      pool_of_def port_pool_def acquire_def upto_rec1 [of 2000] upto_rec1 [of 3000])


section \<open>The stream relay\<close>

definition MAX_STREAM_BUFFER :: nat where
  "MAX_STREAM_BUFFER = 65536"

datatype side = Client | Backend

fun peer :: "side \<Rightarrow> side" where
  "peer Client = Backend"
| "peer Backend = Client"

text \<open>The calls a relay makes on its two sockets, in order: bytes sent to a side, bytes received from it, its end of stream, its shutdown.\<close>

datatype socket_call = Wrote side string | Received side string | Ended side | ShutDown side

record relay =
  buffers :: "side \<Rightarrow> string"
  read_open :: "side list"
  pending_fin :: "side list"
  active :: rat
  socket_calls :: "socket_call list"

record relay_io =
  halted :: bool
  idle_now :: rat
  ready_to_write :: "side list"
  ready_to_read :: "side list"
  send_answer :: "side \<Rightarrow> send_result"
  recv_answer :: "side \<Rightarrow> recv_result"
  shutdown_fails :: bool
  later :: rat

definition start_relay :: "rat \<Rightarrow> relay" where
  "start_relay now = \<lparr>buffers = (\<lambda>_. []), read_open = [Client, Backend], pending_fin = [], active = now, socket_calls = []\<rparr>"

definition note_call :: "socket_call \<Rightarrow> relay \<Rightarrow> relay" where
  "note_call c r = r\<lparr>socket_calls := socket_calls r @ [c]\<rparr>"

fun relay_writes :: "relay_io \<Rightarrow> side list \<Rightarrow> relay \<Rightarrow> bool \<times> relay" where
  \<comment> \<open>the flag tells whether the relay goes on\<close>
  "relay_writes i [] r = (True, r)"
| "relay_writes i (s # ss) r = (case send_answer i s of
     SendBlocked \<Rightarrow> relay_writes i ss r
   | SendBroken \<Rightarrow> (False, r)
   | Sent n \<Rightarrow>
       if n = 0 then (False, r)
       else relay_writes i ss (note_call (Wrote s (take n (buffers r s))) (r\<lparr>buffers := (buffers r)(s := drop n (buffers r s)), active := later i\<rparr>)))"

fun relay_reads :: "relay_io \<Rightarrow> side list \<Rightarrow> relay \<Rightarrow> bool \<times> relay" where
  "relay_reads i [] r = (True, r)"
| "relay_reads i (s # ss) r = (case recv_answer i s of
     RecvBlocked \<Rightarrow> relay_reads i ss r
   | RecvBroken \<Rightarrow> (False, r)
   | Got d \<Rightarrow>
       let bytes = take (min 16384 (MAX_STREAM_BUFFER - length (buffers r (peer s)))) d in
       if bytes = [] then
         relay_reads i ss (note_call (Ended s) (r\<lparr>read_open := filter (\<lambda>t. t \<noteq> s) (read_open r), pending_fin := peer s # filter (\<lambda>t. t \<noteq> peer s) (pending_fin r)\<rparr>))
       else
         relay_reads i ss (note_call (Received s bytes) (r\<lparr>buffers := (buffers r)(peer s := buffers r (peer s) @ bytes), active := later i\<rparr>)))"

fun relay_fins :: "relay_io \<Rightarrow> side list \<Rightarrow> relay \<Rightarrow> bool \<times> relay" where
  "relay_fins i [] r = (True, r)"
| "relay_fins i (s # ss) r =
     (if buffers r s \<noteq> [] then relay_fins i ss r
      else if shutdown_fails i then (False, r)
      else relay_fins i ss (note_call (ShutDown s) (r\<lparr>pending_fin := filter (\<lambda>t. t \<noteq> s) (pending_fin r)\<rparr>)))"

definition relay_pass :: "rat \<Rightarrow> relay_io \<Rightarrow> relay \<Rightarrow> bool \<times> relay" where
  "relay_pass idle_seconds i r =
     (if halted i \<or> idle_seconds \<le> idle_now i - active r then (False, r)
      else
        let readers = filter (\<lambda>s. length (buffers r (peer s)) < MAX_STREAM_BUFFER) (read_open r);
            writers = filter (\<lambda>s. buffers r s \<noteq> []) [Client, Backend] in
        if readers = [] \<and> writers = [] then (False, r)
        else (case relay_writes i (filter (List.member writers) (remdups (ready_to_write i))) r of
            (False, r) \<Rightarrow> (False, r)
          | (True, r) \<Rightarrow> (case relay_reads i (filter (List.member readers) (remdups (ready_to_read i))) r of
              (False, r) \<Rightarrow> (False, r)
            | (True, r) \<Rightarrow> relay_fins i (pending_fin r) r)))"

fun relay_run :: "rat \<Rightarrow> relay_io list \<Rightarrow> relay \<Rightarrow> relay" where
  "relay_run idle_seconds [] r = r"
| "relay_run idle_seconds (i # passes) r = (case relay_pass idle_seconds i r of (False, r) \<Rightarrow> r | (True, r) \<Rightarrow> relay_run idle_seconds passes r)"

fun written :: "side \<Rightarrow> socket_call list \<Rightarrow> string" where
  "written s [] = []"
| "written s (c # cs) = (case c of Wrote t d \<Rightarrow> (if t = s then d else []) | _ \<Rightarrow> []) @ written s cs"

fun taken :: "side \<Rightarrow> socket_call list \<Rightarrow> string" where
  "taken s [] = []"
| "taken s (c # cs) = (case c of Received t d \<Rightarrow> (if t = s then d else []) | _ \<Rightarrow> []) @ taken s cs"

lemma written_append [simp]: "written s (cs @ ds) = written s cs @ written s ds"
  and taken_append [simp]: "taken s (cs @ ds) = taken s cs @ taken s ds"
  by (induction cs) simp_all

lemma peer_simps [simp]: "peer (peer s) = s" "peer s \<noteq> s" "s \<noteq> peer s" "peer s = peer t \<longleftrightarrow> s = t"
  by (cases s; cases t; simp)+

definition side_ok :: "relay \<Rightarrow> side \<Rightarrow> bool" where
  "side_ok r s \<longleftrightarrow> written s (socket_calls r) @ buffers r s = taken (peer s) (socket_calls r) \<and> length (buffers r s) \<le> MAX_STREAM_BUFFER \<and> distinct (pending_fin r)
     \<and> (s \<in> set (pending_fin r) \<longrightarrow> Ended (peer s) \<in> set (socket_calls r))
     \<and> (Ended (peer s) \<in> set (socket_calls r) \<longrightarrow> peer s \<notin> set (read_open r))
     \<and> (ShutDown s \<in> set (socket_calls r) \<longrightarrow> Ended (peer s) \<in> set (socket_calls r) \<and> buffers r s = [])"

lemma side_ok_write:
  assumes "side_ok r t"
  shows "side_ok (note_call (Wrote s (take n (buffers r s))) (r\<lparr>buffers := (buffers r)(s := drop n (buffers r s)), active := now\<rparr>)) t"
proof (cases "t = s")
  case True
  have "length (drop n (buffers r s)) \<le> MAX_STREAM_BUFFER" if "length (buffers r s) \<le> MAX_STREAM_BUFFER" using that by simp
  with assms True show ?thesis by (simp add: side_ok_def note_call_def)
next
  case False
  with assms show ?thesis by (simp add: side_ok_def note_call_def)
qed

lemma side_ok_read:
  assumes "side_ok r t" "s \<in> set (read_open r)" "length d \<le> MAX_STREAM_BUFFER - length (buffers r (peer s))"
  shows "side_ok (note_call (Received s d) (r\<lparr>buffers := (buffers r)(peer s := buffers r (peer s) @ d), active := now\<rparr>)) t"
proof (cases "t = peer s")
  case True
  with assms have "Ended s \<notin> set (socket_calls r)" by (auto simp: side_ok_def)
  with assms True show ?thesis by (auto simp: side_ok_def note_call_def append_assoc [symmetric] simp del: append_assoc)
next
  case False
  then have "peer t \<noteq> s" by auto
  with assms False show ?thesis by (simp add: side_ok_def note_call_def)
qed

lemma side_ok_end:
  assumes "side_ok r t"
  shows "side_ok (note_call (Ended s) (r\<lparr>read_open := filter (\<lambda>t. t \<noteq> s) (read_open r), pending_fin := peer s # filter (\<lambda>t. t \<noteq> peer s) (pending_fin r)\<rparr>)) t"
  using assms by (auto simp: side_ok_def note_call_def)

lemma side_ok_shut:
  assumes "side_ok r t" "buffers r s = []" "s \<in> set (pending_fin r)" "side_ok r s"
  shows "side_ok (note_call (ShutDown s) (r\<lparr>pending_fin := filter (\<lambda>t. t \<noteq> s) (pending_fin r)\<rparr>)) t"
  using assms by (auto simp: side_ok_def note_call_def)

lemma relay_writes_ok:
  assumes "\<forall>t. side_ok r t"
  shows "(\<forall>t. side_ok (snd (relay_writes i ss r)) t) \<and> read_open (snd (relay_writes i ss r)) = read_open r
    \<and> (\<forall>t. length (buffers (snd (relay_writes i ss r)) t) \<le> length (buffers r t))
    \<and> (\<forall>t. Ended t \<in> set (socket_calls (snd (relay_writes i ss r))) \<longrightarrow> Ended t \<in> set (socket_calls r))"
  using assms
proof (induction i ss r rule: relay_writes.induct)
  case (2 i s ss r)
  show ?case
  proof (cases "send_answer i s")
    case (Sent n)
    let ?r = "note_call (Wrote s (take n (buffers r s))) (r\<lparr>buffers := (buffers r)(s := drop n (buffers r s)), active := later i\<rparr>)"
    have ok: "\<forall>t. side_ok ?r t" using side_ok_write 2(3) by blast
    have same: "read_open ?r = read_open r" "length (buffers ?r t) \<le> length (buffers r t)" "Ended t \<in> set (socket_calls ?r) \<longleftrightarrow> Ended t \<in> set (socket_calls r)" for t
      by (simp_all add: note_call_def)
    show ?thesis
    proof (cases "n = 0")
      case False
      have step: "relay_writes i (s # ss) r = relay_writes i ss ?r" using Sent False by simp
      note later = 2(2) [OF Sent False ok]
      have "length (buffers (snd (relay_writes i ss ?r)) t) \<le> length (buffers r t)" for t using later same(2) order_trans by blast
      then show ?thesis unfolding step using later same(1,3) by simp
    qed (use Sent 2(3) in simp)
  qed (use 2 in simp_all)
qed simp

lemma relay_reads_ok:
  assumes "\<forall>t. side_ok r t" "distinct ss" "\<forall>s \<in> set ss. s \<in> set (read_open r) \<and> length (buffers r (peer s)) < MAX_STREAM_BUFFER"
  shows "(\<forall>t. side_ok (snd (relay_reads i ss r)) t)
    \<and> (\<forall>t. Ended t \<in> set (socket_calls (snd (relay_reads i ss r))) \<longrightarrow> Ended t \<in> set (socket_calls r) \<or> recv_answer i t = Got [])"
  using assms
proof (induction i ss r rule: relay_reads.induct)
  case (2 i s ss r)
  show ?case
  proof (cases "recv_answer i s")
    case (Got d)
    let ?d = "take (min 16384 (MAX_STREAM_BUFFER - length (buffers r (peer s)))) d"
    show ?thesis
    proof (cases "?d = []")
      case True
      let ?r = "note_call (Ended s) (r\<lparr>read_open := filter (\<lambda>t. t \<noteq> s) (read_open r), pending_fin := peer s # filter (\<lambda>t. t \<noteq> peer s) (pending_fin r)\<rparr>)"
      have "d = []" using True 2(6) by auto
      have "\<forall>t. side_ok ?r t" using side_ok_end 2(4) by blast
      moreover have "\<forall>s \<in> set ss. s \<in> set (read_open ?r) \<and> length (buffers ?r (peer s)) < MAX_STREAM_BUFFER" using 2(5,6) by (auto simp: note_call_def)
      moreover have "relay_reads i (s # ss) r = relay_reads i ss ?r" using Got True by (simp add: Let_def)
      ultimately show ?thesis using 2(2) [OF Got refl True] 2(5) Got \<open>d = []\<close> by (auto simp: note_call_def)
    next
      case False
      let ?r = "note_call (Received s ?d) (r\<lparr>buffers := (buffers r)(peer s := buffers r (peer s) @ ?d), active := later i\<rparr>)"
      have "\<forall>t. side_ok ?r t" using side_ok_read [of r _ s ?d "later i"] 2(4,6) by auto
      moreover have "\<forall>s \<in> set ss. s \<in> set (read_open ?r) \<and> length (buffers ?r (peer s)) < MAX_STREAM_BUFFER" using 2(5,6) by (auto simp: note_call_def)
      moreover have "relay_reads i (s # ss) r = relay_reads i ss ?r"
        unfolding relay_reads.simps Got recv_result.case Let_def if_not_P [OF False] ..
      ultimately show ?thesis using 2(3) [OF Got refl False] 2(5) by (auto simp: note_call_def)
    qed
  qed (use 2 in simp_all)
qed simp

lemma relay_fins_ok:
  assumes "\<forall>t. side_ok r t" "distinct ss" "set ss \<subseteq> set (pending_fin r)"
  shows "(\<forall>t. side_ok (snd (relay_fins i ss r)) t)
    \<and> (\<forall>t. Ended t \<in> set (socket_calls (snd (relay_fins i ss r))) \<longrightarrow> Ended t \<in> set (socket_calls r))"
  using assms
proof (induction i ss r rule: relay_fins.induct)
  case (2 i s ss r)
  let ?r = "note_call (ShutDown s) (r\<lparr>pending_fin := filter (\<lambda>t. t \<noteq> s) (pending_fin r)\<rparr>)"
  show ?case
  proof (cases "buffers r s \<noteq> [] \<or> shutdown_fails i")
    case True
    with 2 show ?thesis by auto
  next
    case False
    have ok: "\<forall>t. side_ok ?r t" using side_ok_shut [of r _ s] 2(3,5) False by auto
    have sub: "set ss \<subseteq> set (pending_fin ?r)" using 2(4,5) by (auto simp: note_call_def)
    from 2(2) [OF _ _ ok _ sub] False 2(4) show ?thesis by (auto simp: note_call_def)
  qed
qed simp

lemma relay_pass_ok:
  assumes "\<forall>t. side_ok r t"
  shows "(\<forall>t. side_ok (snd (relay_pass idle i r)) t)
    \<and> (\<forall>t. Ended t \<in> set (socket_calls (snd (relay_pass idle i r))) \<longrightarrow> Ended t \<in> set (socket_calls r) \<or> recv_answer i t = Got [])"
proof -
  define readers where "readers = filter (\<lambda>s. length (buffers r (peer s)) < MAX_STREAM_BUFFER) (read_open r)"
  define writers where "writers = filter (\<lambda>s. buffers r s \<noteq> []) [Client, Backend]"
  define ws rs where "ws = filter (List.member writers) (remdups (ready_to_write i))" and "rs = filter (List.member readers) (remdups (ready_to_read i))"
  obtain ok1 r1 where w: "relay_writes i ws r = (ok1, r1)" by (metis surj_pair)
  note one = relay_writes_ok [OF assms(1), where i = i and ss = ws, unfolded w snd_conv]
  obtain ok2 r2 where d: "relay_reads i rs r1 = (ok2, r2)" by (metis surj_pair)
  have "length (buffers r1 t) < MAX_STREAM_BUFFER" if "length (buffers r t) < MAX_STREAM_BUFFER" for t using one that by (metis le_less_trans)
  then have "\<forall>s \<in> set rs. s \<in> set (read_open r1) \<and> length (buffers r1 (peer s)) < MAX_STREAM_BUFFER"
    using one by (auto simp: rs_def readers_def)
  from relay_reads_ok [OF _ _ this, where i = i, unfolded d snd_conv] one
  have two: "(\<forall>t. side_ok r2 t) \<and> (\<forall>t. Ended t \<in> set (socket_calls r2) \<longrightarrow> Ended t \<in> set (socket_calls r) \<or> recv_answer i t = Got [])"
    by (auto simp: rs_def)
  have "distinct (pending_fin r2)" using two by (auto simp: side_ok_def)
  from relay_fins_ok [OF _ this order_refl, where i = i] two
  have three: "(\<forall>t. side_ok (snd (relay_fins i (pending_fin r2) r2)) t)
    \<and> (\<forall>t. Ended t \<in> set (socket_calls (snd (relay_fins i (pending_fin r2) r2))) \<longrightarrow> Ended t \<in> set (socket_calls r2))" by blast
  have "relay_pass idle i r = (if halted i \<or> idle \<le> idle_now i - active r then (False, r) else if readers = [] \<and> writers = [] then (False, r)
      else (case relay_writes i ws r of (False, r) \<Rightarrow> (False, r)
        | (True, r) \<Rightarrow> (case relay_reads i rs r of (False, r) \<Rightarrow> (False, r) | (True, r) \<Rightarrow> relay_fins i (pending_fin r) r)))"
    unfolding relay_pass_def Let_def ws_def rs_def readers_def writers_def ..
  then have "snd (relay_pass idle i r) \<in> {r, r1, r2, snd (relay_fins i (pending_fin r2) r2)}" by (cases ok1; cases ok2) (simp_all add: w d)
  then show ?thesis using assms one two three by auto
qed

lemma relay_run_ok:
  assumes "\<forall>t. side_ok r t"
  shows "(\<forall>t. side_ok (relay_run idle passes r) t)
    \<and> (\<forall>t. Ended t \<in> set (socket_calls (relay_run idle passes r)) \<longrightarrow> Ended t \<in> set (socket_calls r) \<or> (\<exists>i \<in> set passes. recv_answer i t = Got []))"
  using assms
proof (induction passes arbitrary: r)
  case (Cons i passes)
  obtain ok r1 where p: "relay_pass idle i r = (ok, r1)" by (metis surj_pair)
  note one = relay_pass_ok [OF Cons.prems, of idle i, unfolded p snd_conv]
  then have "\<forall>t. side_ok r1 t" by blast
  with Cons.IH [OF this] one show ?case by (cases ok) (auto simp: p)
qed simp

text \<open>
  C11: The relay loses, invents and reorders nothing. After any number of passes, with any readiness, partial
  writes, short reads and errors, the bytes sent to each side followed by those still buffered for it are exactly the bytes received from
  the other side, in order; no buffer holds more than 65536 bytes; and a side is shut down for writing only after the other side has ended its stream
  and every byte received from it has been sent.
\<close>

theorem relay_fifo:
  assumes "r = relay_run idle_seconds passes (start_relay now)"
  shows "written s (socket_calls r) @ buffers r s = taken (peer s) (socket_calls r) \<and> length (buffers r s) \<le> 65536
    \<and> (ShutDown s \<in> set (socket_calls r) \<longrightarrow>
        (\<exists>i \<in> set passes. recv_answer i (peer s) = Got []) \<and> written s (socket_calls r) = taken (peer s) (socket_calls r))"
proof -
  have "\<forall>t. side_ok (start_relay now) t" by (simp add: side_ok_def start_relay_def)
  from relay_run_ok [OF this, of idle_seconds passes] show ?thesis
    unfolding assms [symmetric] by (auto simp: side_ok_def MAX_STREAM_BUFFER_def start_relay_def)
qed

definition sample_relay_io :: "string \<Rightarrow> relay_io" where
  "sample_relay_io d = \<lparr>halted = False, idle_now = 0, ready_to_write = [Backend], ready_to_read = [Client], send_answer = (\<lambda>_. Sent 2),
     recv_answer = (\<lambda>_. Got d), shutdown_fails = False, later = 0\<rparr>"

theorem relay_fifo_witness:
  "\<exists>r. r = relay_run 60 [sample_relay_io ''abc'', sample_relay_io ''de'', sample_relay_io [], sample_relay_io []] (start_relay 0)
     \<and> ShutDown Backend \<in> set (socket_calls r) \<and> written Backend (socket_calls r) = ''abcde'' \<and> taken Client (socket_calls r) = ''abcde''"
proof -
  let ?r = "relay_run 60 [sample_relay_io ''abc'', sample_relay_io ''de'', sample_relay_io [], sample_relay_io []] (start_relay 0)"
  have "ShutDown Backend \<in> set (socket_calls ?r) \<and> taken Client (socket_calls ?r) = ''abcde''"
    by (simp add: sample_relay_io_def start_relay_def relay_pass_def MAX_STREAM_BUFFER_def note_call_def Let_def)
  with relay_fifo [OF refl, where idle_seconds = 60 and s = Backend and now = 0 and passes = "[sample_relay_io ''abc'', sample_relay_io ''de'', sample_relay_io [], sample_relay_io []]"]
  show ?thesis by simp
qed

end
