(* ===== verification/EgressAssociation.thy ===== *)
theory EgressAssociation
  imports EgressTraffic
begin

text \<open>
  The UDP association of the egress normalizer (\<^verbatim>\<open>scripts/transport_egress_normalizer.py\<close>): admission of a destination, the
  passes of the association, and the quarantine of its ports.
\<close>

section \<open>Destinations\<close>

definition destinations :: "names \<Rightarrow> dpolicy \<Rightarrow> (string \<Rightarrow> nerr + ipaddr list) \<Rightarrow> host \<Rightarrow> int \<Rightarrow> network \<Rightarrow> unit + ipaddr list" where
  \<comment> \<open>\<open>lookup\<close> is the answer of the resolver pool for a name\<close>
  "destinations env p lookup h port n =
     bind_res (case h of Addr a \<Rightarrow> Inr [a] | Name s \<Rightarrow> bind_res (caught (canonical_name env s)) (\<lambda>name. caught (lookup name))) (\<lambda>values.
     caught (admitted_candidates p values port n))"

section \<open>The association\<close>

type_synonym peer_address = "ipaddr \<times> int"

text \<open>The packets an association sends: to the gateway, or to an address on the client's side.\<close>

datatype packet = ToGateway string | ToClient string peer_address

record assoc =
  pinned :: "peer_address option"
  bindings :: "((host \<times> nat) \<times> ipaddr) list"
  admitted :: "(ipaddr \<times> nat) list"
  last_active :: rat
  packets :: "packet list"

datatype 'a readiness = NotReady | Failing | Ready 'a

record assoc_io =
  stopping :: bool
  loop_clock :: rat
  control_ready :: bool
  front_in :: "(string \<times> peer_address) readiness"
  slot_free :: bool
  lookup_answer :: "string \<Rightarrow> nerr + ipaddr list"
  control_late :: bool \<comment> \<open>a control connection became readable, or the process stops, while a name was resolved\<close>
  gateway_takes :: bool
  upstream_in :: "string readiness"
  client_takes :: bool
  send_clock :: rat

record assoc_env =
  tables :: names
  policy :: dpolicy
  source_ip :: ipaddr
  maximum :: nat
  max_bindings :: nat
  idle_limit :: rat

definition start_assoc :: "rat \<Rightarrow> assoc" where
  "start_assoc now = \<lparr>pinned = None, bindings = [], admitted = [], last_active = now, packets = []\<rparr>"

text \<open>How a pass goes on: to its next part, to the next pass, or out of the loop.\<close>

datatype flow = Through | Continue | Break

definition bind_key :: "assoc_env \<Rightarrow> assoc_io \<Rightarrow> host \<times> nat \<Rightarrow> assoc \<Rightarrow> (ipaddr \<times> assoc) option" where
  \<comment> \<open>the literal address a destination is bound to, resolved at its first datagram\<close>
  "bind_key e i k s = (case map_of (bindings s) k of
     Some a \<Rightarrow> Some (a, s)
   | None \<Rightarrow>
       if max_bindings e \<le> length (bindings s) then None
       else (case destinations (tables e) (policy e) (lookup_answer i) (fst k) (int (snd k)) Udp of
           Inr (a # _) \<Rightarrow> Some (a, s\<lparr>bindings := (k, a) # bindings s\<rparr>)
         | _ \<Rightarrow> None))"

definition from_client :: "assoc_env \<Rightarrow> assoc_io \<Rightarrow> assoc \<Rightarrow> flow \<times> assoc" where
  "from_client e i s = (case front_in i of
     NotReady \<Rightarrow> (Through, s)
   | Failing \<Rightarrow> (Break, s)
   | Ready (raw, source) \<Rightarrow>
       if pinned s \<noteq> None \<and> pinned s \<noteq> Some source then (Continue, s)
       else if unmapped (fst source) \<noteq> source_ip e \<or> \<not> slot_free i then (Continue, s)
       else (case datagram (tables e) (maximum e) (take (maximum e + 1) raw) of
           Inl _ \<Rightarrow> (Continue, s)
         | Inr (h, port, payload) \<Rightarrow>
             (case bind_key e i (h, port) s of
                None \<Rightarrow> (Continue, s)
              | Some (a, s) \<Rightarrow>
                  if \<not> allows (policy e) a (int port) Udp then (Continue, s)
                  else if control_late i then (Break, s)
                  else (case encoded_datagram a (int port) payload (maximum e) of
                      Inl _ \<Rightarrow> (Continue, s)
                    | Inr packet \<Rightarrow>
                        if \<not> gateway_takes i then (Continue, s)
                        else (Through, s\<lparr>packets := packets s @ [ToGateway packet], admitted := (a, port) # admitted s,
                                pinned := Some source, last_active := send_clock i\<rparr>)))))"

definition from_gateway :: "assoc_env \<Rightarrow> assoc_io \<Rightarrow> assoc \<Rightarrow> flow \<times> assoc" where
  "from_gateway e i s = (case upstream_in i of
     NotReady \<Rightarrow> (Through, s)
   | Failing \<Rightarrow> (Break, s)
   | Ready raw \<Rightarrow> (case datagram (tables e) (maximum e) (take (maximum e + 1) raw) of
         Inr (Addr a, port, payload) \<Rightarrow>
           if \<not> List.member (admitted s) (a, port) then (Continue, s)
           else (case pinned s of
               None \<Rightarrow> (Continue, s)
             | Some source \<Rightarrow>
                 if \<not> allows (policy e) a (int port) Udp then (Continue, s)
                 else (case encoded_datagram a (int port) payload (maximum e) of
                     Inl _ \<Rightarrow> (Continue, s)
                   | Inr packet \<Rightarrow>
                       if \<not> client_takes i then (Continue, s)
                       else (Through, s\<lparr>packets := packets s @ [ToClient packet source], last_active := send_clock i\<rparr>)))
       | _ \<Rightarrow> (Continue, s)))"

definition assoc_pass :: "assoc_env \<Rightarrow> assoc_io \<Rightarrow> assoc \<Rightarrow> flow \<times> assoc" where
  "assoc_pass e i s =
     (if stopping i \<or> idle_limit e \<le> loop_clock i - last_active s then (Break, s)
      else if control_ready i then (Break, s)
      else (case from_client e i s of
          (Through, s) \<Rightarrow> from_gateway e i s
        | (f, s) \<Rightarrow> (f, s)))"

fun assoc_run :: "assoc_env \<Rightarrow> assoc_io list \<Rightarrow> assoc \<Rightarrow> assoc" where
  "assoc_run e [] s = s"
| "assoc_run e (i # passes) s = (case assoc_pass e i s of (Break, s) \<Rightarrow> s | (_, s) \<Rightarrow> assoc_run e passes s)"

text \<open>
  The quarantine of the two ports: each pass gives the clock of the loop condition, whether the process stops, and the clock readings of
  the packets drained in it. The result is the reading at which the ports go back to their pools.
\<close>

fun quarantine :: "rat \<Rightarrow> rat \<Rightarrow> (bool \<times> rat \<times> rat list) list \<Rightarrow> rat option" where
  "quarantine limit quiet [] = None"
| "quarantine limit quiet ((stopped, now, drained) # passes) =
     (if stopped \<or> limit \<le> now - quiet then Some now
      else quarantine limit (if drained = [] then quiet else last drained) passes)"

section \<open>What an association sends, and to whom\<close>

text \<open>A packet for the destination \<open>(a, port)\<close>, which the policy allows.\<close>

definition names_destination :: "assoc_env \<Rightarrow> ipaddr \<times> nat \<Rightarrow> string \<Rightarrow> bool" where
  "names_destination e d packet \<longleftrightarrow> allows (policy e) (fst d) (int (snd d)) Udp
     \<and> (\<exists>payload. encoded_datagram (fst d) (int (snd d)) payload (maximum e) = Inr packet)"

text \<open>Each packet is justified by what was sent before it.\<close>

definition justified_packet :: "assoc_env \<Rightarrow> packet list \<Rightarrow> packet \<Rightarrow> bool" where
  "justified_packet e sent p = (case p of
     ToGateway packet \<Rightarrow> (\<exists>d. names_destination e d packet)
   | ToClient packet source \<Rightarrow> unmapped (fst source) = source_ip e
       \<and> (\<exists>d earlier. names_destination e d packet \<and> ToGateway earlier \<in> set sent \<and> names_destination e d earlier))"

definition assoc_ok :: "assoc_env \<Rightarrow> assoc \<Rightarrow> bool" where
  "assoc_ok e s \<longleftrightarrow> (\<forall>n < length (packets s). justified_packet e (take n (packets s)) (packets s ! n))
     \<and> (\<forall>d \<in> set (admitted s). \<exists>packet. ToGateway packet \<in> set (packets s) \<and> names_destination e d packet)
     \<and> (\<forall>source. pinned s = Some source \<longrightarrow> unmapped (fst source) = source_ip e)
     \<and> (\<forall>packet source. ToClient packet source \<in> set (packets s) \<longrightarrow> pinned s = Some source)
     \<and> length (bindings s) \<le> max_bindings e"

lemma justified_snoc:
  assumes "\<forall>n < length ps. justified_packet e (take n ps) (ps ! n)" "justified_packet e ps p"
  shows "\<forall>n < length (ps @ [p]). justified_packet e (take n (ps @ [p])) ((ps @ [p]) ! n)"
  using assms by (auto simp: less_Suc_eq nth_append)

lemma bind_key_keeps:
  assumes "bind_key e i k s = Some (a, t)" "assoc_ok e s"
  shows "assoc_ok e t" "pinned t = pinned s"
  using assms by (auto simp: bind_key_def assoc_ok_def split: option.split_asm if_split_asm sum.split_asm list.split_asm)

lemma from_client_cases:
  assumes "from_client e i s = (f, t)"
  obtains "t = s"
  | k a where "bind_key e i k s = Some (a, t)"
  | k a u packet source where "bind_key e i k s = Some (a, u)" "names_destination e (a, snd k) packet" "unmapped (fst source) = source_ip e"
      "pinned s = None \<or> pinned s = Some source"
      "t = u\<lparr>packets := packets u @ [ToGateway packet], admitted := (a, snd k) # admitted u, pinned := Some source, last_active := send_clock i\<rparr>"
proof (cases "t = s")
  case False
  obtain raw source where r: "front_in i = Ready (raw, source)" using assms False by (cases "front_in i") (auto simp: from_client_def)
  have g: "pinned s = None \<or> pinned s = Some source" "unmapped (fst source) = source_ip e" "slot_free i"
    using assms False r by (cases "pinned s"; auto simp: from_client_def split: if_split_asm)+
  obtain h port payload where d: "datagram (tables e) (maximum e) (take (maximum e + 1) raw) = Inr (h, port, payload)"
    using assms False r g by (cases "datagram (tables e) (maximum e) (take (maximum e + 1) raw)") (auto simp: from_client_def)
  obtain a u where b: "bind_key e i (h, port) s = Some (a, u)"
    using assms False r g d by (cases "bind_key e i (h, port) s") (auto simp: from_client_def)
  have t: "t = u \<or> (\<exists>packet. allows (policy e) a (int port) Udp \<and> encoded_datagram a (int port) payload (maximum e) = Inr packet
      \<and> t = u\<lparr>packets := packets u @ [ToGateway packet], admitted := (a, port) # admitted u, pinned := Some source, last_active := send_clock i\<rparr>)"
    using assms False r g d b by (auto simp: from_client_def split: if_split_asm sum.split_asm)
  from t show ?thesis
  proof (elim disjE exE)
    assume "t = u"
    with b that(2) show ?thesis by blast
  next
    fix packet
    assume "allows (policy e) a (int port) Udp \<and> encoded_datagram a (int port) payload (maximum e) = Inr packet
      \<and> t = u\<lparr>packets := packets u @ [ToGateway packet], admitted := (a, port) # admitted u, pinned := Some source, last_active := send_clock i\<rparr>"
    then show ?thesis using that(3) [OF b, of packet source] g by (auto simp: names_destination_def)
  qed
qed

lemma from_client_ok:
  assumes "assoc_ok e s" "from_client e i s = (f, t)"
  shows "assoc_ok e t"
  using assms(2)
proof (cases rule: from_client_cases)
  case (3 k a u packet source)
  from bind_key_keeps [OF 3(1) assms(1)] have u: "assoc_ok e u" "pinned u = pinned s" by auto
  have "justified_packet e (packets u) (ToGateway packet)" using 3(2) by (auto simp: justified_packet_def)
  from justified_snoc [OF _ this] u(1)
  have "\<forall>n < length (packets t). justified_packet e (take n (packets t)) (packets t ! n)" unfolding 3(5) by (simp add: assoc_ok_def)
  moreover have "\<forall>d \<in> set (admitted t). \<exists>packet. ToGateway packet \<in> set (packets t) \<and> names_destination e d packet"
    using u(1) 3(2) unfolding 3(5) by (auto simp: assoc_ok_def)
  moreover have "ToClient p d \<in> set (packets t) \<Longrightarrow> pinned t = Some d" for p d using u 3(4) unfolding 3(5)
    by (auto simp: assoc_ok_def simp del: split_paired_All)
  ultimately show ?thesis using u(1) 3(3) by (simp add: assoc_ok_def 3(5))
qed (use assms(1) bind_key_keeps in blast)+

lemma from_gateway_cases:
  assumes "from_gateway e i s = (f, t)"
  obtains "t = s"
  | d packet source where "d \<in> set (admitted s)" "pinned s = Some source" "names_destination e d packet"
      "t = s\<lparr>packets := packets s @ [ToClient packet source], last_active := send_clock i\<rparr>"
proof (cases "t = s")
  case False
  with assms obtain raw a port payload packet source where
    "datagram (tables e) (maximum e) (take (maximum e + 1) raw) = Inr (Addr a, port, payload)" "List.member (admitted s) (a, port)" "pinned s = Some source"
    "allows (policy e) a (int port) Udp" "encoded_datagram a (int port) payload (maximum e) = Inr packet"
    "t = s\<lparr>packets := packets s @ [ToClient packet source], last_active := send_clock i\<rparr>"
    unfolding from_gateway_def by (auto split: readiness.split_asm if_split_asm sum.split_asm option.split_asm prod.split_asm host.split_asm)
  with that(2) [of "(a, port)" source packet] show ?thesis by (auto simp: names_destination_def)
qed

lemma from_gateway_ok:
  assumes "assoc_ok e s" "from_gateway e i s = (f, t)"
  shows "assoc_ok e t"
  using assms(2)
proof (cases rule: from_gateway_cases)
  case (2 d packet source)
  have "justified_packet e (packets s) (ToClient packet source)"
    using assms(1) 2(1-3) unfolding assoc_ok_def justified_packet_def packet.case by blast
  from justified_snoc [OF _ this] assms(1) show ?thesis unfolding 2(4) using 2(2) by (auto simp: assoc_ok_def)
qed (use assms(1) in blast)

lemma assoc_pass_ok:
  assumes "assoc_ok e s" "assoc_pass e i s = (f, t)"
  shows "assoc_ok e t"
proof -
  obtain g u where c: "from_client e i s = (g, u)" by (metis surj_pair)
  note u = from_client_ok [OF assms(1) c]
  from assms(2) consider "t = s" | "t = u" | "from_gateway e i u = (f, t)" by (cases g) (auto simp: assoc_pass_def c split: if_split_asm)
  then show ?thesis by cases (use assms(1) u from_gateway_ok in blast)+
qed

lemma assoc_run_ok: "assoc_ok e s \<Longrightarrow> assoc_ok e (assoc_run e passes s)"
proof (induction passes arbitrary: s)
  case (Cons i passes)
  obtain f t where p: "assoc_pass e i s = (f, t)" by (metis surj_pair)
  with Cons assoc_pass_ok show ?case by (cases f) auto
qed simp

lemma quarantine_waits:
  "quarantine limit quiet passes = Some now \<Longrightarrow> \<exists>before rest stopped drained. passes = before @ (stopped, now, drained) # rest
     \<and> (stopped \<or> limit \<le> now - last (quiet # concat (map (snd \<circ> snd) before)))"
proof (induction limit quiet passes rule: quarantine.induct)
  case (2 limit quiet stopped now' drained passes)
  show ?case
  proof (cases "stopped \<or> limit \<le> now' - quiet")
    case True
    with 2(2) have "(stopped, now', drained) # passes = [] @ (stopped, now, drained) # passes \<and> (stopped \<or> limit \<le> now - last (quiet # concat (map (snd \<circ> snd) [])))" by auto
    then show ?thesis by blast
  next
    case False
    then have "quarantine limit (if drained = [] then quiet else last drained) passes = Some now" using 2(2) by simp
    from 2(1) [OF False this] obtain before rest s d where "passes = before @ (s, now, d) # rest"
      "s \<or> limit \<le> now - last ((if drained = [] then quiet else last drained) # concat (map (snd \<circ> snd) before))" by blast
    moreover have "last ((if drained = [] then quiet else last drained) # concat (map (snd \<circ> snd) before)) = last (quiet # concat (map (snd \<circ> snd) ((stopped, now', drained) # before)))"
      by (auto simp: last_append)
    ultimately have "(stopped, now', drained) # passes = ((stopped, now', drained) # before) @ (s, now, d) # rest
      \<and> (s \<or> limit \<le> now - last (quiet # concat (map (snd \<circ> snd) ((stopped, now', drained) # before))))" by simp
    then show ?thesis by blast
  qed
qed simp

text \<open>
  C3: An association stays within the policy and with its client. Whatever datagrams arrive on either side and in whatever
  order, every packet sent to the gateway fits the size limit and names, as a literal address, a destination that the policy
  allows; every packet sent to the client names an allowed destination to which a packet had been sent before, and goes to one and
  the same source address, whose IP address is that of the control connection; and there are never more bindings than configured.
\<close>

theorem association_contained:
  assumes "s = assoc_run e passes (start_assoc now)"
  shows "(\<forall>n < length (packets s). case packets s ! n of
        ToGateway packet \<Rightarrow> length packet \<le> maximum e \<and> (\<exists>d. names_destination e d packet)
      | ToClient packet source \<Rightarrow> length packet \<le> maximum e \<and> unmapped (fst source) = source_ip e \<and> pinned s = Some source
          \<and> (\<exists>d earlier. names_destination e d packet \<and> ToGateway earlier \<in> set (take n (packets s)) \<and> names_destination e d earlier))
    \<and> length (bindings s) \<le> max_bindings e"
proof -
  have "assoc_ok e (start_assoc now)" by (simp add: assoc_ok_def start_assoc_def)
  from assoc_run_ok [OF this, of passes] assms have ok: "assoc_ok e s" by simp
  have fits: "length packet \<le> maximum e" if "names_destination e d packet" for d packet
    using that by (auto simp: names_destination_def encoded_datagram_def Let_def bind_res_Inr split: if_split_asm)
  have "case packets s ! n of
        ToGateway packet \<Rightarrow> length packet \<le> maximum e \<and> (\<exists>d. names_destination e d packet)
      | ToClient packet source \<Rightarrow> length packet \<le> maximum e \<and> unmapped (fst source) = source_ip e \<and> pinned s = Some source
          \<and> (\<exists>d earlier. names_destination e d packet \<and> ToGateway earlier \<in> set (take n (packets s)) \<and> names_destination e d earlier)"
    if n: "n < length (packets s)" for n
  proof -
    have j: "justified_packet e (take n (packets s)) (packets s ! n)" and p: "ToClient q c \<in> set (packets s) \<Longrightarrow> pinned s = Some c" for q c
      using ok n unfolding assoc_ok_def by blast+
    from j show ?thesis
    proof (cases "packets s ! n")
      case (ToClient q c)
      with p n have "pinned s = Some c" by (metis nth_mem)
      with j ToClient fits show ?thesis unfolding justified_packet_def packet.case by (simp only: packet.case) blast
    qed (use j fits in \<open>auto simp: justified_packet_def\<close>)
  qed
  then show ?thesis using ok by (simp add: assoc_ok_def)
qed

definition sample_assoc :: assoc_env where
  "sample_assoc = \<lparr>tables = sample_names, policy = sample_policy, source_ip = V4 (v4 127 0 0 1), maximum = 1500, max_bindings = 8, idle_limit = 60\<rparr>"

definition sample_frame :: string where
  "sample_frame = replicate 3 (CHR 0x00) @ [CHR 0x01] @ packed 4 (unat (v4 8 8 8 8)) @ packed 2 53 @ ''q''"

definition sample_pass :: assoc_io where
  "sample_pass = \<lparr>stopping = False, loop_clock = 0, control_ready = False, front_in = Ready (sample_frame, V4 (v4 127 0 0 1), 4000), slot_free = True,
     lookup_answer = (\<lambda>_. Inr []), control_late = False, gateway_takes = True, upstream_in = Ready sample_frame, client_takes = True, send_clock = 0\<rparr>"

lemma sample_encoded: "encoded_datagram (V4 (v4 8 8 8 8)) 53 ''q'' 1500 = Inr sample_frame"
  by (simp add: encoded_datagram_def encoded_address_def unmapped_def sample_frame_def)

lemma sample_decoded: "datagram sample_names 1500 (take 1501 sample_frame) = Inr (Addr (V4 (v4 8 8 8 8)), 53, ''q'')"
proof -
  have "take 1501 sample_frame = sample_frame" by (simp add: sample_frame_def)
  then show ?thesis using datagram_encoded [OF _ sample_encoded, of sample_names] by (simp add: unmapped_def)
qed

lemma sample_destination: "allows sample_policy (V4 (v4 8 8 8 8)) 53 Udp"
  "destinations sample_names sample_policy (\<lambda>_. Inr []) (Addr (V4 (v4 8 8 8 8))) 53 Udp = Inr [V4 (v4 8 8 8 8)]"
proof -
  show a: "allows sample_policy (V4 (v4 8 8 8 8)) 53 Udp"
    by (simp add: allows_def sample_policy_def management_def unmapped_def denied_private private_address_def private_v4_def quad_def v4_def)
  then show "destinations sample_names sample_policy (\<lambda>_. Inr []) (Addr (V4 (v4 8 8 8 8))) 53 Udp = Inr [V4 (v4 8 8 8 8)]"
    by (simp add: destinations_def admitted_candidates_def caught_def unmapped_def version_def)
qed

lemma sample_packets:
  "packets (assoc_run sample_assoc [sample_pass] (start_assoc 0)) = [ToGateway sample_frame, ToClient sample_frame (V4 (v4 127 0 0 1), 4000)]"
  by (simp add: assoc_pass_def from_client_def from_gateway_def bind_key_def sample_assoc_def sample_pass_def start_assoc_def sample_decoded sample_encoded
      sample_destination unmapped_def [of "V4 _"])

theorem association_contained_witness:
  "\<exists>d earlier. names_destination sample_assoc d sample_frame \<and> ToGateway earlier \<in> {ToGateway sample_frame} \<and> names_destination sample_assoc d earlier"
  using association_contained [OF refl, where e = sample_assoc and passes = "[sample_pass]" and now = 0] unfolding sample_packets
  by (auto dest: spec [of _ 1])

end
