(* ===== verification/EgressClient.thy ===== *)
theory EgressClient
  imports EgressAssociation
begin

text \<open>
  A client's connection to the egress normalizer (\<^verbatim>\<open>scripts/transport_egress_normalizer.py\<close>): the race between the candidate
  addresses of a destination, the control connection of an association, and the handler that runs the handshake and
  chooses between relay and association.
\<close>

section \<open>The race between candidates\<close>

definition MAX_CONNECT_CANDIDATES :: nat where
  "MAX_CONNECT_CANDIDATES = 8"

definition MAX_CONNECT_CONTROLS :: nat where
  "MAX_CONNECT_CONTROLS = 2"

definition CONNECT_STAGGER_SECONDS :: rat where
  "CONNECT_STAGGER_SECONDS = 1 / 4"

text \<open>An attempt is known by the position of its candidate.\<close>

record attempt =
  position :: nat
  gate :: gateway
  until :: rat

record race =
  attempts :: "attempt list"
  position_next :: nat
  next_start :: rat

record race_env =
  rtables :: names
  rpolicy :: dpolicy
  backend_user :: string
  backend_key :: string
  candidates :: "ipaddr list"
  rport :: int
  deadline :: rat
  connect_seconds :: rat

text \<open>
  One pass: whether the client is gone, the clock, what opening a socket gives (\<open>None\<close>: refused; otherwise whether the connection is
  still being established), the sockets' answers, the clock at each attempt's turn and after its step, and whether the client is gone by then.
\<close>

record race_io =
  client_gone :: bool
  race_now :: rat
  opens :: "nat \<Rightarrow> bool option"
  sockets :: "nat \<Rightarrow> io"
  turn_clock :: "nat \<Rightarrow> rat"
  step_clock :: "nat \<Rightarrow> rat"
  gone_late :: "nat \<Rightarrow> bool"

datatype race_result = Racing race | Won attempt | Lost

definition attempt_seconds :: "race_env \<Rightarrow> rat" where
  "attempt_seconds e = connect_seconds e / of_nat (max 1 ((length (candidates e) + MAX_CONNECT_CONTROLS - 1) div MAX_CONNECT_CONTROLS))"

fun advance_all :: "race_env \<Rightarrow> race_io \<Rightarrow> attempt list \<Rightarrow> rat \<Rightarrow> attempt option + attempt list \<times> rat" where
  \<comment> \<open>\<open>Inl\<close>: the race is over, with a winner or without\<close>
  "advance_all e i [] start = Inr ([], start)"
| "advance_all e i (a # as) start =
     (let n = position a; s = sockets i n in
      if until a \<le> turn_clock i n then advance_all e i as (turn_clock i n)
      else (case fst (advance (rtables e) (allows (rpolicy e)) s (ready s \<and> \<not> writing (gate a)) (ready s \<and> writing (gate a)) (gate a)) of
          Inl _ \<Rightarrow> advance_all e i as (step_clock i n)
        | Inr (True, g) \<Rightarrow>
            Inl (if gone_late i n \<or> deadline e \<le> step_clock i n \<or> \<not> allows (rpolicy e) (literal (gate a)) (rport e) Tcp then None
                 else Some (a\<lparr>gate := g\<rparr>))
        | Inr (False, g) \<Rightarrow> (case advance_all e i as start of
            Inl r \<Rightarrow> Inl r
          | Inr (as, start) \<Rightarrow> Inr (a\<lparr>gate := g\<rparr> # as, start))))"

definition race_turn :: "race_env \<Rightarrow> race_io \<Rightarrow> race \<Rightarrow> race_result" where
  \<comment> \<open>the second half of a pass: wait, then advance every attempt\<close>
  "race_turn e i r =
     (if attempts r = [] then (if position_next r = length (candidates e) then Lost else Racing r)
      else (case advance_all e i (attempts r) (next_start r) of
          Inl None \<Rightarrow> Lost
        | Inl (Some a) \<Rightarrow> Won a
        | Inr (as, start) \<Rightarrow> Racing (r\<lparr>attempts := as, next_start := start\<rparr>)))"

definition race_pass :: "race_env \<Rightarrow> race_io \<Rightarrow> race \<Rightarrow> race_result" where
  "race_pass e i r =
     (if client_gone i \<or> deadline e \<le> race_now i then Lost
      else
        let live = filter (\<lambda>a. race_now i < until a) (attempts r);
            start = (if length live < length (attempts r) then race_now i else next_start r);
            n = position_next r in
        if length live < MAX_CONNECT_CONTROLS \<and> n < length (candidates e) \<and> start \<le> race_now i then
          (case if allows (rpolicy e) (candidates e ! n) (rport e) Tcp then opens i n else None of
             None \<Rightarrow> Racing \<lparr>attempts = live, position_next = n + 1, next_start = race_now i\<rparr>
           | Some in_progress \<Rightarrow> race_turn e i
               \<lparr>attempts = live @ [\<lparr>position = n, gate = open_gateway (backend_user e) (backend_key e) (candidates e ! n) (rport e) in_progress,
                  until = min (deadline e) (race_now i + attempt_seconds e)\<rparr>],
                position_next = n + 1, next_start = race_now i + CONNECT_STAGGER_SECONDS\<rparr>)
        else race_turn e i \<lparr>attempts = live, position_next = n, next_start = start\<rparr>)"

fun race_run :: "race_env \<Rightarrow> race_io list \<Rightarrow> race \<Rightarrow> race_result" where
  "race_run e [] r = Racing r"
| "race_run e (i # passes) r = (case race_pass e i r of Racing r \<Rightarrow> race_run e passes r | over \<Rightarrow> over)"

definition start_race :: "rat \<Rightarrow> race" where
  "start_race now = \<lparr>attempts = [], position_next = 0, next_start = now\<rparr>"

subsection \<open>Its bounds\<close>

definition attempt_ok :: "race_env \<Rightarrow> attempt \<Rightarrow> bool" where
  "attempt_ok e a \<longleftrightarrow> position a < length (candidates e) \<and> until a \<le> deadline e \<and> literal (gate a) = candidates e ! position a \<and> target (gate a) = rport e
     \<and> username (gate a) = backend_user e \<and> password (gate a) = backend_key e
     \<and> (\<exists>out inp. protocol (rtables e) (allows (rpolicy e)) (gate a) out inp)"

definition race_ok :: "race_env \<Rightarrow> race \<Rightarrow> bool" where
  "race_ok e r \<longleftrightarrow> length (attempts r) \<le> MAX_CONNECT_CONTROLS \<and> position_next r \<le> length (candidates e)
     \<and> sorted_wrt (<) (map position (attempts r)) \<and> (\<forall>a \<in> set (attempts r). position a < position_next r \<and> attempt_ok e a)"

definition winner_ok :: "race_env \<Rightarrow> attempt \<Rightarrow> bool" where
  "winner_ok e a \<longleftrightarrow> position a < length (candidates e) \<and> allows (rpolicy e) (candidates e ! position a) (rport e) Tcp
     \<and> (\<exists>g out inp. literal g = candidates e ! position a \<and> target g = rport e \<and> username g = backend_user e \<and> password g = backend_key e
          \<and> finished (rtables e) (allows (rpolicy e)) g out inp)"

lemma advance_all_ok:
  assumes "\<forall>a \<in> set as. attempt_ok e a"
  shows "case advance_all e i as start of
      Inr (bs, _) \<Rightarrow> (\<forall>b \<in> set bs. attempt_ok e b) \<and> subseq (map position bs) (map position as)
    | Inl (Some a) \<Rightarrow> winner_ok e a
    | Inl None \<Rightarrow> True"
  using assms
proof (induction as arbitrary: start)
  case (Cons a as)
  let ?s = "sockets i (position a)"
  let ?adv = "advance (rtables e) (allows (rpolicy e)) ?s (ready ?s \<and> \<not> writing (gate a)) (ready ?s \<and> writing (gate a)) (gate a)"
  obtain res sent got where adv: "?adv = (res, sent, got)" by (metis prod_cases3)
  from Cons.prems obtain out inp where p: "protocol (rtables e) (allows (rpolicy e)) (gate a) out inp" and a: "attempt_ok e a" by (auto simp: attempt_ok_def)
  note step = advance_protocol [OF p adv]
  let ?Q = "\<lambda>r :: attempt option + attempt list \<times> rat. case r of
      Inr (bs, _) \<Rightarrow> (\<forall>b \<in> set bs. attempt_ok e b) \<and> subseq (map position bs) (map position as) | Inl (Some a) \<Rightarrow> winner_ok e a | Inl None \<Rightarrow> True"
  have IH: "?Q (advance_all e i as st)" for st using Cons by simp
  have weaken: "case r of Inr (bs, _) \<Rightarrow> (\<forall>b \<in> set bs. attempt_ok e b) \<and> subseq (map position bs) (map position (a # as))
      | Inl (Some a) \<Rightarrow> winner_ok e a | Inl None \<Rightarrow> True" if "?Q r" for r :: "attempt option + attempt list \<times> rat"
    using that by (auto split: sum.splits option.splits)
  show ?case
  proof (cases "until a \<le> turn_clock i (position a)")
    case True
    then show ?thesis using weaken [OF IH] by (simp add: Let_def)
  next
    case False
    show ?thesis
    proof (cases res)
      case (Inl u)
      then show ?thesis using False adv weaken [OF IH] by (simp add: Let_def)
    next
      case (Inr x)
      obtain over g where x: "x = (over, g)" by (cases x)
      show ?thesis
      proof (cases over)
        case True
        have "winner_ok e (a\<lparr>gate := g\<rparr>)" if "allows (rpolicy e) (literal (gate a)) (rport e) Tcp"
          using step(3) [of g] Inr x True a that by (auto simp: winner_ok_def attempt_ok_def)
        then show ?thesis using False adv Inr x True by (auto simp: Let_def)
      next
        case live: False
        have "attempt_ok e (a\<lparr>gate := g\<rparr>)"
          using step(2) [of g] Inr x live a by (auto simp: attempt_ok_def same_target_def)
        moreover have "advance_all e i (a # as) start = (case advance_all e i as start of Inl r \<Rightarrow> Inl r | Inr (as, start) \<Rightarrow> Inr (a\<lparr>gate := g\<rparr> # as, start))"
          using False adv Inr x live by (simp add: Let_def)
        ultimately show ?thesis using IH [of start] by (auto split: sum.splits option.splits)
      qed
    qed
  qed
qed simp

lemma sorted_wrt_subseq: "subseq xs ys \<Longrightarrow> sorted_wrt P ys \<Longrightarrow> sorted_wrt P xs"
  by (induction rule: list_emb.induct) (auto dest: list_emb_set)

definition result_ok :: "race_env \<Rightarrow> race_result \<Rightarrow> bool" where
  "result_ok e res = (case res of Racing r \<Rightarrow> race_ok e r | Won a \<Rightarrow> winner_ok e a | Lost \<Rightarrow> True)"

lemma race_turn_ok:
  assumes "race_ok e r"
  shows "result_ok e (race_turn e i r)"
proof (cases "advance_all e i (attempts r) (next_start r)")
  case (Inl w)
  then show ?thesis using advance_all_ok [of "attempts r" e i "next_start r"] assms
    by (auto simp: race_turn_def result_ok_def race_ok_def split: option.splits)
next
  case (Inr x)
  obtain bs st where x: "x = (bs, st)" by (cases x)
  have bs: "\<forall>b \<in> set bs. attempt_ok e b" "subseq (map position bs) (map position (attempts r))"
    using advance_all_ok [of "attempts r" e i "next_start r"] assms Inr x by (auto simp: race_ok_def)
  then have "sorted_wrt (<) (map position bs)" "length bs \<le> length (attempts r)" "position ` set bs \<subseteq> position ` set (attempts r)"
    using assms sorted_wrt_subseq list_emb_length [OF bs(2)] list_emb_set [OF bs(2)] by (fastforce simp: race_ok_def)+
  then have "race_ok e (r\<lparr>attempts := bs, next_start := st\<rparr>)" using assms bs(1) by (fastforce simp: race_ok_def)
  then show ?thesis using assms Inr x by (auto simp: race_turn_def result_ok_def)
qed

lemma opened_ok:
  assumes "n < length (candidates e)"
  shows "attempt_ok e \<lparr>position = n, gate = open_gateway (backend_user e) (backend_key e) (candidates e ! n) (rport e) c, until = min (deadline e) t\<rparr>"
proof -
  have "protocol (rtables e) (allows (rpolicy e)) (open_gateway (backend_user e) (backend_key e) (candidates e ! n) (rport e) c) [] []"
    by (simp add: protocol_def open_gateway_def)
  then show ?thesis using assms by (auto simp: attempt_ok_def open_gateway_def)
qed

lemma race_pass_shape:
  obtains "race_pass e i r = Lost"
  | r' where "race_pass e i r = race_turn e i r'" "set (attempts r') \<subseteq> set (attempts r)" "subseq (map position (attempts r')) (map position (attempts r))"
      "position_next r' = position_next r"
  | as start where "race_pass e i r = Racing \<lparr>attempts = as, position_next = position_next r + 1, next_start = start\<rparr>" "set as \<subseteq> set (attempts r)"
      "subseq (map position as) (map position (attempts r))" "position_next r < length (candidates e)"
  | as start c t where "race_pass e i r = race_turn e i \<lparr>attempts = as @ [\<lparr>position = position_next r,
        gate = open_gateway (backend_user e) (backend_key e) (candidates e ! position_next r) (rport e) c, until = min (deadline e) t\<rparr>],
        position_next = position_next r + 1, next_start = start\<rparr>"
      "set as \<subseteq> set (attempts r)" "subseq (map position as) (map position (attempts r))" "position_next r < length (candidates e)" "length as < MAX_CONNECT_CONTROLS"
proof -
  let ?live = "filter (\<lambda>a. race_now i < until a) (attempts r)" and ?n = "position_next r"
  let ?start = "if length ?live < length (attempts r) then race_now i else next_start r"
  have sub: "set ?live \<subseteq> set (attempts r)" "subseq (map position ?live) (map position (attempts r))" by (auto intro: subseq_map)
  show thesis
  proof (cases "client_gone i \<or> deadline e \<le> race_now i")
    case True
    then show ?thesis using that(1) by (simp add: race_pass_def)
  next
    case go: False
    show ?thesis
    proof (cases "length ?live < MAX_CONNECT_CONTROLS \<and> ?n < length (candidates e) \<and> ?start \<le> race_now i")
      case False
      then have "race_pass e i r = race_turn e i \<lparr>attempts = ?live, position_next = ?n, next_start = ?start\<rparr>"
        unfolding race_pass_def Let_def if_not_P [OF go] by (simp only: if_False)
      then show ?thesis using that(2) sub by simp
    next
      case True
      show ?thesis
      proof (cases "if allows (rpolicy e) (candidates e ! ?n) (rport e) Tcp then opens i ?n else None")
        case None
        then have "race_pass e i r = Racing \<lparr>attempts = ?live, position_next = ?n + 1, next_start = race_now i\<rparr>"
          unfolding race_pass_def Let_def if_not_P [OF go] if_P [OF True] by simp
        then show ?thesis using that(3) sub True by blast
      next
        case (Some c)
        then have "race_pass e i r = race_turn e i \<lparr>attempts = ?live @ [\<lparr>position = ?n,
            gate = open_gateway (backend_user e) (backend_key e) (candidates e ! ?n) (rport e) c, until = min (deadline e) (race_now i + attempt_seconds e)\<rparr>],
            position_next = ?n + 1, next_start = race_now i + CONNECT_STAGGER_SECONDS\<rparr>"
          unfolding race_pass_def Let_def if_not_P [OF go] if_P [OF True] by simp
        then show ?thesis using that(4) sub True by blast
      qed
    qed
  qed
qed

lemma race_ok_sub:
  assumes "race_ok e r" "set as \<subseteq> set (attempts r)" "subseq (map position as) (map position (attempts r))" "position_next r \<le> n" "n \<le> length (candidates e)"
  shows "race_ok e \<lparr>attempts = as, position_next = n, next_start = t\<rparr>"
  using assms sorted_wrt_subseq [OF assms(3)] list_emb_length [OF assms(3)] by (fastforce simp: race_ok_def)

lemma race_pass_ok:
  assumes "race_ok e r"
  shows "result_ok e (race_pass e i r)"
proof (cases rule: race_pass_shape [of e i r])
  case 1
  then show ?thesis by (simp add: result_ok_def)
next
  case (2 r')
  have "race_ok e \<lparr>attempts = attempts r', position_next = position_next r, next_start = next_start r'\<rparr>"
    using assms by (intro race_ok_sub [OF assms 2(2,3) order_refl]) (simp add: race_ok_def)
  then have "race_ok e r'" using 2(4) by (cases r') simp
  then show ?thesis unfolding 2(1) by (rule race_turn_ok)
next
  case (3 as start)
  then show ?thesis using race_ok_sub [OF assms 3(2,3), of "position_next r + 1" start] by (simp add: result_ok_def)
next
  case (4 as start c t)
  have "race_ok e \<lparr>attempts = as, position_next = position_next r + 1, next_start = start\<rparr>" using 4 by (intro race_ok_sub [OF assms]) simp_all
  moreover have "\<forall>a \<in> set as. position a < position_next r" using 4(2) assms by (auto simp: race_ok_def)
  ultimately have "race_ok e \<lparr>attempts = as @ [\<lparr>position = position_next r, gate = open_gateway (backend_user e) (backend_key e) (candidates e ! position_next r) (rport e) c,
      until = min (deadline e) t\<rparr>], position_next = position_next r + 1, next_start = start\<rparr>"
    using 4(4,5) opened_ok [OF 4(4)] by (auto simp: race_ok_def sorted_wrt_append)
  then show ?thesis unfolding 4(1) by (rule race_turn_ok)
qed

lemma race_run_ok: "race_ok e r \<Longrightarrow> result_ok e (race_run e passes r)"
proof (induction passes arbitrary: r)
  case (Cons i passes)
  with race_pass_ok [OF Cons.prems, of i] show ?case by (cases "race_pass e i r") (auto simp: result_ok_def)
qed (simp add: result_ok_def)

lemma advance_all_positions: "advance_all e i as start = Inr (bs, t) \<Longrightarrow> position ` set bs \<subseteq> position ` set as"
proof (induction as arbitrary: start bs t)
  case (Cons a as)
  then show ?case by (fastforce simp: Let_def split: if_split_asm sum.split_asm prod.split_asm bool.split_asm)
qed simp

lemma race_turn_positions:
  assumes "race_turn e i r = Racing r'"
  shows "position ` set (attempts r') \<subseteq> position ` set (attempts r) \<and> position_next r' = position_next r"
  using assms advance_all_positions [of e i "attempts r" "next_start r"]
  by (auto simp: race_turn_def split: if_split_asm sum.split_asm option.split_asm prod.split_asm)

text \<open>A pass opens at most one new connection, to the candidate whose turn it is.\<close>

lemma race_pass_opens:
  assumes "race_pass e i r = Racing r'"
  shows "(position ` set (attempts r') \<subseteq> position ` set (attempts r) \<and> position_next r \<le> position_next r'
      \<or> position ` set (attempts r') \<subseteq> insert (position_next r) (position ` set (attempts r)) \<and> position_next r' = position_next r + 1)"
proof (cases rule: race_pass_shape [of e i r])
  case (2 q)
  from race_turn_positions [of e i q r'] assms 2(1)
  have "position ` set (attempts r') \<subseteq> position ` set (attempts q)" "position_next r' = position_next q" by simp_all
  then show ?thesis using image_mono [OF 2(2), of position] 2(4) by (metis order_refl order_trans)
next
  case (4 as start c t)
  with race_turn_positions assms have "position ` set (attempts r') \<subseteq> insert (position_next r) (position ` set as) \<and> position_next r' = position_next r + 1"
    by fastforce
  with 4(2) show ?thesis by blast
qed (use assms in auto)


definition sample_race :: race_env where
  "sample_race = \<lparr>rtables = sample_names, rpolicy = sample_policy, backend_user = ''u'', backend_key = ''k'',
     candidates = [V4 (v4 8 8 8 8)], rport = 443, deadline = 10, connect_seconds = 10\<rparr>"

definition sample_race_pass :: "io \<Rightarrow> race_io" where
  "sample_race_pass s = \<lparr>client_gone = False, race_now = 0, opens = (\<lambda>_. Some False), sockets = (\<lambda>_. s), turn_clock = (\<lambda>_. 0),
     step_clock = (\<lambda>_. 0), gone_late = (\<lambda>_. False)\<rparr>"

lemma sample_advance:
  "advance env ok (fst (sample_write 3)) False True (open_gateway u k a p False) =
     (Inr (False, (open_gateway u k a p False)\<lparr>pending := []\<rparr>), HELLO, [])"
  by (simp add: advance_def advance_write_def sample_write_def open_gateway_def refuse_if_eval HELLO_def)

lemma sample_race_runs: "\<exists>r. race_run sample_race [sample_race_pass (fst (sample_write 3))] (start_race 0) = Racing r \<and> map position (attempts r) = [0]"
proof -
  have w: "writing (open_gateway u k a p False)" for u k a p by (simp add: writing_def open_gateway_def HELLO_def)
  have "ready (fst (sample_write 3))" by (simp add: sample_write_def)
  then show ?thesis
    by (simp add: sample_race_def sample_race_pass_def race_pass_def race_turn_def start_race_def MAX_CONNECT_CONTROLS_def
        sample_admitted attempt_seconds_def sample_advance w Let_def)
qed


section \<open>The control connection of an association\<close>

definition backend_control :: "names \<Rightarrow> string \<Rightarrow> string \<Rightarrow> ipaddr \<Rightarrow> bool \<Rightarrow> nat \<Rightarrow> nat \<Rightarrow> ipaddr \<Rightarrow> int \<Rightarrow> string \<Rightarrow> nerr + host \<times> nat" where
  \<comment> \<open>\<open>reachable\<close>: the connection is established; \<open>stream\<close> is what the gateway sends, \<open>in_time\<close> how much of it before the deadline\<close>
  "backend_control env user key gateway_address reachable in_time command a port stream =
     (let unavailable = NormalizerError ''upstream-unavailable'' in
      if \<not> reachable then Inl unavailable
      else (case frame (expected CHOSEN) in_time [] stream of
          Inl _ \<Rightarrow> Inl unavailable
        | Inr (n, rest) \<Rightarrow> (case upstream_auth user key of
              Inl _ \<Rightarrow> Inl unavailable
            | Inr _ \<Rightarrow> (case frame (expected GRANTED) (in_time - n) [] rest of
                  Inl _ \<Rightarrow> Inl unavailable
                | Inr (m, rest) \<Rightarrow> (case upstream_request command a port of
                      Inl _ \<Rightarrow> Inl unavailable
                    | Inr _ \<Rightarrow> (case frame (upstream_reply env) (in_time - n - m) [] rest of
                          Inl _ \<Rightarrow> Inl unavailable
                        | Inr ((_, h, bound), _) \<Rightarrow>
                            if command = 3 \<and> (h \<noteq> Addr gateway_address \<or> bound = 0) then Inl unavailable else Inr (h, bound)))))))"

section \<open>The handler\<close>

datatype phase = Greeting | Authentication | Request | Relaying

definition refusal :: "phase \<Rightarrow> string" where
  \<comment> \<open>what the client is told when the handler fails in a phase\<close>
  "refusal ph = (case ph of Greeting \<Rightarrow> [CHR 0x05, CHR 0xFF] | Authentication \<Rightarrow> [CHR 0x01, CHR 0x01] | Request \<Rightarrow> FAILURE | Relaying \<Rightarrow> [])"

record listener =
  lname :: string
  laddress :: ipaddr
  lport :: int
  luser :: string
  lkey :: string

text \<open>
  The parts the handler calls: the destinations of a host, the race, and the association, which reports failure before or after it
  has closed the control connection.
\<close>

datatype association_end = Refused | Closed

record handler_parts =
  resolve_host :: "host \<Rightarrow> int \<Rightarrow> unit + ipaddr list"
  race_for :: "ipaddr list \<Rightarrow> int \<Rightarrow> bool"
  associate :: association_end

text \<open>What follows the bytes sent to the client: nothing, or the relay, which finds the rest of the client's stream.\<close>

datatype handled = Over | Relays string

definition handle_request :: "names \<Rightarrow> listener \<Rightarrow> handler_parts \<Rightarrow> nat \<Rightarrow> host \<Rightarrow> nat \<Rightarrow> string \<Rightarrow> string \<times> handled" where
  "handle_request env l parts command h port rest =
     (if command = 1 then
        (case resolve_host parts h (int port) of
           Inl _ \<Rightarrow> (refusal Request, Over)
         | Inr as \<Rightarrow>
             if \<not> race_for parts (take MAX_CONNECT_CANDIDATES as) (int port) then (refusal Request, Over)
             else (case reply (laddress l) (lport l) of Inl _ \<Rightarrow> (refusal Request, Over) | Inr r \<Rightarrow> (r, Relays rest)))
      else if lname l \<noteq> ''direct_hysteria'' \<and> (\<not> List.member [Addr (V4 0), Addr (V6 0)] h \<or> port \<noteq> 0) then (refusal Request, Over)
      else (case associate parts of Refused \<Rightarrow> (refusal Request, Over) | Closed \<Rightarrow> ([], Over)))"

definition handle_client :: "names \<Rightarrow> listener \<Rightarrow> handler_parts \<Rightarrow> nat \<Rightarrow> string \<Rightarrow> string \<times> handled" where
  "handle_client env l parts in_time stream = (case frame greeting in_time [] stream of
     Inl _ \<Rightarrow> (refusal Greeting, Over)
   | Inr ((n, response), rest) \<Rightarrow> (case frame (authentication (luser l) (lkey l)) (in_time - n) [] rest of
       Inl _ \<Rightarrow> (response @ refusal Authentication, Over)
     | Inr ((m, granted), rest) \<Rightarrow> (case frame (request env) (in_time - n - m) [] rest of
         Inl _ \<Rightarrow> (response @ granted @ refusal Request, Over)
       | Inr ((_, command, h, port), rest) \<Rightarrow> (case handle_request env l parts command h port rest of
           (sent, next_step) \<Rightarrow> (response @ granted @ sent, next_step)))))"

lemma greeting_answer: "greeting d = Inr g \<Longrightarrow> snd g = CHOSEN"
  by (auto simp: greeting_def bind_res_Inr CHOSEN_def)

lemma authentication_answer: "authentication u k d = Inr a \<Longrightarrow> snd a = GRANTED"
  using authentication_requires [of u k d a] by (auto simp: GRANTED_def)

lemma authentication_frame_answer:
  assumes "frame (authentication u k) in_time [] stream = Inr (a, rest)"
  shows "snd a = GRANTED"
proof -
  from socks_authentication.frame_stops [OF assms] obtain t where "authentication u k t = Inr a" by auto
  then show ?thesis by (rule authentication_answer)
qed

lemma authentication_frame:
  assumes "frame (authentication u k) in_time [] stream = Inr (a, rest)"
  obtains f where "upstream_auth u k = Inr f" "stream = f @ rest"
proof -
  from socks_authentication.frame_stops [OF assms] obtain t where t: "stream = t @ rest" "authentication u k t = Inr a" "fst a = length t" by auto
  from authentication_requires [OF t(2)] obtain f more where f: "upstream_auth u k = Inr f" "t = f @ more" "a = (length f, [CHR 0x01, CHR 0x00])" by blast
  with t(3) have "more = []" by simp
  with that f t(1) show thesis by simp
qed

lemma request_over:
  "handle_request env l parts command h port rest = (sent, Over) \<Longrightarrow> sent = FAILURE \<or> sent = []"
  by (auto simp: handle_request_def refusal_def split: if_split_asm sum.split_asm association_end.split_asm)

lemma request_relays:
  assumes "handle_request env l parts command h port rest = (sent, Relays rest')"
  shows "command = 1" "rest' = rest" "reply (laddress l) (lport l) = Inr sent"
    "\<exists>as. resolve_host parts h (int port) = Inr as \<and> race_for parts (take 8 as) (int port)"
  using assms by (auto simp: handle_request_def MAX_CONNECT_CANDIDATES_def split: if_split_asm sum.split_asm association_end.split_asm)


end
