(* ===== verification/DeviceCredentials.thy ===== *)
theory DeviceCredentials
  imports Json
begin

text \<open>
  The credentials of a device in the secrets documents of the fleet, from
  \<^verbatim>\<open>scripts/device_lifecycle_credentials.py\<close>: where a document keeps credentials
  (\<open>collections\<close>), which of them belong to a device (\<open>discover\<close>), and their removal from every document (\<open>revoke\<close>).
  A document is a dictionary of JSON values of which nothing is known beforehand, so every read can raise what Python
  raises there.
\<close>

section \<open>Reading values of unknown shape\<close>

datatype device_error = DeviceError string | Exc pyexc

text \<open>\<open>v.get(k, default)\<close>, \<open>v[k]\<close> for a text \<open>k\<close>, and the values that \<open>for x in v\<close> visits.\<close>

definition get_or :: "pv \<Rightarrow> string \<Rightarrow> pv \<Rightarrow> device_error + pv" where
  "get_or v k w0 = (case v of
     PDict d \<Rightarrow> Inr (case map_of d k of None \<Rightarrow> w0 | Some w \<Rightarrow> w)
   | _ \<Rightarrow> Inl (Exc AttributeError))"

definition subscript :: "pv \<Rightarrow> string \<Rightarrow> device_error + pv" where
  "subscript v k = (case v of
     PDict d \<Rightarrow> (case map_of d k of None \<Rightarrow> Inl (Exc KeyError) | Some w \<Rightarrow> Inr w)
   | _ \<Rightarrow> Inl (Exc TypeError))"

definition iterated :: "pv \<Rightarrow> device_error + pv list" where
  "iterated v = (case v of
     PList xs \<Rightarrow> Inr xs
   | PDict d \<Rightarrow> Inr (map (\<lambda>kv. PStr (fst kv)) d)
   | PStr s \<Rightarrow> Inr (map (\<lambda>n. PStr (utf8 n)) (codepoints s))
   | _ \<Rightarrow> Inl (Exc TypeError))"

lemma get_or_Inr: "get_or v k w = Inr u \<longleftrightarrow> (\<exists>d. v = PDict d \<and> u = (case map_of d k of None \<Rightarrow> w | Some x \<Rightarrow> x))"
  by (cases v) (auto simp: get_or_def)

lemma subscript_Inr: "subscript v k = Inr u \<longleftrightarrow> (\<exists>d. v = PDict d \<and> map_of d k = Some u)"
  by (cases v) (auto simp: subscript_def split: option.split)

section \<open>Finding the credentials of a device\<close>

text \<open>
  The generator \<open>collections\<close>: the values it yields, in order. An exception is its last one.
\<close>

definition SECTIONS :: "(string \<times> string) list" where
  "SECTIONS = [(''xray'', ''xray''), (''hysteria'', ''hysteria''), (''naive'', ''naive_secrets'')]"

definition nested :: "dict \<Rightarrow> string \<Rightarrow> string \<Rightarrow> device_error + pv list" where
  "nested doc section_name key = bind_res (get_or (PDict doc) section_name (PDict [])) (\<lambda>s.
     bind_res (get_or s key (PList [])) iterated)"

definition collections :: "dict \<Rightarrow> (device_error + string \<times> pv \<times> string) list" where
  "collections doc =
     concat (map (\<lambda>(kind, sec). case map_of doc sec of None \<Rightarrow> [] | Some b \<Rightarrow> [Inr (kind, b, ''clients'')]) SECTIONS)
     @ (case nested doc ''amneziawg_secrets'' ''instances'' of
          Inl e \<Rightarrow> [Inl e]
        | Inr xs \<Rightarrow> map (\<lambda>b. Inr (''awg'', b, ''peers'')) xs
            @ (case nested doc ''snell_secrets'' ''variants'' of
                 Inl e \<Rightarrow> [Inl e]
               | Inr ys \<Rightarrow> map (\<lambda>b. Inr (''snell'', b, ''users'')) ys))"

text \<open>The rows of a collection, if they are at most 256 dictionaries with different names.\<close>

definition hashable :: "pv \<Rightarrow> bool" where
  "hashable v \<longleftrightarrow> \<not> is_list v \<and> \<not> is_dict v"

fun distinct_values :: "pv list \<Rightarrow> bool" where
  "distinct_values [] = True"
| "distinct_values (x # xs) = (list_all (\<lambda>y. \<not> py_eq x y) xs \<and> distinct_values xs)"

definition name_of :: "pv \<Rightarrow> pv" where
  "name_of row = item (dict_of row) ''name''"

definition rows_of :: "pv \<Rightarrow> string \<Rightarrow> device_error + pv list" where
  "rows_of block field = bind_res (get_or block field PNone) (\<lambda>v. case v of
     PList rows \<Rightarrow>
       if 256 < length rows \<or> \<not> list_all is_dict rows then Inl (DeviceError ''invalid-device-authority'')
       else if \<not> list_all (\<lambda>r. hashable (name_of r)) rows then Inl (Exc TypeError)
       else if \<not> distinct_values (map name_of rows) then Inl (DeviceError ''invalid-device-authority'')
       else Inr rows
   | _ \<Rightarrow> Inl (DeviceError ''invalid-device-authority''))"

definition matching :: "string \<Rightarrow> pv list \<Rightarrow> pv list" where
  "matching name rows = filter (\<lambda>r. name_of r = PStr name) rows"

definition routed :: "pv \<Rightarrow> bool" where
  "routed row \<longleftrightarrow> has_key (dict_of row) ''address_kind'' \<and> item (dict_of row) ''address_kind'' \<noteq> PStr ''device''"

definition counted :: "string \<Rightarrow> pv list \<Rightarrow> (string \<times> nat) list \<Rightarrow> (string \<times> nat) list" where
  "counted kind rows found =
     (if rows = [] then found
      else AList.update kind ((case map_of found kind of None \<Rightarrow> 0 | Some n \<Rightarrow> n) + length rows) found)"

fun discover_in :: "string \<Rightarrow> (string \<times> nat) list \<Rightarrow> (device_error + string \<times> pv \<times> string) list
    \<Rightarrow> device_error + (string \<times> nat) list" where
  "discover_in name found [] = Inr found"
| "discover_in name found (Inl e # _) = Inl e"
| "discover_in name found (Inr (kind, block, field) # cs) = bind_res (rows_of block field) (\<lambda>rows.
     if list_ex routed (matching name rows) then Inl (DeviceError ''routed-peer-is-not-device'')
     else discover_in name (counted kind (matching name rows) found) cs)"

definition NAME :: "string \<Rightarrow> bool" where
  "NAME s = repeated (\<lambda>c. is_alnum c \<or> c = CHR ''_'' \<or> c = CHR ''-'') 1 64 s"

definition discover :: "dict \<Rightarrow> string \<Rightarrow> device_error + (string \<times> nat) list" where
  "discover doc name =
     (if \<not> NAME name then Inl (DeviceError ''invalid-device-name'') else
      bind_res (discover_in name [] (collections doc)) (\<lambda>found.
        case map_of doc ''client_registry'' of
          None \<Rightarrow> Inr found
        | Some (PDict registry) \<Rightarrow> (case map_of registry name of
            None \<Rightarrow> Inr found
          | Some (PDict _) \<Rightarrow> Inr (AList.update ''registry'' 1 found)
          | Some _ \<Rightarrow> Inl (DeviceError ''invalid-device-registry''))
        | Some _ \<Rightarrow> Inl (Exc TypeError)))"

section \<open>Removing the credentials of a device\<close>

text \<open>
  The assignments of \<open>revoke\<close> rewrite a copy of the document in place; here each gives the document
  with that part replaced.
\<close>

definition edit_key :: "string \<Rightarrow> (pv \<Rightarrow> device_error + pv) \<Rightarrow> dict \<Rightarrow> device_error + dict" where
  "edit_key k f d = (case map_of d k of None \<Rightarrow> Inr d | Some v \<Rightarrow> bind_res (f v) (\<lambda>w. Inr (AList.update k w d)))"

definition in_dict :: "(dict \<Rightarrow> device_error + dict) \<Rightarrow> pv \<Rightarrow> device_error + pv" where
  "in_dict f v = (case v of PDict d \<Rightarrow> bind_res (f d) (\<lambda>d'. Inr (PDict d')) | _ \<Rightarrow> Inl (Exc AttributeError))"

definition edit_items :: "(pv \<Rightarrow> device_error + pv) \<Rightarrow> pv \<Rightarrow> device_error + pv" where
  "edit_items f v = (case v of
     PList xs \<Rightarrow> bind_res (map_res f xs) (\<lambda>ys. Inr (PList ys))
   | _ \<Rightarrow> bind_res (iterated v) (\<lambda>xs. if xs = [] then Inr v else Inl (Exc TypeError)))"

definition without :: "string \<Rightarrow> string \<Rightarrow> pv \<Rightarrow> device_error + pv" where
  "without name field block = bind_res (subscript block field) (\<lambda>v. bind_res (iterated v) (\<lambda>rows.
     bind_res (map_res (\<lambda>r. subscript r ''name'') rows) (\<lambda>_.
       Inr (PDict (AList.update field (PList (filter (\<lambda>r. name_of r \<noteq> PStr name) rows)) (dict_of block))))))"

definition without_client :: "string \<Rightarrow> pv \<Rightarrow> device_error + pv" where
  "without_client name cohort = bind_res (subscript cohort ''clients'') (\<lambda>v. bind_res (iterated v) (\<lambda>clients.
     Inr (PDict (AList.update ''clients'' (PList (filter (\<lambda>c. c \<noteq> PStr name) clients)) (dict_of cohort)))))"

definition REVOKED :: dict where
  "REVOKED = [(''status'', PStr ''revoked''), (''awg_binding'', PNone), (''awg_private_key'', PStr []),
     (''awg_public_key_fingerprint'', PStr []), (''awg_delivery_host'', PStr []), (''last_payload_identity'', PDict []),
     (''token_hash_prefix'', PStr []), (''formats'', PList [])]"

definition revoked_entry :: "dict \<Rightarrow> dict" where
  "revoked_entry entry = AList.delete ''migration_delivery'' (foldl (\<lambda>e (k, v). AList.update k v e) entry REVOKED)"

definition revoke_entry :: "string \<Rightarrow> pv \<Rightarrow> device_error + pv" where
  "revoke_entry name = in_dict (edit_key name (\<lambda>entry.
     if entry = PNone then Inr entry else in_dict (\<lambda>e. Inr (revoked_entry e)) entry))"

definition revoke_rows :: "string \<Rightarrow> dict \<Rightarrow> device_error + dict" where
  "revoke_rows name doc =
     bind_res (edit_key ''xray'' (without name ''clients'') doc) (\<lambda>doc.
     bind_res (edit_key ''hysteria'' (without name ''clients'') doc) (\<lambda>doc.
     bind_res (edit_key ''naive_secrets'' (without name ''clients'') doc) (\<lambda>doc.
     bind_res (edit_key ''amneziawg_secrets'' (in_dict (edit_key ''instances'' (edit_items (without name ''peers'')))) doc) (\<lambda>doc.
     edit_key ''snell_secrets'' (in_dict (edit_key ''variants'' (edit_items (without name ''users'')))) doc))))"

definition revoke_document :: "string \<Rightarrow> dict \<Rightarrow> device_error + dict" where
  "revoke_document name doc = bind_res (discover doc name) (\<lambda>found.
     if found = [] then Inr doc else
     bind_res (revoke_rows name doc) (\<lambda>doc.
     bind_res (edit_key ''xray'' (in_dict (edit_key ''cohorts'' (edit_items (without_client name)))) doc) (\<lambda>doc.
     edit_key ''client_registry'' (revoke_entry name) doc)))"

definition revoke :: "(string \<times> dict) list \<Rightarrow> string \<Rightarrow> device_error + (string \<times> dict) list" where
  "revoke documents name = map_res (\<lambda>(host, doc). bind_res (revoke_document name doc) (\<lambda>doc'. Inr (host, doc'))) documents"

section \<open>Revocation removes exactly one device\<close>

lemma rows_of_Inr:
  "rows_of b f = Inr rows \<longleftrightarrow> (\<exists>d. b = PDict d \<and> map_of d f = Some (PList rows)) \<and> length rows \<le> 256
     \<and> list_all is_dict rows \<and> list_all (\<lambda>r. hashable (name_of r)) rows \<and> distinct_values (map name_of rows)"
proof -
  have "rows_of b f = Inr rows \<longleftrightarrow> get_or b f PNone = Inr (PList rows) \<and> length rows \<le> 256
     \<and> list_all is_dict rows \<and> list_all (\<lambda>r. hashable (name_of r)) rows \<and> distinct_values (map name_of rows)"
    unfolding rows_of_def bind_res_Inr by (auto split: pv.split_asm if_split_asm)
  then show ?thesis by (auto simp: get_or_Inr split: option.split_asm)
qed

lemma distinct_values_filter: "distinct_values (map f xs) \<Longrightarrow> distinct_values (map f (filter P xs))"
  by (induction xs) (auto simp: list_all_iff)

definition dropped :: "string \<Rightarrow> pv list \<Rightarrow> pv list" where
  "dropped name rows = filter (\<lambda>r. name_of r \<noteq> PStr name) rows"

lemma matching_dropped:
  "matching name (dropped name rows) = []" "other \<noteq> name \<Longrightarrow> matching other (dropped name rows) = matching other rows"
  by (auto simp: matching_def dropped_def filter_empty_conv intro!: filter_cong [OF refl])

text \<open>A collection and what the removal leaves of it.\<close>

definition stripped :: "string \<Rightarrow> string \<times> pv \<times> string \<Rightarrow> string \<times> pv \<times> string \<Rightarrow> bool" where
  "stripped name c c' \<longleftrightarrow> fst c' = fst c \<and> snd (snd c') = snd (snd c)
     \<and> (\<forall>rows. rows_of (fst (snd c)) (snd (snd c)) = Inr rows \<longrightarrow> rows_of (fst (snd c')) (snd (snd c')) = Inr (dropped name rows))"

lemma stripped_Inr:
  "rel_sum (=) (stripped name) (Inr (k, b, f)) y \<longleftrightarrow> (\<exists>b'. y = Inr (k, b', f)
     \<and> (\<forall>rows. rows_of b f = Inr rows \<longrightarrow> rows_of b' f = Inr (dropped name rows)))"
  by (cases y) (auto simp: stripped_def)

lemma discover_in_Inr:
  "discover_in name found (Inr (kind, block, field) # cs) = Inr x \<longleftrightarrow>
     (\<exists>rows. rows_of block field = Inr rows \<and> \<not> list_ex routed (matching name rows)
        \<and> discover_in name (counted kind (matching name rows) found) cs = Inr x)"
  by (auto simp: bind_res_Inr)

lemma discover_rows: "discover_in name found cs = Inr x \<Longrightarrow> c \<in> set cs \<Longrightarrow> \<exists>k b f rows. c = Inr (k, b, f) \<and> rows_of b f = Inr rows"
proof (induction cs arbitrary: found)
  case (Cons a cs)
  show ?case
  proof (cases a)
    case (Inr kbf)
    with Cons show ?thesis by (cases kbf) (auto simp: discover_in_Inr simp del: discover_in.simps)
  qed (use Cons in simp)
qed simp

lemma stripped_discover:
  assumes "list_all2 (rel_sum (=) (stripped name)) cs cs'" "list_all (\<lambda>c. \<exists>k b f rows. c = Inr (k, b, f) \<and> rows_of b f = Inr rows) cs"
  shows "discover_in name found cs' = Inr found"
    and "other \<noteq> name \<Longrightarrow> discover_in other found cs' = discover_in other found cs"
proof -
  show "discover_in name found cs' = Inr found" using assms
    by (induction cs cs' rule: list_all2_induct) (auto simp: stripped_Inr matching_dropped counted_def)
  show "discover_in other found cs' = discover_in other found cs" if "other \<noteq> name" using assms
    by (induction cs cs' arbitrary: found rule: list_all2_induct) (auto simp: stripped_Inr matching_dropped that)
qed

text \<open>The rows of a device, over all collections.\<close>

definition credentials :: "string \<Rightarrow> dict \<Rightarrow> (string \<times> pv list) list" where
  "credentials name doc = map (\<lambda>c. case c of
     Inl e \<Rightarrow> ([], [])
   | Inr (kind, block, field) \<Rightarrow> (kind, case rows_of block field of Inl e \<Rightarrow> [] | Inr rows \<Rightarrow> matching name rows)) (collections doc)"

lemma edit_key_Inr:
  assumes "edit_key k f d = Inr d'"
  shows "rel_option (\<lambda>v w. f v = Inr w) (map_of d k) (map_of d' k)" and "k' \<noteq> k \<Longrightarrow> map_of d' k' = map_of d k'"
  using assms by (auto simp: edit_key_def bind_res_Inr split: option.split_asm)

lemma in_dict_Inr: "in_dict f v = Inr w \<longleftrightarrow> (\<exists>d d'. v = PDict d \<and> f d = Inr d' \<and> w = PDict d')"
  by (cases v) (auto simp: in_dict_def bind_res_Inr)

lemma map_res_Inr: "map_res f xs = Inr ys \<longleftrightarrow> list_all2 (\<lambda>x y. f x = Inr y) xs ys"
  by (induction xs arbitrary: ys) (auto simp: bind_res_Inr list_all2_Cons1)

lemma without_Inr:
  "without name f b = Inr b' \<Longrightarrow> rows_of b f = Inr rows \<Longrightarrow> \<exists>d. b = PDict d \<and> b' = PDict (AList.update f (PList (dropped name rows)) d)"
  by (auto simp: without_def bind_res_Inr subscript_Inr rows_of_Inr iterated_def dropped_def)

lemma without_rows: "without name f b = Inr b' \<Longrightarrow> rows_of b f = Inr rows \<Longrightarrow> rows_of b' f = Inr (dropped name rows)"
  using without_Inr [of name f b b' rows]
  by (auto simp: rows_of_Inr dropped_def list_all_iff distinct_values_filter intro: le_trans [OF length_filter_le])

lemma without_stripped: "without name f b = Inr b' \<Longrightarrow> stripped name (k, b, f) (k, b', f)"
  by (simp add: stripped_def without_rows)

lemma nested_cong: "map_of d' s = map_of d s \<Longrightarrow> nested d' s k = nested d s k"
  by (simp add: nested_def get_or_def)

lemma edit_items_Inr:
  assumes "edit_items f v = Inr w" "iterated v = Inr xs"
  shows "\<exists>ys. iterated w = Inr ys \<and> list_all2 (\<lambda>x y. f x = Inr y) xs ys"
  using assms by (cases v) (auto simp: edit_items_def iterated_def bind_res_Inr map_res_Inr split: if_split_asm)

lemma nested_edit:
  assumes "edit_key s (in_dict (edit_key k (edit_items f))) d = Inr d'" "nested d s k = Inr xs"
  shows "\<exists>ys. nested d' s k = Inr ys \<and> list_all2 (\<lambda>x y. f x = Inr y) xs ys"
proof (cases "map_of d s")
  case None
  with edit_key_Inr(1) [OF assms(1)] have "map_of d' s = None" by simp
  with None assms(2) show ?thesis by (auto simp: nested_def get_or_def iterated_def)
next
  case (Some v)
  with edit_key_Inr(1) [OF assms(1)] obtain e e' where e: "v = PDict e" "edit_key k (edit_items f) e = Inr e'" "map_of d' s = Some (PDict e')"
    by (auto simp: in_dict_Inr option_rel_Some1)
  show ?thesis
  proof (cases "map_of e k")
    case None
    with edit_key_Inr(1) [OF e(2)] have "map_of e' k = None" by simp
    with None Some e assms(2) show ?thesis by (auto simp: nested_def get_or_def iterated_def)
  next
    case (Some u)
    with edit_key_Inr(1) [OF e(2)] obtain u' where "edit_items f u = Inr u'" "map_of e' k = Some u'"
      by (auto simp: option_rel_Some1)
    with Some \<open>map_of d s = Some v\<close> e assms(2) edit_items_Inr [of f u u' xs] show ?thesis
      by (simp add: nested_def get_or_def)
  qed
qed

lemma collections_stripped:
  assumes error: "\<And>e. Inl e \<notin> set (collections doc)"
    and sections: "\<And>s. s \<in> {''xray'', ''hysteria'', ''naive_secrets''} \<Longrightarrow>
      rel_option (\<lambda>b b'. \<forall>rows. rows_of b ''clients'' = Inr rows \<longrightarrow> rows_of b' ''clients'' = Inr (dropped name rows)) (map_of doc s) (map_of doc' s)"
    and awg: "\<And>xs. nested doc ''amneziawg_secrets'' ''instances'' = Inr xs \<Longrightarrow>
      \<exists>ys. nested doc' ''amneziawg_secrets'' ''instances'' = Inr ys \<and> list_all2 (\<lambda>x y. without name ''peers'' x = Inr y) xs ys"
    and snell: "\<And>xs. nested doc ''snell_secrets'' ''variants'' = Inr xs \<Longrightarrow>
      \<exists>ys. nested doc' ''snell_secrets'' ''variants'' = Inr ys \<and> list_all2 (\<lambda>x y. without name ''users'' x = Inr y) xs ys"
  shows "list_all2 (rel_sum (=) (stripped name)) (collections doc) (collections doc')"
proof -
  let ?R = "list_all2 (rel_sum (=) (stripped name))"
  let ?sec = "\<lambda>d (kind, s). case map_of d s of None \<Rightarrow> [] | Some b \<Rightarrow> [Inr (kind, b, ''clients'')]"
  have part: "?R (?sec doc (k, s)) (?sec doc' (k, s))" if "s \<in> {''xray'', ''hysteria'', ''naive_secrets''}" for k s
    using sections [OF that] by (cases "map_of doc s"; cases "map_of doc' s") (auto simp: stripped_def)
  have secs: "?R (concat (map (?sec doc) SECTIONS)) (concat (map (?sec doc') SECTIONS))"
    using part by (auto simp: SECTIONS_def intro!: list_all2_appendI)
  obtain xs where xs: "nested doc ''amneziawg_secrets'' ''instances'' = Inr xs"
    using error by (cases "nested doc ''amneziawg_secrets'' ''instances''") (auto simp: collections_def)
  obtain us where us: "nested doc ''snell_secrets'' ''variants'' = Inr us"
    using error xs by (cases "nested doc ''snell_secrets'' ''variants''") (auto simp: collections_def)
  from awg [OF xs] snell [OF us] obtain ys vs
    where ys: "nested doc' ''amneziawg_secrets'' ''instances'' = Inr ys" "list_all2 (\<lambda>x y. without name ''peers'' x = Inr y) xs ys"
      and vs: "nested doc' ''snell_secrets'' ''variants'' = Inr vs" "list_all2 (\<lambda>x y. without name ''users'' x = Inr y) us vs" by blast
  have lists: "?R (map (\<lambda>b. Inr (k, b, f)) as) (map (\<lambda>b. Inr (k, b, f)) bs)"
    if "list_all2 (\<lambda>x y. without name f x = Inr y) as bs" for k f as bs
    using that by (auto simp: list_all2_map1 list_all2_map2 without_stripped elim!: list_all2_mono)
  show ?thesis
    using list_all2_appendI [OF secs list_all2_appendI [OF lists [OF ys(2), of "''awg''"] lists [OF vs(2), of "''snell''"]]] xs us ys vs
    by (simp add: collections_def)
qed

definition registered :: "dict \<Rightarrow> string \<Rightarrow> dict option" where
  "registered doc name = (case map_of doc ''client_registry'' of
     Some (PDict registry) \<Rightarrow> (case map_of registry name of Some (PDict entry) \<Rightarrow> Some entry | _ \<Rightarrow> None)
   | _ \<Rightarrow> None)"

lemma discover_Inr:
  assumes "discover doc name = Inr found"
  obtains rows where "NAME name" "discover_in name [] (collections doc) = Inr rows"
    "found = (if registered doc name = None then rows else AList.update ''registry'' 1 rows)"
  using assms by (fastforce simp: discover_def registered_def bind_res_Inr split: if_split_asm option.split_asm pv.split_asm)

lemma update_nonempty: "AList.update k v d \<noteq> []"
  by (cases d) auto

lemma counted_empty: "counted k m found = [] \<longleftrightarrow> m = [] \<and> found = []"
  by (simp add: counted_def update_nonempty)

lemma discover_in_empty: "discover_in name found cs = Inr [] \<Longrightarrow> found = [] \<and> (\<forall>k b f rows. Inr (k, b, f) \<in> set cs \<and> rows_of b f = Inr rows \<longrightarrow> matching name rows = [])"
proof (induction cs arbitrary: found)
  case (Cons c cs)
  show ?case
  proof (cases c)
    case (Inr kbf)
    obtain k b f where c: "c = Inr (k, b, f)" using Inr by (cases kbf) simp
    with Cons.prems obtain rows where r: "rows_of b f = Inr rows" "discover_in name (counted k (matching name rows) found) cs = Inr []"
      by (auto simp: discover_in_Inr simp del: discover_in.simps)
    from Cons.IH [OF r(2)] r(1) c show ?thesis by (auto simp: counted_empty)
  qed (use Cons in simp)
qed simp

lemma credentials_none:
  assumes "list_all (\<lambda>c. case c of Inl e \<Rightarrow> True | Inr (k, b, f) \<Rightarrow> \<forall>rows. rows_of b f = Inr rows \<longrightarrow> matching name rows = []) (collections doc)"
  shows "list_all (\<lambda>c. snd c = []) (credentials name doc)"
  using assms by (fastforce simp: credentials_def list_all_iff split: sum.split)

lemma credentials_stripped:
  assumes "list_all2 (rel_sum (=) (stripped name)) cs cs'" "list_all (\<lambda>c. \<exists>k b f rows. c = Inr (k, b, f) \<and> rows_of b f = Inr rows) cs"
    and "cs = collections doc" "cs' = collections doc'"
  shows "list_all (\<lambda>c. snd c = []) (credentials name doc')"
    and "other \<noteq> name \<Longrightarrow> credentials other doc' = credentials other doc"
proof -
  have "list_all (\<lambda>c. case c of Inl e \<Rightarrow> True | Inr (k, b, f) \<Rightarrow> \<forall>rows. rows_of b f = Inr rows \<longrightarrow> matching name rows = []) cs'"
    using assms(1,2) by (induction cs cs' rule: list_all2_induct) (auto simp: stripped_Inr matching_dropped)
  with assms(4) show "list_all (\<lambda>c. snd c = []) (credentials name doc')" by (simp add: credentials_none)
  show "credentials other doc' = credentials other doc" if "other \<noteq> name"
    using assms(1,2) unfolding credentials_def assms(3,4) [symmetric]
    by (induction cs cs' rule: list_all2_induct) (auto simp: stripped_Inr matching_dropped that)
qed

lemma revoked_entry_item: "item (revoked_entry e) ''status'' = PStr ''revoked''" "item (revoked_entry e) ''awg_private_key'' = PStr []"
  by (simp_all add: revoked_entry_def REVOKED_def item_def)

text \<open>The fields of a document that a removal may touch, and what it makes of each.\<close>

definition TOUCHED :: "string set" where
  "TOUCHED = {''xray'', ''hysteria'', ''naive_secrets'', ''amneziawg_secrets'', ''snell_secrets'', ''client_registry''}"

lemma revoke_rows_Inr:
  assumes "revoke_rows name doc = Inr doc'"
  shows "s \<in> {''xray'', ''hysteria'', ''naive_secrets''} \<Longrightarrow> rel_option (\<lambda>b b'. without name ''clients'' b = Inr b') (map_of doc s) (map_of doc' s)"
    and "nested doc ''amneziawg_secrets'' ''instances'' = Inr xs \<Longrightarrow>
      \<exists>ys. nested doc' ''amneziawg_secrets'' ''instances'' = Inr ys \<and> list_all2 (\<lambda>x y. without name ''peers'' x = Inr y) xs ys"
    and "nested doc ''snell_secrets'' ''variants'' = Inr xs \<Longrightarrow>
      \<exists>ys. nested doc' ''snell_secrets'' ''variants'' = Inr ys \<and> list_all2 (\<lambda>x y. without name ''users'' x = Inr y) xs ys"
    and "k \<notin> TOUCHED \<or> k = ''client_registry'' \<Longrightarrow> map_of doc' k = map_of doc k"
proof -
  let ?nest = "\<lambda>k f. in_dict (edit_key k (edit_items (without name f)))"
  obtain d1 d2 d3 d4 where d: "edit_key ''xray'' (without name ''clients'') doc = Inr d1"
    "edit_key ''hysteria'' (without name ''clients'') d1 = Inr d2" "edit_key ''naive_secrets'' (without name ''clients'') d2 = Inr d3"
    "edit_key ''amneziawg_secrets'' (?nest ''instances'' ''peers'') d3 = Inr d4" "edit_key ''snell_secrets'' (?nest ''variants'' ''users'') d4 = Inr doc'"
    using assms by (auto simp: revoke_rows_def bind_res_Inr)
  note e = d [THEN edit_key_Inr(1)] and k = d [THEN edit_key_Inr(2)]
  show "s \<in> {''xray'', ''hysteria'', ''naive_secrets''} \<Longrightarrow> rel_option (\<lambda>b b'. without name ''clients'' b = Inr b') (map_of doc s) (map_of doc' s)"
    using e(1,2,3) k by auto
  show "k \<notin> TOUCHED \<or> k = ''client_registry'' \<Longrightarrow> map_of doc' k = map_of doc k" using k by (auto simp: TOUCHED_def)
  show "\<exists>ys. nested doc' ''amneziawg_secrets'' ''instances'' = Inr ys \<and> list_all2 (\<lambda>x y. without name ''peers'' x = Inr y) xs ys"
    if "nested doc ''amneziawg_secrets'' ''instances'' = Inr xs"
  proof -
    have "map_of d3 ''amneziawg_secrets'' = map_of doc ''amneziawg_secrets''" using k(1,2,3) by simp
    from nested_cong [OF this] that have "nested d3 ''amneziawg_secrets'' ''instances'' = Inr xs" by simp
    from nested_edit [OF d(4) this] nested_cong [OF k(5)] show ?thesis by simp
  qed
  show "\<exists>ys. nested doc' ''snell_secrets'' ''variants'' = Inr ys \<and> list_all2 (\<lambda>x y. without name ''users'' x = Inr y) xs ys"
    if "nested doc ''snell_secrets'' ''variants'' = Inr xs"
  proof -
    have "map_of d4 ''snell_secrets'' = map_of doc ''snell_secrets''" using k(1,2,3,4) by simp
    from nested_cong [OF this] that have "nested d4 ''snell_secrets'' ''variants'' = Inr xs" by simp
    from nested_edit [OF d(5) this] show ?thesis .
  qed
qed

lemma cohorts_keep_rows:
  assumes "in_dict (edit_key ''cohorts'' f) b = Inr b'"
  shows "rows_of b' ''clients'' = rows_of b ''clients''"
  using assms edit_key_Inr(2) [of "''cohorts''" f _ _ "''clients''"] by (auto simp: in_dict_Inr rows_of_def get_or_def)

lemma revoke_document_Inr:
  assumes "revoke_document name doc = Inr doc'" "discover doc name = Inr found" "found \<noteq> []"
  shows "list_all2 (rel_sum (=) (stripped name)) (collections doc) (collections doc')"
    and "rel_option (\<lambda>v w. revoke_entry name v = Inr w) (map_of doc ''client_registry'') (map_of doc' ''client_registry'')"
    and "k \<notin> TOUCHED \<Longrightarrow> map_of doc' k = map_of doc k"
proof -
  obtain d1 d2 where d: "revoke_rows name doc = Inr d1"
    "edit_key ''xray'' (in_dict (edit_key ''cohorts'' (edit_items (without_client name)))) d1 = Inr d2" "edit_key ''client_registry'' (revoke_entry name) d2 = Inr doc'"
    using assms by (auto simp: revoke_document_def bind_res_Inr)
  note rows = revoke_rows_Inr [OF d(1)] and x = edit_key_Inr [OF d(2)] and r = edit_key_Inr [OF d(3)]
  show "k \<notin> TOUCHED \<Longrightarrow> map_of doc' k = map_of doc k" using rows(4) x(2) r(2) by (auto simp: TOUCHED_def)
  show "rel_option (\<lambda>v w. revoke_entry name v = Inr w) (map_of doc ''client_registry'') (map_of doc' ''client_registry'')"
    using r(1) x(2) [of "''client_registry''"] rows(4) [of "''client_registry''"] by simp
  have other: "map_of doc' s = map_of d1 s" if "s \<noteq> ''xray''" "s \<noteq> ''client_registry''" for s using x(2) r(2) that by simp
  obtain rs where "discover_in name [] (collections doc) = Inr rs" using assms(2) by (rule discover_Inr)
  from discover_rows [OF this] have err: "Inl e \<notin> set (collections doc)" for e by blast
  show "list_all2 (rel_sum (=) (stripped name)) (collections doc) (collections doc')"
  proof (rule collections_stripped [OF err])
    fix s assume s: "s \<in> {''xray'', ''hysteria'', ''naive_secrets''}"
    have "rel_option (\<lambda>b b'. rows_of b' ''clients'' = rows_of b ''clients'') (map_of d1 s) (map_of doc' s)"
    proof (cases "s = ''xray''")
      case True
      with x(1) r(2) [of "''xray''"] show ?thesis by (auto simp: cohorts_keep_rows elim!: option.rel_mono_strong)
    next
      case False
      with s other [of s] show ?thesis by (auto simp: option.rel_refl)
    qed
    with rows(1) [OF s] show "rel_option (\<lambda>b b'. \<forall>rows. rows_of b ''clients'' = Inr rows \<longrightarrow> rows_of b' ''clients'' = Inr (dropped name rows)) (map_of doc s) (map_of doc' s)"
      by (cases "map_of doc s"; cases "map_of d1 s"; cases "map_of doc' s") (auto simp: without_rows)
  qed (use rows(2,3) nested_cong [OF other] in auto)
qed

lemma revoke_entry_registered:
  assumes "rel_option (\<lambda>v w. revoke_entry name v = Inr w) (map_of doc ''client_registry'') (map_of doc' ''client_registry'')"
  shows "registered doc' name = map_option revoked_entry (registered doc name)"
    and "other \<noteq> name \<Longrightarrow> registered doc' other = registered doc other"
proof -
  have "registered doc' name = map_option revoked_entry (registered doc name) \<and> (other \<noteq> name \<longrightarrow> registered doc' other = registered doc other)"
  proof (cases "map_of doc ''client_registry''")
    case None
    with assms show ?thesis by (simp add: registered_def)
  next
    case (Some v)
    with assms obtain r r' where r: "v = PDict r" "map_of doc' ''client_registry'' = Some (PDict r')"
      "edit_key name (\<lambda>entry. if entry = PNone then Inr entry else in_dict (\<lambda>e. Inr (revoked_entry e)) entry) r = Inr r'"
      by (auto simp: option_rel_Some1 revoke_entry_def in_dict_Inr)
    from edit_key_Inr [OF r(3)] show ?thesis using Some r(1,2)
      by (auto simp: registered_def in_dict_Inr option_rel_Some1 split: option.split pv.split if_split_asm)
  qed
  then show "registered doc' name = map_option revoked_entry (registered doc name)"
    "other \<noteq> name \<Longrightarrow> registered doc' other = registered doc other" by simp_all
qed

lemma revoke_entry_discover:
  assumes "rel_option (\<lambda>v w. revoke_entry name v = Inr w) (map_of doc ''client_registry'') (map_of doc' ''client_registry'')"
    and "other \<noteq> name" "discover_in other [] (collections doc') = discover_in other [] (collections doc)"
  shows "discover doc' other = discover doc other"
proof (cases "map_of doc ''client_registry''")
  case None
  with assms show ?thesis by (simp add: discover_def)
next
  case (Some v)
  with assms(1) obtain r r' where r: "v = PDict r" "map_of doc' ''client_registry'' = Some (PDict r')"
    "edit_key name (\<lambda>entry. if entry = PNone then Inr entry else in_dict (\<lambda>e. Inr (revoked_entry e)) entry) r = Inr r'"
    by (auto simp: option_rel_Some1 revoke_entry_def in_dict_Inr)
  from edit_key_Inr(2) [OF r(3) assms(2)] show ?thesis using Some r(1,2) assms(3) by (simp add: discover_def)
qed

lemma discover_registered:
  assumes "NAME name" "discover_in name [] (collections doc) = Inr []" "registered doc name = Some e"
  shows "discover doc name = Inr [(''registry'', 1)]"
  using assms by (auto simp: discover_def registered_def split: option.split_asm pv.split_asm)

text \<open>What holds of one document, whether or not the device was in it.\<close>

definition device_gone :: "string \<Rightarrow> dict \<Rightarrow> bool" where
  "device_gone name doc \<longleftrightarrow> (\<exists>found. discover doc name = Inr found \<and> map fst found \<in> {[], [''registry'']})
     \<and> list_all (\<lambda>c. snd c = []) (credentials name doc)
     \<and> (\<forall>entry. registered doc name = Some entry \<longrightarrow> item entry ''status'' = PStr ''revoked'' \<and> item entry ''awg_private_key'' = PStr [])"

lemma undiscovered_gone: "discover doc name = Inr [] \<Longrightarrow> device_gone name doc"
proof -
  assume d: "discover doc name = Inr []"
  then obtain rows where r: "discover_in name [] (collections doc) = Inr rows" "[] = (if registered doc name = None then rows else AList.update ''registry'' 1 rows)"
    by (rule discover_Inr)
  then have e: "discover_in name [] (collections doc) = Inr []" "registered doc name = None"
    by (auto simp: update_nonempty [symmetric] split: if_split_asm)
  from discover_in_empty [OF e(1)] have "list_all (\<lambda>c. snd c = []) (credentials name doc)"
    by (intro credentials_none) (auto simp: list_all_iff split: sum.split)
  with d e(2) show ?thesis by (simp add: device_gone_def)
qed

lemma revoke_document_gone:
  assumes "revoke_document name doc = Inr doc'"
  shows "device_gone name doc'"
    and "other \<noteq> name \<Longrightarrow> discover doc' other = discover doc other \<and> credentials other doc' = credentials other doc \<and> registered doc' other = registered doc other"
    and "k \<notin> TOUCHED \<Longrightarrow> map_of doc' k = map_of doc k"
proof -
  obtain found where f: "discover doc name = Inr found" using assms by (auto simp: revoke_document_def bind_res_Inr)
  have "device_gone name doc' \<and> (other \<noteq> name \<longrightarrow> discover doc' other = discover doc other \<and> credentials other doc' = credentials other doc
      \<and> registered doc' other = registered doc other) \<and> (k \<notin> TOUCHED \<longrightarrow> map_of doc' k = map_of doc k)"
  proof (cases "found = []")
    case True
    with assms f have "doc' = doc" by (simp add: revoke_document_def)
    with undiscovered_gone f True show ?thesis by simp
  next
    case False
    note d = revoke_document_Inr [OF assms f False]
    from f obtain rs where n: "NAME name" and rs: "discover_in name [] (collections doc) = Inr rs" by (rule discover_Inr)
    have ok: "list_all (\<lambda>c. \<exists>k b f rows. c = Inr (k, b, f) \<and> rows_of b f = Inr rows) (collections doc)"
      using discover_rows [OF rs] by (auto simp: list_all_iff)
    note in' = stripped_discover [OF d(1) ok] and cr = credentials_stripped [OF d(1) ok refl refl] and re = revoke_entry_registered [OF d(2)]
    have "\<exists>found. discover doc' name = Inr found \<and> map fst found \<in> {[], [''registry'']}"
    proof (cases "registered doc' name")
      case None
      with re(1) have "registered doc name = None" by simp
      then show ?thesis using f d(2) n in'(1) [of "[]"] by (cases "map_of doc ''client_registry''")
          (auto simp: discover_def registered_def bind_res_Inr rs option_rel_Some1 revoke_entry_def in_dict_Inr edit_key_def
            split: option.split_asm pv.split_asm if_split_asm)
    next
      case (Some e)
      from discover_registered [OF n in'(1) this] show ?thesis by simp
    qed
    then have "device_gone name doc'" using cr(1) re(1) by (auto simp: device_gone_def revoked_entry_item)
    then show ?thesis using d(3) cr(2) re(2) revoke_entry_discover [OF d(2) _ in'(2)] by simp
  qed
  then show "device_gone name doc'" "k \<notin> TOUCHED \<Longrightarrow> map_of doc' k = map_of doc k"
    "other \<noteq> name \<Longrightarrow> discover doc' other = discover doc other \<and> credentials other doc' = credentials other doc \<and> registered doc' other = registered doc other"
    by simp_all
qed


definition sample_document :: dict where
  "sample_document =
     [(''xray'', PDict [(''clients'', PList [PDict [(''name'', PStr ''phone''), (''uuid'', PStr ''u1'')], PDict [(''name'', PStr ''laptop''), (''uuid'', PStr ''u2'')]]),
        (''cohorts'', PList [PDict [(''name'', PStr ''all''), (''clients'', PList [PStr ''phone'', PStr ''laptop''])]])]),
      (''amneziawg_secrets'', PDict [(''instances'', PList [PDict [(''peers'', PList [PDict [(''name'', PStr ''phone'')]])]])]),
      (''client_registry'', PDict [(''phone'', PDict [(''status'', PStr ''active''), (''awg_private_key'', PStr ''k'')])])]"

definition sample_revoked :: dict where
  "sample_revoked =
     [(''xray'', PDict [(''clients'', PList [PDict [(''name'', PStr ''laptop''), (''uuid'', PStr ''u2'')]]),
        (''cohorts'', PList [PDict [(''name'', PStr ''all''), (''clients'', PList [PStr ''laptop''])]])]),
      (''amneziawg_secrets'', PDict [(''instances'', PList [PDict [(''peers'', PList [])]])]),
      (''client_registry'', PDict [(''phone'', PDict [(''status'', PStr ''revoked''), (''awg_private_key'', PStr []), (''awg_binding'', PNone),
        (''awg_public_key_fingerprint'', PStr []), (''awg_delivery_host'', PStr []), (''last_payload_identity'', PDict []),
        (''token_hash_prefix'', PStr []), (''formats'', PList [])])])]"

lemma sample_revoke: "revoke [(''a:b'', sample_document), (''a:c'', [])] ''phone'' = Inr [(''a:b'', sample_revoked), (''a:c'', [])]"
  by code_simp


end
