(* ===== verification/DeviceJournal.thy ===== *)
theory DeviceJournal
  imports DeviceCredentials
begin

text \<open>
  The data of device operations, from \<^verbatim>\<open>scripts/device_lifecycle.py\<close>, with the snapshot of a
  publisher from \<^verbatim>\<open>scripts/device_migration.py\<close>: the journal of an
  operation inside the encrypted document of one node, the checks that every read and every write of it makes, and
  the rows that a publisher reports. Documents are JSON, so their text has no \<open>NaN\<close>, and the
  published documents are read as UTF-8.
\<close>

section \<open>Text encodings\<close>

definition encoded :: "pv \<Rightarrow> string" where
  "encoded v = dumps_sorted v"

text \<open>\<open>base64.b64decode(value, validate=True)\<close>.\<close>

definition b64_digit :: "char \<Rightarrow> nat option" where
  "b64_digit c = (let n = ord_of c in
     if is_upper c then Some (n - 65) else if is_lower c then Some (n - 71) else if is_digit c then Some (n + 4)
     else if c = CHR ''+'' then Some 62 else if c = CHR ''/'' then Some 63 else None)"

fun un64_text :: "string \<Rightarrow> string option" where
  "un64_text [] = Some []"
| "un64_text (a # b # c # d # rest) =
     (case (b64_digit a, b64_digit b, b64_digit c, b64_digit d) of
        (Some x, Some y, Some z, Some w) \<Rightarrow> (case un64_text rest of
            None \<Rightarrow> None
          | Some t \<Rightarrow> Some (char_of (x * 4 + y div 16) # char_of (y mod 16 * 16 + z div 4) # char_of (z mod 4 * 64 + w) # t))
      | (Some x, Some y, Some z, None) \<Rightarrow>
          if d = CHR ''='' \<and> rest = [] then Some [char_of (x * 4 + y div 16), char_of (y mod 16 * 16 + z div 4)] else None
      | (Some x, Some y, None, None) \<Rightarrow>
          if c = CHR ''='' \<and> d = CHR ''='' \<and> rest = [] then Some [char_of (x * 4 + y div 16)] else None
      | _ \<Rightarrow> None)"
| "un64_text _ = None"

definition un64 :: "string \<Rightarrow> device_error + string" where
  "un64 s = (case un64_text s of None \<Rightarrow> Inl (Exc ValueError) | Some t \<Rightarrow> Inr t)"

section \<open>What a publisher reports\<close>

definition unique_object :: "string \<Rightarrow> device_error + pv" where
  "unique_object raw = (case decode_json unique_hook raw of
     Inl (Json JHook) \<Rightarrow> Inl (DeviceError ''duplicate-migration-field'') | Inl _ \<Rightarrow> Inl (Exc ValueError) | Inr v \<Rightarrow> Inr v)"

definition envelope :: "string \<Rightarrow> device_error + dict \<times> dict" where
  "envelope raw = bind_res (unique_object raw) (\<lambda>v. case v of
     PDict d \<Rightarrow>
       if \<not> keys_are d [''schema_version'', ''client'', ''expires'', ''payload_b64''] \<or> \<not> eq_int (item d ''schema_version'') 1
         \<or> \<not> is_str (item d ''client'') \<or> \<not> is_str (item d ''expires'') \<or> \<not> is_str (item d ''payload_b64'')
       then Inl (DeviceError ''invalid-migration-document'')
       else bind_res (un64 (str_of (item d ''payload_b64''))) (\<lambda>raw. bind_res (unique_object raw) (\<lambda>p. case p of
         PDict payload \<Rightarrow> Inr (d, payload) | _ \<Rightarrow> Inl (DeviceError ''invalid-migration-payload'')))
   | _ \<Rightarrow> Inl (DeviceError ''invalid-migration-document''))"

definition client_of :: "string \<Rightarrow> device_error + string" where
  "client_of document = bind_res (un64 document) (\<lambda>raw. bind_res (envelope raw) (\<lambda>(d, _). Inr (str_of (item d ''client''))))"

record row =
  document_b64 :: string
  revoked :: bool
  expired :: bool

record snapshot =
  rows :: "(string \<times> row) list"
  bootstrap :: int

definition HEX :: "pv \<Rightarrow> bool" where
  "HEX v \<longleftrightarrow> is_str v \<and> hex64 (str_of v)"

fun snapshot_rows :: "(string \<Rightarrow> string) \<Rightarrow> (string \<times> row) list \<Rightarrow> nat \<Rightarrow> pv list \<Rightarrow> device_error + (string \<times> row) list" where
  "snapshot_rows sha seen amount [] = Inr seen"
| "snapshot_rows sha seen amount (v # vs) = (case v of
     PDict r \<Rightarrow>
       if \<not> keys_are r [''token_hash'', ''document_sha256'', ''document_b64'', ''revoked'', ''expired'']
         \<or> \<not> HEX (item r ''token_hash'') \<or> \<not> HEX (item r ''document_sha256'') \<or> \<not> is_bool (item r ''revoked'') \<or> \<not> is_bool (item r ''expired'')
         \<or> map_of seen (str_of (item r ''token_hash'')) \<noteq> None
       then Inl (DeviceError ''invalid-migration-snapshot-row'')
       else if \<not> is_str (item r ''document_b64'') then Inl (Exc TypeError)
       else bind_res (un64 (str_of (item r ''document_b64''))) (\<lambda>content.
         if 2 * 1024 * 1024 < amount + length content \<or> sha content \<noteq> str_of (item r ''document_sha256'')
         then Inl (DeviceError ''invalid-migration-snapshot-content'')
         else bind_res (envelope content) (\<lambda>_. snapshot_rows sha
           (seen @ [(str_of (item r ''token_hash''),
              \<lparr>document_b64 = str_of (item r ''document_b64''), revoked = bool_of (item r ''revoked''), expired = bool_of (item r ''expired'')\<rparr>)])
           (amount + length content) vs))
   | _ \<Rightarrow> Inl (DeviceError ''invalid-migration-snapshot-row''))"

definition parse_snapshot :: "(string \<Rightarrow> string) \<Rightarrow> pv \<Rightarrow> device_error + snapshot" where
  "parse_snapshot sha v = (case v of
     PDict d \<Rightarrow>
       if \<not> keys_are d [''schema_version'', ''documents'', ''active_bootstrap_count''] \<or> \<not> eq_int (item d ''schema_version'') 1
         \<or> \<not> is_list (item d ''documents'') \<or> 256 < length (list_of (item d ''documents''))
         \<or> \<not> type_is_int (item d ''active_bootstrap_count'') \<or> int_of (item d ''active_bootstrap_count'') < 0
       then Inl (DeviceError ''invalid-migration-snapshot'')
       else bind_res (snapshot_rows sha [] 0 (list_of (item d ''documents''))) (\<lambda>rs.
         Inr \<lparr>rows = rs, bootstrap = int_of (item d ''active_bootstrap_count'')\<rparr>)
   | _ \<Rightarrow> Inl (DeviceError ''invalid-migration-snapshot''))"

section \<open>The journal\<close>

datatype action = Issue | Refresh | Revoke

datatype phase = Prepared | AuthorityWritten | RuntimeAdopted | Complete

type_synonym source = "string \<times> string"

record grant =
  before_b64 :: "string option"
  after_b64 :: string

record canary =
  ctoken :: string
  cdocument :: string
  positive :: bool
  cleanup_started :: bool
  cleaned :: bool

record journal =
  jmanifest :: string
  jphase :: phase
  jaction :: action
  jdevice :: string
  jsource :: source
  jbefore :: "(string \<times> string) list"
  jafter :: "(string \<times> dict) list"
  jprofiles :: "(string \<times> dict list) list"
  jgrants :: "(string \<times> (string \<times> grant) list) list"
  jwritten :: "string list"
  jadopted :: "string list"
  jpublished :: "string list"
  jartifact :: "string option"
  jcanaries :: "(string \<times> canary) list"
  jrevocation :: "source option"

text \<open>
  A document of a node: its own fields, and the records of device operations apart. A record that has not the
  shape of a journal is kept as the value it is.
\<close>

datatype stored = Shaped journal | Misshapen pv

record document =
  own :: dict
  operations :: "(string \<times> stored) list option"

record manifest =
  mvalue :: pv
  mid :: string
  maction :: action
  mdevice :: string
  mjournal_host :: string
  mnodes :: "string list"
  mpublishers :: "string list"
  mformat :: "string option"
  moutput :: string
  mhosts :: "string list"

definition native :: "manifest \<Rightarrow> bool" where
  "native m \<longleftrightarrow> mformat m = Some ''native''"

text \<open>The journal as the JSON value that is stored; the shapes of its fields are those of the schema of secrets documents.\<close>

definition action_text :: "action \<Rightarrow> string" where
  "action_text a = (case a of Issue \<Rightarrow> ''issue'' | Refresh \<Rightarrow> ''refresh'' | Revoke \<Rightarrow> ''revoke'')"

definition phase_text :: "phase \<Rightarrow> string" where
  "phase_text p = (case p of Prepared \<Rightarrow> ''prepared'' | AuthorityWritten \<Rightarrow> ''authority-written'' | RuntimeAdopted \<Rightarrow> ''runtime-adopted''
     | Complete \<Rightarrow> ''complete'')"

definition opt_text :: "string option \<Rightarrow> pv" where
  "opt_text x = (case x of None \<Rightarrow> PNone | Some s \<Rightarrow> PStr s)"

definition object_of :: "('a \<Rightarrow> pv) \<Rightarrow> (string \<times> 'a) list \<Rightarrow> pv" where
  "object_of f d = PDict (map (\<lambda>kv. (fst kv, f (snd kv))) d)"

definition immutable :: "journal \<Rightarrow> dict" where
  "immutable j = [(''schema_version'', PInt 1), (''manifest_sha256'', PStr (jmanifest j)), (''action'', PStr (action_text (jaction j))),
     (''device'', PStr (jdevice j)),
     (''source'', PDict [(''DEPLOY_SOURCE_REVISION'', PStr (fst (jsource j))), (''DEPLOYABLE_SOURCE_DIGEST'', PStr (snd (jsource j)))]),
     (''before'', object_of PStr (jbefore j)), (''after'', object_of PDict (jafter j)), (''profiles'', object_of (\<lambda>ps. PList (map PDict ps)) (jprofiles j)),
     (''grants'', object_of (object_of (\<lambda>g. PDict [(''before'', opt_text (before_b64 g)), (''after'', PStr (after_b64 g))])) (jgrants j)),
     (''artifact'', opt_text (jartifact j))]"

definition canary_value :: "canary \<Rightarrow> dict" where
  "canary_value c = [(''token'', PStr (ctoken c)), (''document_b64'', PStr (cdocument c))]"

definition revocation_intent :: "(string \<Rightarrow> string) \<Rightarrow> journal \<Rightarrow> string \<Rightarrow> source" where
  "revocation_intent sha j operation_id =
     (operation_id, sha (encoded (PDict (immutable j @ [(''canaries'', object_of (\<lambda>c. PDict (canary_value c)) (jcanaries j))]))))"

definition journal_value :: "journal \<Rightarrow> pv" where
  "journal_value j = PDict (immutable j @
     [(''phase'', PStr (phase_text (jphase j))), (''written'', PList (map PStr (jwritten j))), (''adopted'', PList (map PStr (jadopted j))),
      (''published'', PList (map PStr (jpublished j))),
      (''canaries'', object_of (\<lambda>c. PDict (canary_value c @ [(''positive'', PBool (positive c)), (''cleanup_started'', PBool (cleanup_started c)),
         (''cleaned'', PBool (cleaned c))])) (jcanaries j)),
      (''revocation'', case jrevocation j of None \<Rightarrow> PNone | Some (i, d) \<Rightarrow> PDict [(''operation_id'', PStr i), (''intent_sha256'', PStr d)])])"

section \<open>The schema of a journal\<close>

text \<open>
  The constraints of \<^verbatim>\<open>$defs/device_operation_record\<close> in \<^verbatim>\<open>secrets/schema.json\<close> beyond the shapes
  of the fields. A \<open>$\<close> of its patterns also matches before a final line feed. That a document
  satisfies the whole schema of secrets documents is a parameter. The keys of an object are different.
\<close>

definition dollar :: "(string \<Rightarrow> bool) \<Rightarrow> string \<Rightarrow> bool" where
  "dollar p s \<longleftrightarrow> p s \<or> s \<noteq> [] \<and> last s = CHR 0x0A \<and> p (butlast s)"

definition host_word :: "string \<Rightarrow> bool" where
  "host_word s \<longleftrightarrow> s \<noteq> [] \<and> is_alnum_lower (hd s) \<and> list_all (\<lambda>c. is_alnum_lower c \<or> c = CHR ''_'' \<or> c = CHR ''-'') (tl s)"

definition host_pair :: "string \<Rightarrow> bool" where
  "host_pair = dollar (\<lambda>s. case partition_on (CHR '':'') s of (a, found, b) \<Rightarrow> found \<and> host_word a \<and> host_word b)"

definition b64_pattern :: "string \<Rightarrow> bool" where
  "b64_pattern = dollar (\<lambda>s. case dropWhile (\<lambda>c. b64_digit c \<noteq> None) s of r \<Rightarrow> r \<in> set [[], ''='', ''==''])"

definition profile_id :: "string \<Rightarrow> bool" where
  "profile_id = dollar (\<lambda>s. case partition_on (CHR ''-'') s of (a, found, b) \<Rightarrow>
     found \<and> a \<noteq> [] \<and> list_all is_lower a \<and> b \<noteq> [] \<and> list_all is_digit b)"

definition witness_ok :: "pv \<Rightarrow> bool" where
  "witness_ok v \<longleftrightarrow> is_dict v \<and> keys_are (dict_of v) [''kind'', ''credential'', ''instance'', ''config_path'', ''unit'']
     \<and> list_all (\<lambda>k. is_str (item (dict_of v) k)) [''kind'', ''credential'', ''config_path'', ''unit'']
     \<and> (is_str (item (dict_of v) ''instance'') \<or> item (dict_of v) ''instance'' = PNone)"

definition profile_ok :: "dict \<Rightarrow> bool" where
  "profile_ok p \<longleftrightarrow> keys_are p [''id'', ''engine'', ''config'', ''witness''] \<and> is_str (item p ''id'') \<and> profile_id (str_of (item p ''id''))
     \<and> item p ''engine'' \<in> set [PStr ''xray'', PStr ''hysteria'', PStr ''snell'', PStr ''awg'', PStr ''naive'']
     \<and> (is_dict (item p ''config'') \<or> is_str (item p ''config'')) \<and> witness_ok (item p ''witness'')"

definition grant_ok :: "grant \<Rightarrow> bool" where
  "grant_ok g \<longleftrightarrow> (case before_b64 g of None \<Rightarrow> True | Some b \<Rightarrow> b64_pattern b) \<and> b64_pattern (after_b64 g)"

definition uuid_text :: "string \<Rightarrow> bool" where
  "uuid_text s \<longleftrightarrow> map length (split_on (CHR ''-'') s) = [8, 4, 4, 4, 12] \<and> list_all (list_all is_hex) (split_on (CHR ''-'') s)"

definition revocation_ok :: "source \<Rightarrow> bool" where
  "revocation_ok r \<longleftrightarrow> dollar uuid_text (fst r) \<and> dollar hex64 (snd r)"

definition host_map :: "nat \<Rightarrow> ('a \<Rightarrow> bool) \<Rightarrow> (string \<times> 'a) list \<Rightarrow> bool" where
  "host_map n ok d \<longleftrightarrow> length d \<le> n \<and> distinct (map fst d) \<and> list_all (\<lambda>kv. host_pair (fst kv) \<and> ok (snd kv)) d"

definition host_list :: "string list \<Rightarrow> bool" where
  "host_list hs \<longleftrightarrow> length hs \<le> 32 \<and> distinct hs \<and> list_all host_pair hs"

definition intent_ok :: "(dict \<Rightarrow> bool) \<Rightarrow> journal \<Rightarrow> bool" where
  "intent_ok schema j \<longleftrightarrow> dollar hex64 (jmanifest j) \<and> dollar NAME (jdevice j)
     \<and> host_map 32 (dollar hex64) (jbefore j) \<and> host_map 32 (\<lambda>d. schema d \<and> \<not> has_key d ''device_operations'') (jafter j)
     \<and> host_map 32 (\<lambda>ps. length ps \<le> 64 \<and> list_all profile_ok ps) (jprofiles j)
     \<and> host_map 32 (\<lambda>gs. length gs \<le> 256 \<and> distinct (map fst gs) \<and> list_all (\<lambda>kv. dollar hex64 (fst kv) \<and> grant_ok (snd kv)) gs) (jgrants j)
     \<and> (case jartifact j of None \<Rightarrow> True | Some a \<Rightarrow> b64_pattern a)
     \<and> dollar (repeated is_hex 40 40) (fst (jsource j)) \<and> dollar hex64 (snd (jsource j))
     \<and> host_map 16 (\<lambda>c. dollar (repeated (\<lambda>c. is_alnum c \<or> c = CHR ''_'' \<or> c = CHR ''-'') 43 43) (ctoken c) \<and> b64_pattern (cdocument c)) (jcanaries j)
     \<and> (case jrevocation j of None \<Rightarrow> True | Some r \<Rightarrow> revocation_ok r)"

definition record_ok :: "(dict \<Rightarrow> bool) \<Rightarrow> journal \<Rightarrow> bool" where
  "record_ok schema j \<longleftrightarrow> intent_ok schema j \<and> host_list (jwritten j) \<and> host_list (jadopted j)
     \<and> length (jpublished j) \<le> 4096 \<and> distinct (jpublished j)"

section \<open>The checks of a journal\<close>

record setting =
  sha :: "string \<Rightarrow> string"
  schema :: "dict \<Rightarrow> bool"
  man :: manifest

definition digest :: "'a setting_scheme \<Rightarrow> string" where
  "digest L = sha L (encoded (mvalue (man L)))"

definition fingerprint :: "'a setting_scheme \<Rightarrow> dict \<Rightarrow> string" where
  "fingerprint L d = sha L (encoded (PDict d))"

definition grant_ids :: "journal \<Rightarrow> string list" where
  "grant_ids j = concat (map (\<lambda>(host, grants). map (\<lambda>(token, _). host @ ''/'' @ token) grants) (jgrants j))"

definition runtime_hosts :: "'a setting_scheme \<Rightarrow> journal \<Rightarrow> string list" where
  "runtime_hosts L j =
     (if maction (man L) = Revoke then mnodes (man L)
      else remdups (filter (\<lambda>h. map_of (jbefore j) h \<noteq> map_option (fingerprint L) (map_of (jafter j) h)) (mnodes (man L)) @ map fst (jprofiles j)))"

definition fields_agree :: "'a setting_scheme \<Rightarrow> journal \<Rightarrow> bool" where
  "fields_agree L j = (let m = man L; hosts = set (mnodes m) in
     set (map fst (jbefore j)) = hosts \<and> set (map fst (jafter j)) = hosts \<and> set (map fst (jprofiles j)) \<subseteq> hosts
     \<and> set (map fst (jgrants j)) \<subseteq> set (mpublishers m) \<and> set (jwritten j) \<subseteq> hosts \<and> set (jadopted j) \<subseteq> set (jwritten j)
     \<and> set (jpublished j) \<subseteq> set (grant_ids j) \<and> jaction j = maction m \<and> jdevice j = mdevice m
     \<and> (jartifact j \<noteq> None \<longleftrightarrow> maction m = Issue \<or> native m)
     \<and> set (map fst (jcanaries j)) = (if maction m = Revoke then set (mpublishers m) else {}))"

definition evidence_complete :: "'a setting_scheme \<Rightarrow> journal \<Rightarrow> bool" where
  "evidence_complete L j \<longleftrightarrow>
     (jphase j = Prepared \<or> set (jwritten j) = set (mnodes (man L)))
     \<and> (jphase j = RuntimeAdopted \<or> jphase j = Complete \<longrightarrow> set (jadopted j) = set (runtime_hosts L j))
     \<and> (jphase j = Complete \<longrightarrow> set (jpublished j) = set (grant_ids j))
     \<and> (jwritten j = [] \<or> list_all (\<lambda>hc. positive (snd hc)) (jcanaries j))
     \<and> (jphase j = Complete \<longrightarrow> list_all (\<lambda>hc. cleaned (snd hc)) (jcanaries j))"

definition expected_revocation :: "'a setting_scheme \<Rightarrow> journal \<Rightarrow> source option" where
  "expected_revocation L j = (if maction (man L) = Revoke then Some (revocation_intent (sha L) j (mid (man L))) else None)"

definition validate_journal :: "'a setting_scheme \<Rightarrow> journal \<Rightarrow> device_error + unit" where
  "validate_journal L j =
     (if \<not> record_ok (schema L) j then Inl (DeviceError ''invalid-device-operation-journal'')
      else if jrevocation j \<noteq> expected_revocation L j then Inl (DeviceError ''device-revocation-intent-changed'')
      else if \<not> fields_agree L j then Inl (DeviceError ''invalid-device-operation-journal'')
      else if \<not> evidence_complete L j then Inl (DeviceError ''incomplete-device-operation-evidence'')
      else Inr ())"

definition read_journal :: "'a setting_scheme \<Rightarrow> document \<Rightarrow> device_error + journal" where
  "read_journal L d = (let missing = Inl (DeviceError ''device-operation-not-prepared-or-manifest-changed'') in
     case map_of (case operations d of None \<Rightarrow> [] | Some ops \<Rightarrow> ops) (mid (man L)) of
       Some (Shaped j) \<Rightarrow> if jmanifest j \<noteq> digest L then missing else bind_res (validate_journal L j) (\<lambda>_. Inr j)
     | Some (Misshapen (PDict v)) \<Rightarrow>
         if item v ''manifest_sha256'' \<noteq> PStr (digest L) then missing else Inl (DeviceError ''invalid-device-operation-journal'')
     | _ \<Rightarrow> missing)"

text \<open>The transformation of the journal's document that \<open>_save\<close> hands to the writer.\<close>

definition MAX_BYTES :: nat where
  "MAX_BYTES = 4 * 1024 * 1024"

definition stored_manifest :: "stored \<Rightarrow> device_error + pv" where
  "stored_manifest r = (case r of Shaped j \<Rightarrow> Inr (PStr (jmanifest j)) | Misshapen v \<Rightarrow> subscript v ''manifest_sha256'')"

definition put_journal :: "'a setting_scheme \<Rightarrow> journal \<Rightarrow> document \<Rightarrow> device_error + document" where
  "put_journal L j d = (let jh = mjournal_host (man L); records = (case operations d of None \<Rightarrow> [] | Some ops \<Rightarrow> ops) in
     if Some (fingerprint L (own d)) \<noteq> map_of (jbefore j) jh \<and> Some (fingerprint L (own d)) \<noteq> map_option (fingerprint L) (map_of (jafter j) jh)
     then Inl (DeviceError ''device-journal-authority-changed'')
     else bind_res (case map_of records (mid (man L)) of None \<Rightarrow> Inr () | Some r \<Rightarrow> bind_res (stored_manifest r) (\<lambda>v.
         refuse_if (v \<noteq> PStr (digest L)) (DeviceError ''device-operation-manifest-changed''))) (\<lambda>_.
       Inr (d\<lparr>operations := Some (AList.update (mid (man L)) (Shaped j) records)\<rparr>)))"

text \<open>What is saved is accepted when it is read again.\<close>

lemma saved_journal_read:
  assumes "put_journal L j d = Inr d'" "validate_journal L j = Inr ()" "jmanifest j = digest L"
  shows "read_journal L d' = Inr j" and "own d' = own d"
  using assms by (auto simp: put_journal_def read_journal_def Let_def bind_res_Inr split: if_split_asm)

text \<open>A snapshot has one row for each token.\<close>

lemma snapshot_rows_distinct: "snapshot_rows f acc n vs = Inr rs \<Longrightarrow> distinct (map fst acc) \<Longrightarrow> distinct (map fst rs)"
proof (induction vs arbitrary: acc n)
  case (Cons v vs)
  show ?case
  proof (cases v)
    case (PDict r)
    let ?acc = "acc @ [(str_of (item r ''token_hash''),
       \<lparr>document_b64 = str_of (item r ''document_b64''), revoked = bool_of (item r ''revoked''), expired = bool_of (item r ''expired'')\<rparr>)]"
    from Cons.prems(1) PDict obtain k where "map_of acc (str_of (item r ''token_hash'')) = None" "snapshot_rows f ?acc k vs = Inr rs"
      by (auto simp: bind_res_Inr split: if_split_asm)
    with Cons show ?thesis by (auto simp: map_of_eq_None_iff)
  qed (use Cons in simp_all)
qed simp

lemma parse_snapshot_distinct: "parse_snapshot f v = Inr s \<Longrightarrow> distinct (map fst (rows s))"
  by (auto simp: parse_snapshot_def bind_res_Inr split: pv.split_asm if_split_asm dest: snapshot_rows_distinct)

end
