(* ===== verification/DeviceLifecycle.thy ===== *)
theory DeviceLifecycle
  imports DeviceJournal
begin

text \<open>
  A device operation from its saved journal to its completion, from the class \<open>Lifecycle\<close> of
  \<^verbatim>\<open>scripts/device_lifecycle.py\<close>.

  The class reaches the fleet only through the object and the writer it is given, and draws random tokens. Here each call is a
  \<open>request\<close>, and
  \<open>answers\<close> gives its result from everything that was asked and answered before: the fleet, other operators and
  failures are whatever function this is. The state of an operation is the list of the calls made so far with their
  answers; a call that raises is in the list too, since it may have had its effect.
\<close>

section \<open>Calls\<close>

datatype mode = Check | Adopt | VerifyOnly

datatype request =
    Scope
  | SourceIdentity
  | Revalidate
  | Read string
  | Open string
  | Commit string document document
  | Ready string
  | Snapshot string
  | Publish string string "string option" "string option"
  | Route string string string bool
  | Routes string
  | Runtime string dict mode "source option"
  | Probe string "dict list" string
  | Output string string
  | Admit string
  | Endpoint string
  | TokenUrlsafe nat
  | TokenHex nat

datatype answer = Failed device_error | Done | SourceIs source | DocumentIs document | ValueIs pv

type_synonym event = "request \<times> answer"

type_synonym 'a act = "(event list, device_error, 'a) dio"

record lifecycle = setting +
  answers :: "event list \<Rightarrow> request \<Rightarrow> answer"

definition ask :: "lifecycle \<Rightarrow> request \<Rightarrow> (answer \<Rightarrow> 'a option) \<Rightarrow> 'a act" where
  "ask L r read_answer = (\<lambda>t. let a = answers L t r in
     ([t @ [(r, a)]], case a of Failed e \<Rightarrow> Inl e
      | _ \<Rightarrow> (case read_answer a of None \<Rightarrow> Inl (Exc TypeError) | Some x \<Rightarrow> Inr x)))"

definition call :: "lifecycle \<Rightarrow> request \<Rightarrow> unit act" where
  "call L r = ask L r (\<lambda>a. case a of Done \<Rightarrow> Some () | _ \<Rightarrow> None)"

definition source_identity :: "lifecycle \<Rightarrow> source act" where
  "source_identity L = ask L SourceIdentity (\<lambda>a. case a of SourceIs s \<Rightarrow> Some s | _ \<Rightarrow> None)"

definition ask_document :: "lifecycle \<Rightarrow> request \<Rightarrow> document act" where
  "ask_document L r = ask L r (\<lambda>a. case a of DocumentIs d \<Rightarrow> Some d | _ \<Rightarrow> None)"

definition ask_value :: "lifecycle \<Rightarrow> request \<Rightarrow> pv act" where
  "ask_value L r = ask L r (\<lambda>a. case a of ValueIs v \<Rightarrow> Some v | _ \<Rightarrow> None)"

definition ask_text :: "lifecycle \<Rightarrow> request \<Rightarrow> string act" where
  "ask_text L r = ask L r (\<lambda>a. case a of ValueIs (PStr s) \<Rightarrow> Some s | _ \<Rightarrow> None)"

definition check :: "bool \<Rightarrow> string \<Rightarrow> unit act" where
  "check b message = lift (refuse_if (\<not> b) (DeviceError message))"

definition writer :: "lifecycle \<Rightarrow> string \<Rightarrow> (document \<Rightarrow> device_error + document) \<Rightarrow> unit act" where
  "writer L host transform = seq (ask_document L (Open host)) (\<lambda>found. seq (lift (transform found)) (\<lambda>left.
     call L (Commit host found left)))"

section \<open>Reading and fencing the fleet\<close>

definition documents :: "lifecycle \<Rightarrow> (string \<times> document) list act" where
  "documents L = seq (call L Revalidate) (\<lambda>_.
     map_act (\<lambda>h. seq (ask_document L (Read h)) (\<lambda>d. ret (h, d))) (mnodes (man L)))"

definition snapshots :: "lifecycle \<Rightarrow> (string \<times> snapshot) list act" where
  "snapshots L = map_act (\<lambda>h. seq (call L (Ready h)) (\<lambda>_. seq (ask_value L (Snapshot h)) (\<lambda>v.
     seq (lift (parse_snapshot (sha L) v)) (\<lambda>s. ret (h, s))))) (mpublishers (man L))"

definition expected_fingerprints :: "'a setting_scheme \<Rightarrow> journal \<Rightarrow> string \<Rightarrow> string option list" where
  "expected_fingerprints L j h = (let a = map_option (fingerprint L) (map_of (jafter j) h) in
     if h \<in> set (jwritten j) then [a] else [map_of (jbefore j) h, a])"

definition check_document :: "'a setting_scheme \<Rightarrow> journal \<Rightarrow> string \<times> document \<Rightarrow> device_error + unit" where
  "check_document L j node = refuse_if (Some (fingerprint L (own (snd node))) \<notin> set (expected_fingerprints L j (fst node)))
     (DeviceError ''device-authority-changed-during-operation'')"

definition grants_at :: "journal \<Rightarrow> string \<Rightarrow> (string \<times> grant) list" where
  "grants_at j h = (case map_of (jgrants j) h of None \<Rightarrow> [] | Some gs \<Rightarrow> gs)"

definition is_canary :: "'a setting_scheme \<Rightarrow> journal \<Rightarrow> string \<Rightarrow> string \<Rightarrow> row \<Rightarrow> bool" where
  "is_canary L j h token r = (case map_of (jcanaries j) h of
     None \<Rightarrow> False | Some c \<Rightarrow> token = sha L (ctoken c) \<and> document_b64 r = cdocument c)"

definition current_rows :: "'a setting_scheme \<Rightarrow> journal \<Rightarrow> string \<Rightarrow> snapshot \<Rightarrow> device_error + (string \<times> row) list" where
  "current_rows L j h s = bind_res (map_res (\<lambda>(token, r). bind_res (client_of (document_b64 r)) (\<lambda>c. Inr ((token, r), c))) (rows s)) (\<lambda>cs.
     Inr (map fst (filter (\<lambda>((token, r), c). c = mdevice (man L) \<and> \<not> is_canary L j h token r) cs)))"

definition check_row :: "'a setting_scheme \<Rightarrow> (string \<times> grant) list \<Rightarrow> string \<times> row \<Rightarrow> device_error + unit" where
  "check_row L known tr = (case map_of known (fst tr) of
     None \<Rightarrow> refuse_if (\<not> (maction (man L) = Refresh \<and> (revoked (snd tr) \<or> expired (snd tr)))) (DeviceError ''new-device-grant-during-operation'')
   | Some g \<Rightarrow>
       if Some (document_b64 (snd tr)) \<noteq> before_b64 g \<and> document_b64 (snd tr) \<noteq> after_b64 g
       then Inl (DeviceError ''device-grant-changed-during-operation'')
       else refuse_if (maction (man L) \<noteq> Revoke \<and> (revoked (snd tr) \<or> expired (snd tr))) (DeviceError ''device-grant-no-longer-active''))"

definition check_snapshot :: "'a setting_scheme \<Rightarrow> journal \<Rightarrow> string \<times> snapshot \<Rightarrow> device_error + unit" where
  "check_snapshot L j hs =
     (if bootstrap (snd hs) \<noteq> 0 then Inl (DeviceError ''new-bootstrap-grant-during-device-operation'')
      else bind_res (current_rows L j (fst hs) (snd hs)) (\<lambda>current.
        bind_res (each (check_row L (grants_at j (fst hs))) current) (\<lambda>_.
        each (\<lambda>(token, g). refuse_if (map_of current token = None \<and> before_b64 g \<noteq> None) (DeviceError ''device-grant-disappeared''))
          (grants_at j (fst hs)))))"

definition fence :: "lifecycle \<Rightarrow> journal \<Rightarrow> (string \<times> snapshot) list act" where
  "fence L j = seq (source_identity L) (\<lambda>s. seq (check (s = jsource j) ''device-source-changed'') (\<lambda>_.
     seq (documents L) (\<lambda>docs. seq (lift (each (check_document L j) docs)) (\<lambda>_.
     seq (snapshots L) (\<lambda>snaps. seq (lift (each (check_snapshot L j) snaps)) (\<lambda>_. ret snaps))))))"

section \<open>Saving the journal, probing a node\<close>

definition save :: "lifecycle \<Rightarrow> journal \<Rightarrow> unit act" where
  "save L j = seq (check (length (encoded (journal_value j)) \<le> MAX_BYTES div 2) ''device-operation-journal-capacity'') (\<lambda>_.
     seq (lift (validate_journal L j)) (\<lambda>_. seq (call L Revalidate) (\<lambda>_.
     seq (source_identity L) (\<lambda>s. seq (check (s = jsource j) ''device-source-changed'') (\<lambda>_.
     writer L (mjournal_host (man L)) (put_journal L j))))))"

definition journal_of :: "lifecycle \<Rightarrow> journal act" where
  "journal_of L = seq (ask_document L (Read (mjournal_host (man L)))) (\<lambda>d. lift (read_journal L d))"

definition deny :: "'a setting_scheme \<Rightarrow> bool" where
  "deny L \<longleftrightarrow> maction (man L) = Revoke"

definition probe_row :: "'a setting_scheme \<Rightarrow> pv \<Rightarrow> device_error + unit" where
  "probe_row L v = (case v of
     PDict r \<Rightarrow>
       if item r ''state'' \<noteq> PStr (if deny L then ''denied'' else ''accepted'')
         \<or> list_ex (\<lambda>k. item r k \<noteq> PBool True) [''control_ok'', ''setup_ok'', ''cleanup_ok'']
       then Inl (DeviceError ''device-native-probe-incomplete'')
       else refuse_if (deny L \<and> \<not> (item r ''peer_absent'' = PBool True
           \<and> (item r ''runtime_healthy'' = PBool True \<or> item r ''inactive_confirmed'' = PBool True)))
         (DeviceError ''device-revocation-runtime-witness-incomplete'')
   | _ \<Rightarrow> Inl (Exc AttributeError))"

definition probe_answer :: "'a setting_scheme \<Rightarrow> dict list \<Rightarrow> pv \<Rightarrow> device_error + unit" where
  "probe_answer L profiles v = (let incomplete = Inl (DeviceError ''device-native-probe-incomplete'') in case v of
     PDict d \<Rightarrow>
       if item d ''control'' \<noteq> PStr ''passed'' \<or> item d ''cleanup'' \<noteq> PStr ''confirmed'' then incomplete
       else (case item d ''profiles'' of
         PList rs \<Rightarrow>
           if length rs \<noteq> length profiles then incomplete
           else bind_res (map_res (\<lambda>r. get_or r ''id'' PNone) rs) (\<lambda>ids.
             if \<not> list_all hashable ids then Inl (Exc TypeError)
             else if set ids \<noteq> set (map (\<lambda>p. item p ''id'') profiles) then incomplete
             else each (probe_row L) rs)
       | _ \<Rightarrow> incomplete)
   | _ \<Rightarrow> incomplete)"

definition probe :: "lifecycle \<Rightarrow> string \<times> dict list \<Rightarrow> unit act" where
  "probe L hp = seq (check (snd hp \<noteq> []) ''device-probe-coverage-empty'') (\<lambda>_.
     seq (ask_value L (Probe (fst hp) (snd hp) (if deny L then ''deny'' else ''accept''))) (\<lambda>v.
     lift (probe_answer L (snd hp) v)))"

section \<open>Running an operation\<close>

text \<open>First the canaries of a revocation: a published document that the public route serves.\<close>

definition set_canary :: "string \<Rightarrow> canary \<Rightarrow> journal \<Rightarrow> journal" where
  "set_canary h c j = j\<lparr>jcanaries := AList.update h c (jcanaries j)\<rparr>"

definition canary_payload :: "canary \<Rightarrow> device_error + string \<times> string" where
  "canary_payload c = bind_res (un64 (cdocument c)) (\<lambda>raw. bind_res (envelope raw) (\<lambda>(d, _).
     bind_res (un64 (str_of (item d ''payload_b64''))) (\<lambda>payload. Inr (raw, payload))))"

definition plant :: "lifecycle \<Rightarrow> string \<times> canary \<Rightarrow> journal \<Rightarrow> journal act" where
  "plant L hc j = (if positive (snd hc) then ret j else
     seq (lift (un64 (cdocument (snd hc)))) (\<lambda>raw.
     seq (ask_value L (Publish (fst hc) (sha L (ctoken (snd hc))) None (Some raw))) (\<lambda>_.
     seq (lift (canary_payload (snd hc))) (\<lambda>(_, payload).
     seq (call L (Route (fst hc) (ctoken (snd hc)) payload False)) (\<lambda>_.
     let j' = set_canary (fst hc) ((snd hc)\<lparr>positive := True\<rparr>) j in
     seq (save L j') (\<lambda>_. ret j'))))))"

text \<open>Then the authorities: the candidate replaces a node's own fields where they are the reviewed or the candidate ones.\<close>

definition put_candidate :: "'a setting_scheme \<Rightarrow> journal \<Rightarrow> string \<Rightarrow> dict \<Rightarrow> document \<Rightarrow> device_error + document" where
  "put_candidate L j h candidate found =
     (if Some (fingerprint L (own found)) \<noteq> map_of (jbefore j) h \<and> fingerprint L (own found) \<noteq> fingerprint L candidate
      then Inl (DeviceError ''device-authority-CAS-conflict'')
      else Inr (found\<lparr>own := candidate\<rparr>))"

definition after_at :: "journal \<Rightarrow> string \<Rightarrow> dict act" where
  "after_at j h = lift (case map_of (jafter j) h of None \<Rightarrow> Inl (Exc KeyError) | Some d \<Rightarrow> Inr d)"

definition write_node :: "lifecycle \<Rightarrow> string \<Rightarrow> journal \<Rightarrow> journal act" where
  "write_node L h j = seq (after_at j h) (\<lambda>candidate.
     seq (if h \<in> set (jwritten j) then ret j else
       seq (writer L h (put_candidate L j h candidate)) (\<lambda>_.
       let j' = j\<lparr>jwritten := jwritten j @ [h]\<rparr> in seq (save L j') (\<lambda>_. ret j'))) (\<lambda>j.
     seq (fence L j) (\<lambda>_. ret j)))"

text \<open>Then the runtimes.\<close>

definition adopt_node :: "lifecycle \<Rightarrow> string \<Rightarrow> journal \<Rightarrow> journal act" where
  "adopt_node L h j = (if h \<in> set (jadopted j) then ret j else
     seq (after_at j h) (\<lambda>candidate.
     seq (call L (Runtime h candidate Check (jrevocation j))) (\<lambda>_. seq (fence L j) (\<lambda>_.
     seq (call L (Runtime h candidate Adopt (jrevocation j))) (\<lambda>_. seq (fence L j) (\<lambda>_.
     seq (case map_of (jprofiles j) h of None \<Rightarrow> ret () | Some ps \<Rightarrow> probe L (h, ps)) (\<lambda>_.
     let j' = j\<lparr>jadopted := jadopted j @ [h]\<rparr> in seq (save L j') (\<lambda>_. ret j'))))))))"

text \<open>Then the published grants.\<close>

definition rows_at :: "(string \<times> snapshot) list \<Rightarrow> string \<Rightarrow> device_error + (string \<times> row) list" where
  "rows_at snaps h = (case map_of snaps h of None \<Rightarrow> Inl (Exc KeyError) | Some s \<Rightarrow> Inr (rows s))"

definition publish_grant :: "lifecycle \<Rightarrow> string \<Rightarrow> string \<Rightarrow> grant \<Rightarrow> unit act" where
  "publish_grant L h token g =
     seq (lift (case before_b64 g of None \<Rightarrow> Inr None | Some [] \<Rightarrow> Inr None
       | Some b \<Rightarrow> bind_res (un64 b) (\<lambda>old. Inr (Some (sha L old))))) (\<lambda>expected.
     seq (lift (un64 (after_b64 g))) (\<lambda>raw.
     seq (ask_value L (Publish h token expected (Some raw))) (\<lambda>response.
     seq (lift (get_or response ''document_sha256'' PNone)) (\<lambda>v.
     check (v = PStr (sha L raw)) ''device-publication-acknowledgement-unconfirmed''))))"

definition grant_id :: "string \<Rightarrow> string \<Rightarrow> string" where
  "grant_id h token = h @ ''/'' @ token"

definition confirm_grant :: "lifecycle \<Rightarrow> string \<Rightarrow> string \<times> grant \<Rightarrow> journal \<Rightarrow> journal act" where
  "confirm_grant L h tg j = seq (fence L j) (\<lambda>snaps. seq (lift (rows_at snaps h)) (\<lambda>rs.
     seq (case map_of rs (fst tg) of
         None \<Rightarrow> if deny L then check False ''device-publisher-revocation-unconfirmed'' else publish_grant L h (fst tg) (snd tg)
       | Some r \<Rightarrow>
           if deny L then check (revoked r) ''device-publisher-revocation-unconfirmed''
           else if document_b64 r \<noteq> after_b64 (snd tg) then publish_grant L h (fst tg) (snd tg) else ret ()) (\<lambda>_.
     if grant_id h (fst tg) \<in> set (jpublished j) then ret j
     else let j' = j\<lparr>jpublished := jpublished j @ [grant_id h (fst tg)]\<rparr> in seq (save L j') (\<lambda>_. ret j'))))"

definition confirm_grants :: "lifecycle \<Rightarrow> string \<times> (string \<times> grant) list \<Rightarrow> journal \<Rightarrow> journal act" where
  "confirm_grants L hg j = seq (only_if (\<not> deny L \<and> snd hg \<noteq> []) (call L (Routes (fst hg)))) (\<lambda>_.
     fold_act (confirm_grant L (fst hg)) (snd hg) j)"

text \<open>Then the recipient's artifact, and everything is looked at once more.\<close>

definition deliver :: "lifecycle \<Rightarrow> journal \<Rightarrow> unit act" where
  "deliver L j = (case jartifact j of None \<Rightarrow> ret () | Some a \<Rightarrow> seq (lift (un64 a)) (\<lambda>raw. call L (Output (moutput (man L)) raw)))"

definition recheck :: "lifecycle \<Rightarrow> journal \<Rightarrow> unit act" where
  "recheck L j = seq (for_each (\<lambda>h. seq (after_at j h) (\<lambda>d. call L (Runtime h d VerifyOnly (jrevocation j)))) (sort (runtime_hosts L j))) (\<lambda>_.
     for_each (probe L) (jprofiles j))"

definition final_row :: "'a setting_scheme \<Rightarrow> (string \<times> row) list \<Rightarrow> string \<times> grant \<Rightarrow> device_error + unit" where
  "final_row L rs tg = (case map_of rs (fst tg) of
     None \<Rightarrow> Inl (DeviceError ''device-final-publication-unconfirmed'')
   | Some r \<Rightarrow> refuse_if (document_b64 r \<noteq> after_b64 (snd tg) \<or> revoked r \<noteq> deny L) (DeviceError ''device-final-publication-unconfirmed''))"

definition final_rows :: "'a setting_scheme \<Rightarrow> journal \<Rightarrow> (string \<times> snapshot) list \<Rightarrow> device_error + unit" where
  "final_rows L j snaps = each (\<lambda>(h, gs). if gs = [] then Inr () else bind_res (rows_at snaps h) (\<lambda>rs. each (final_row L rs) gs)) (jgrants j)"

definition canary_row :: "'a setting_scheme \<Rightarrow> canary \<Rightarrow> (string \<times> row) list \<Rightarrow> device_error + unit" where
  "canary_row L c rs = refuse_if (case map_of rs (sha L (ctoken c)) of
       None \<Rightarrow> \<not> cleanup_started c
     | Some r \<Rightarrow> document_b64 r \<noteq> cdocument c \<or> \<not> revoked r \<or> expired r) (DeviceError ''device-revocation-canary-authority-unconfirmed'')"

definition clean_canary :: "lifecycle \<Rightarrow> (string \<times> snapshot) list \<Rightarrow> string \<times> canary \<Rightarrow> journal \<Rightarrow> journal act" where
  "clean_canary L snaps hc j = seq (lift (bind_res (rows_at snaps (fst hc)) (canary_row L (snd hc)))) (\<lambda>_.
     seq (call L (Routes (fst hc))) (\<lambda>_. seq (call L (Route (fst hc) (ctoken (snd hc)) [] True)) (\<lambda>_.
     if cleaned (snd hc) then ret j else
     let c1 = (snd hc)\<lparr>cleanup_started := True\<rparr>; j1 = set_canary (fst hc) c1 j in
     seq (save L j1) (\<lambda>_. seq (lift (un64 (cdocument c1))) (\<lambda>raw.
     seq (ask_value L (Publish (fst hc) (sha L (ctoken c1)) (Some (sha L raw)) None)) (\<lambda>response.
     seq (lift (get_or response ''document_sha256'' PNone)) (\<lambda>v. seq (check (v = PNone) ''device-canary-cleanup-unconfirmed'') (\<lambda>_.
     let j2 = set_canary (fst hc) (c1\<lparr>cleaned := True\<rparr>) j1 in seq (save L j2) (\<lambda>_. ret j2)))))))))"

definition final_canary :: "'a setting_scheme \<Rightarrow> journal \<Rightarrow> (string \<times> snapshot) list \<Rightarrow> string \<times> canary \<Rightarrow> device_error + unit" where
  "final_canary L j snaps hc = bind_res (rows_at snaps (fst hc)) (\<lambda>rs.
     bind_res (refuse_if (map_of rs (sha L (ctoken (snd hc))) \<noteq> None) (DeviceError ''device-canary-cleanup-unconfirmed'')) (\<lambda>_.
     each (\<lambda>(token, _). refuse_if (case map_of rs token of None \<Rightarrow> True | Some r \<Rightarrow> \<not> revoked r) (DeviceError ''device-final-revocation-changed''))
       (grants_at j (fst hc))))"

definition conclude :: "lifecycle \<Rightarrow> journal \<Rightarrow> unit act" where
  "conclude L j = seq (call L Scope) (\<lambda>_. seq (fence L j) (\<lambda>final.
     seq (if deny L then lift (each (final_canary L j final) (jcanaries j)) else ret ()) (\<lambda>_.
     save L (j\<lparr>jphase := Complete\<rparr>))))"

definition finish :: "lifecycle \<Rightarrow> journal \<Rightarrow> unit act" where
  "finish L j = seq (deliver L j) (\<lambda>_. seq (recheck L j) (\<lambda>_. seq (fence L j) (\<lambda>snaps.
     seq (lift (final_rows L j snaps)) (\<lambda>_. seq (fold_act (clean_canary L snaps) (jcanaries j) j) (\<lambda>j. conclude L j)))))"

definition proceed :: "lifecycle \<Rightarrow> journal \<Rightarrow> unit act" where
  "proceed L j = seq (call L Scope) (\<lambda>_. seq (fence L j) (\<lambda>_.
     seq (fold_act (plant L) (jcanaries j) j) (\<lambda>j.
     seq (fold_act (write_node L) (mnodes (man L)) j) (\<lambda>j.
     let j = j\<lparr>jphase := AuthorityWritten\<rparr> in seq (save L j) (\<lambda>_.
     seq (fold_act (adopt_node L) (sort (runtime_hosts L j)) j) (\<lambda>j.
     let j = j\<lparr>jphase := RuntimeAdopted\<rparr> in seq (save L j) (\<lambda>_.
     seq (fold_act (confirm_grants L) (jgrants j) j) (\<lambda>j. finish L j))))))))"

definition status :: "lifecycle \<Rightarrow> pv act" where
  "status L = seq (journal_of L) (\<lambda>j. ret (PDict
     [(''operation_id'', PStr (mid (man L))), (''action'', PStr (action_text (maction (man L)))), (''device'', PStr (mdevice (man L))),
      (''phase'', PStr (phase_text (jphase j))), (''nodes_written'', PInt (int (length (jwritten j)))),
      (''nodes_adopted'', PInt (int (length (jadopted j)))),
      (''native_credential_profiles'', PInt (int (sum_list (map (\<lambda>hp. length (snd hp)) (jprofiles j))))),
      (''grants_confirmed'', PInt (int (length (jpublished j)))),
      (''recipient_artifact'', PBool (jartifact j \<noteq> None \<and> jphase j = Complete))]))"

definition run :: "lifecycle \<Rightarrow> pv act" where
  "run L = seq (journal_of L) (\<lambda>j. seq (proceed L j) (\<lambda>_. status L))"

section \<open>Rules for calls\<close>

text \<open>
  The proofs below constrain the \<open>Commit\<close> calls only. \<open>guarded G t\<close>: if the last call of \<open>t\<close> is one, \<open>G\<close> held of it.
\<close>

definition guarded :: "(event list \<Rightarrow> string \<Rightarrow> document \<Rightarrow> document \<Rightarrow> bool) \<Rightarrow> event list \<Rightarrow> bool" where
  "guarded G t \<longleftrightarrow> (\<forall>pre h found left a. t = pre @ [(Commit h found left, a)] \<longrightarrow> G pre h found left)"

definition is_commit :: "request \<Rightarrow> bool" where
  "is_commit r = (case r of Commit _ _ _ \<Rightarrow> True | _ \<Rightarrow> False)"

lemma guarded_other [simp]: "\<not> is_commit r \<Longrightarrow> guarded G (t @ [(r, a)])"
  by (auto simp: guarded_def is_commit_def)

lemma guarded_commit [simp]: "guarded G (t @ [(Commit h found left, a)]) \<longleftrightarrow> G t h found left"
  by (auto simp: guarded_def)

text \<open>An assertion is kept by a set of requests when no answer to one of them can break it.\<close>

definition kept :: "(request \<Rightarrow> bool) \<Rightarrow> (event list \<Rightarrow> bool) \<Rightarrow> bool" where
  "kept R I \<longleftrightarrow> (\<forall>t r a. I t \<longrightarrow> R r \<longrightarrow> I (t @ [(r, a)]))"

lemma keptD: "kept R I \<Longrightarrow> I t \<Longrightarrow> R r \<Longrightarrow> I (t @ [(r, a)])"
  by (simp add: kept_def)

lemma safe_ask:
  assumes "\<And>t. P t \<Longrightarrow> C (t @ [(r, answers L t r)])"
    and "\<And>t a x. P t \<Longrightarrow> f a = Some x \<Longrightarrow> (\<And>e. a \<noteq> Failed e) \<Longrightarrow> Q x (t @ [(r, a)])"
  shows "safe P (ask L r f) Q C"
  unfolding safe_def
proof (intro allI impI)
  fix t assume t: "P t"
  show "(\<forall>d \<in> set (steps (ask L r f) t). C d) \<and> (\<forall>x. outcome (ask L r f) t = Inr x \<longrightarrow> Q x (after (ask L r f) t))"
    using assms(1) [OF t] assms(2) [OF t, of "answers L t r"]
    by (auto simp: ask_def after_def Let_def split: answer.split_asm option.split_asm)
qed

lemma safe_call:
  assumes "\<And>t a. P t \<Longrightarrow> C (t @ [(r, a)])" "\<And>t. P t \<Longrightarrow> Q () (t @ [(r, Done)])"
  shows "safe P (call L r) Q C"
  unfolding call_def by (rule safe_ask) (use assms in \<open>auto split: answer.split_asm\<close>)

lemma safe_source:
  assumes "\<And>t a. P t \<Longrightarrow> C (t @ [(SourceIdentity, a)])" "\<And>t s. P t \<Longrightarrow> Q s (t @ [(SourceIdentity, SourceIs s)])"
  shows "safe P (source_identity L) Q C"
  unfolding source_identity_def by (rule safe_ask) (use assms in \<open>auto split: answer.split_asm\<close>)

lemma safe_document:
  assumes "\<And>t a. P t \<Longrightarrow> C (t @ [(r, a)])" "\<And>t d. P t \<Longrightarrow> Q d (t @ [(r, DocumentIs d)])"
  shows "safe P (ask_document L r) Q C"
  unfolding ask_document_def by (rule safe_ask) (use assms in \<open>auto split: answer.split_asm\<close>)

lemma safe_value:
  assumes "\<And>t a. P t \<Longrightarrow> C (t @ [(r, a)])" "\<And>t v. P t \<Longrightarrow> Q v (t @ [(r, ValueIs v)])"
  shows "safe P (ask_value L r) Q C"
  unfolding ask_value_def by (rule safe_ask) (use assms in \<open>auto split: answer.split_asm\<close>)

lemma safe_check: "(\<And>t. P t \<Longrightarrow> b \<Longrightarrow> Q () t) \<Longrightarrow> safe P (check b m) Q C"
  by (auto simp: check_def intro: safe_lift)

lemmas safe_calls = safe_call safe_source safe_document safe_value

section \<open>What a fence establishes\<close>

definition latest :: "event list \<Rightarrow> request \<Rightarrow> answer option" where
  "latest t r = map_of (rev t) r"

lemma latest_snoc [simp]: "latest (t @ [(r, a)]) r' = (if r' = r then Some a else latest t r')"
  by (simp add: latest_def)

definition fence_request :: "request \<Rightarrow> bool" where
  "fence_request r = (case r of SourceIdentity \<Rightarrow> True | Revalidate \<Rightarrow> True | Read _ \<Rightarrow> True | Ready _ \<Rightarrow> True | Snapshot _ \<Rightarrow> True | _ \<Rightarrow> False)"

lemma fence_not_commit: "fence_request r \<Longrightarrow> \<not> is_commit r"
  by (cases r) (simp_all add: fence_request_def is_commit_def)

definition documents_seen :: "lifecycle \<Rightarrow> (string \<times> document) list \<Rightarrow> event list \<Rightarrow> bool" where
  "documents_seen L docs t \<longleftrightarrow> (\<forall>h \<in> set (map fst docs). \<exists>d. (h, d) \<in> set docs \<and> latest t (Read h) = Some (DocumentIs d))"

definition snapshots_seen :: "lifecycle \<Rightarrow> (string \<times> snapshot) list \<Rightarrow> event list \<Rightarrow> bool" where
  "snapshots_seen L snaps t \<longleftrightarrow> (\<forall>h \<in> set (map fst snaps). \<exists>v s. (h, s) \<in> set snaps \<and> latest t (Snapshot h) = Some (ValueIs v)
     \<and> parse_snapshot (sha L) v = Inr s)"

lemma seen_Nil [simp]: "documents_seen L [] t" "snapshots_seen L [] t"
  by (simp_all add: documents_seen_def snapshots_seen_def)

lemma safe_documents:
  assumes I: "kept fence_request I"
  shows "safe I (documents L) (\<lambda>docs t. I t \<and> map fst docs = mnodes (man L) \<and> documents_seen L docs t) (guarded G)"
proof -
  let ?J = "\<lambda>pre docs t. I t \<and> map fst docs = pre \<and> documents_seen L docs t"
  let ?read = "\<lambda>h. seq (ask_document L (Read h)) (\<lambda>d. ret (h, d))"
  have "safe (?J pre docs) (?read h) (\<lambda>y. ?J (pre @ [h]) (docs @ [y])) (guarded G)" for pre docs h
    by (rule safe_seq [where R = "\<lambda>d. ?J (pre @ [h]) (docs @ [(h, d)])"]; intro safe_document safe_ret)
      (auto simp: is_commit_def documents_seen_def keptD [OF I] fence_request_def)
  from safe_map_act [where I = ?J and pre = "[]" and ys = "[]", OF this]
  have loop: "safe (?J [] []) (map_act ?read (mnodes (man L))) (?J (mnodes (man L))) (guarded G)" by simp
  show ?thesis unfolding documents_def
    by (rule safe_seq [OF safe_call [where Q = "\<lambda>_. ?J [] []"]]) (use loop in \<open>auto simp: is_commit_def documents_seen_def keptD [OF I] fence_request_def\<close>)
qed

lemma safe_snapshots:
  assumes I: "kept fence_request I" and docs: "\<And>h. kept (\<lambda>r. r = Ready h \<or> r = Snapshot h) K"
  shows "safe (\<lambda>t. I t \<and> K t) (snapshots L) (\<lambda>snaps t. I t \<and> K t \<and> map fst snaps = mpublishers (man L) \<and> snapshots_seen L snaps t) (guarded G)"
proof -
  let ?J = "\<lambda>pre snaps t. I t \<and> K t \<and> map fst snaps = pre \<and> snapshots_seen L snaps t"
  let ?V = "\<lambda>h v t. I t \<and> K t \<and> latest t (Snapshot h) = Some (ValueIs v)"
  let ?see = "\<lambda>h. seq (call L (Ready h)) (\<lambda>_. seq (ask_value L (Snapshot h)) (\<lambda>v. seq (lift (parse_snapshot (sha L) v)) (\<lambda>s. ret (h, s))))"
  have k: "I t \<Longrightarrow> K t \<Longrightarrow> I (t @ [(Ready h, a)]) \<and> K (t @ [(Ready h, a)])" "I t \<Longrightarrow> K t \<Longrightarrow> I (t @ [(Snapshot h, a)]) \<and> K (t @ [(Snapshot h, a)])" for t h a
    using keptD [OF I] keptD [OF docs] by (simp_all add: fence_request_def)
  have step: "safe (?J pre snaps) (?see h) (\<lambda>y. ?J (pre @ [h]) (snaps @ [y])) (guarded G)" for pre snaps h
  proof (rule safe_seq [where R = "\<lambda>_. ?J pre snaps"])
    show "safe (?J pre snaps) (call L (Ready h)) (\<lambda>_. ?J pre snaps) (guarded G)"
      by (rule safe_call) (auto simp: is_commit_def k snapshots_seen_def)
    show "safe (?J pre snaps) (seq (ask_value L (Snapshot h)) (\<lambda>v. seq (lift (parse_snapshot (sha L) v)) (\<lambda>s. ret (h, s))))
        (\<lambda>y. ?J (pre @ [h]) (snaps @ [y])) (guarded G)"
      by (rule safe_seq [where R = "\<lambda>v t. \<forall>s. parse_snapshot (sha L) v = Inr s \<longrightarrow> ?J (pre @ [h]) (snaps @ [(h, s)]) t"];
          intro safe_value safe_seq [where R = "\<lambda>s. ?J (pre @ [h]) (snaps @ [(h, s)])"] safe_lift safe_ret)
        (auto simp: is_commit_def k snapshots_seen_def)
  qed
  from safe_map_act [where I = ?J and pre = "[]" and ys = "[]", OF step]
  have "safe (?J [] []) (snapshots L) (?J (mpublishers (man L))) (guarded G)" by (simp add: snapshots_def)
  then show ?thesis by (rule safe_weaken) simp_all
qed

text \<open>
  After a fence: the latest reading of every node had an expected fingerprint, and the latest snapshot of every publisher passed.
\<close>

definition fenced :: "lifecycle \<Rightarrow> journal \<Rightarrow> event list \<Rightarrow> bool" where
  "fenced L j t \<longleftrightarrow>
     (\<forall>h \<in> set (mnodes (man L)). \<exists>d. latest t (Read h) = Some (DocumentIs d) \<and> Some (fingerprint L (own d)) \<in> set (expected_fingerprints L j h))"

definition seen :: "lifecycle \<Rightarrow> journal \<Rightarrow> (string \<times> snapshot) list \<Rightarrow> event list \<Rightarrow> bool" where
  "seen L j snaps t \<longleftrightarrow> map fst snaps = mpublishers (man L) \<and> snapshots_seen L snaps t \<and> (\<forall>hs \<in> set snaps. check_snapshot L j hs = Inr ())"

lemma documents_fenced:
  assumes "map fst docs = mnodes (man L)" "documents_seen L docs t" "each (check_document L j) docs = Inr u"
  shows "fenced L j t"
proof -
  have "\<exists>d. latest t (Read h) = Some (DocumentIs d) \<and> Some (fingerprint L (own d)) \<in> set (expected_fingerprints L j h)" if "h \<in> set (mnodes (man L))" for h
  proof -
    from that assms(1,2) obtain d where "(h, d) \<in> set docs" "latest t (Read h) = Some (DocumentIs d)" unfolding documents_seen_def by metis
    with assms(3) show ?thesis by (auto simp: each_Inr check_document_def)
  qed
  then show ?thesis by (simp add: fenced_def)
qed

lemma fenced_kept: "kept (\<lambda>r. \<forall>h. r \<noteq> Read h) (fenced L j)"
  by (auto simp: kept_def fenced_def)

lemma snapshots_seen_kept: "kept (\<lambda>r. \<forall>h. r \<noteq> Snapshot h) (snapshots_seen L snaps)"
  by (auto simp: kept_def snapshots_seen_def)

lemma seen_kept: "kept (\<lambda>r. \<forall>h. r \<noteq> Snapshot h) (seen L j snaps)"
  using snapshots_seen_kept [of L snaps] by (simp add: kept_def seen_def)

lemma kept_mono: "kept R I \<Longrightarrow> (\<And>r. S r \<Longrightarrow> R r) \<Longrightarrow> kept S I"
  by (auto simp: kept_def)

lemma safe_fence:
  assumes I: "kept fence_request I"
  shows "safe I (fence L j) (\<lambda>snaps t. I t \<and> fenced L j t \<and> seen L j snaps t) (guarded G)"
  unfolding fence_def
proof (intro safe_seq)
  show "safe I (source_identity L) (\<lambda>_. I) (guarded G)"
    by (rule safe_source) (simp_all add: is_commit_def keptD [OF I] fence_request_def)
  show "safe I (check b m) (\<lambda>_. I) (guarded G)" for b m by (rule safe_check)
  show "safe I (documents L) (\<lambda>docs t. I t \<and> map fst docs = mnodes (man L) \<and> documents_seen L docs t) (guarded G)"
    using I by (rule safe_documents)
  show "safe (\<lambda>t. I t \<and> map fst docs = mnodes (man L) \<and> documents_seen L docs t) (lift (each (check_document L j) docs)) (\<lambda>_ t. I t \<and> fenced L j t) (guarded G)" for docs
    by (rule safe_lift) (auto intro: documents_fenced)
  show "safe (\<lambda>t. I t \<and> fenced L j t) (snapshots L) (\<lambda>snaps t. I t \<and> fenced L j t \<and> map fst snaps = mpublishers (man L) \<and> snapshots_seen L snaps t) (guarded G)"
    by (rule safe_snapshots [OF I kept_mono [OF fenced_kept]]) auto
  show "safe (\<lambda>t. I t \<and> fenced L j t \<and> map fst snaps = mpublishers (man L) \<and> snapshots_seen L snaps t) (lift (each (check_snapshot L j) snaps))
      (\<lambda>_ t. I t \<and> fenced L j t \<and> seen L j snaps t) (guarded G)" for snaps
    by (rule safe_lift) (auto simp: each_Inr seen_def)
  show "safe (\<lambda>t. I t \<and> fenced L j t \<and> seen L j snaps t) (ret snaps) (\<lambda>snaps t. I t \<and> fenced L j t \<and> seen L j snaps t) (guarded G)" for snaps
    by (rule safe_ret) simp
qed

text \<open>Saving.\<close>

definition save_request :: "request \<Rightarrow> bool" where
  "save_request r = (case r of Revalidate \<Rightarrow> True | SourceIdentity \<Rightarrow> True | Open _ \<Rightarrow> True | Commit _ _ _ \<Rightarrow> True | _ \<Rightarrow> False)"

lemma safe_writer:
  assumes I: "kept save_request I"
    and G: "\<And>t found left. I t \<Longrightarrow> f found = Inr left \<Longrightarrow> G t h found left"
  shows "safe I (writer L h f) (\<lambda>_. I) (guarded G)"
  unfolding writer_def
proof (intro safe_seq)
  show "safe I (ask_document L (Open h)) (\<lambda>_. I) (guarded G)"
    by (rule safe_document) (simp_all add: is_commit_def keptD [OF I] save_request_def)
  show "safe I (lift (f found)) (\<lambda>left t. I t \<and> f found = Inr left) (guarded G)" for found by (rule safe_lift) simp
  show "safe (\<lambda>t. I t \<and> f found = Inr left) (call L (Commit h found left)) (\<lambda>_. I) (guarded G)" for found left
    by (rule safe_call) (auto simp: G keptD [OF I] save_request_def)
qed

lemma safe_save:
  assumes I: "kept save_request I"
    and G: "\<And>t found left. I t \<Longrightarrow> validate_journal L j = Inr () \<Longrightarrow> put_journal L j found = Inr left \<Longrightarrow> G t (mjournal_host (man L)) found left"
  shows "safe I (save L j) (\<lambda>_ t. I t \<and> validate_journal L j = Inr ()) (guarded G)"
  unfolding save_def
proof (intro safe_seq)
  let ?I = "\<lambda>t. I t \<and> validate_journal L j = Inr ()"
  have k: "kept save_request ?I" using I by (simp add: kept_def)
  show "safe I (check b m) (\<lambda>_. I) (guarded G)" for b m by (rule safe_check)
  show "safe I (lift (validate_journal L j)) (\<lambda>_. ?I) (guarded G)" by (rule safe_lift) simp
  show "safe ?I (call L Revalidate) (\<lambda>_. ?I) (guarded G)" by (rule safe_call) (simp_all add: is_commit_def keptD [OF I] save_request_def)
  show "safe ?I (source_identity L) (\<lambda>_. ?I) (guarded G)" by (rule safe_source) (simp_all add: is_commit_def keptD [OF I] save_request_def)
  show "safe ?I (check b m) (\<lambda>_. ?I) (guarded G)" for b m by (rule safe_check)
  show "safe ?I (writer L (mjournal_host (man L)) (put_journal L j)) (\<lambda>_. ?I) (guarded G)"
    by (rule safe_writer [OF k]) (use G in auto)
qed

end
