(* ===== verification/DeviceEvidence.thy ===== *)
theory DeviceEvidence
  imports DeviceLifecycle
begin

text \<open>
  What a device operation guarantees whatever the fleet answers: which documents it commits, in which order, and what it has
  seen before it records that it is complete. Every statement is about all the calls made before an interruption, so it covers
  the runs that are cut short.
\<close>

section \<open>The part of a journal that an operation never changes\<close>

definition tokens :: "journal \<Rightarrow> (string \<times> string \<times> string) list" where
  "tokens j = map (\<lambda>hc. (fst hc, ctoken (snd hc), cdocument (snd hc))) (jcanaries j)"

definition intent :: "journal \<Rightarrow> _" where
  "intent j = ((jmanifest j, jaction j, jdevice j, jsource j), (jbefore j, jafter j, jprofiles j), (jgrants j, jartifact j, tokens j), jrevocation j)"

lemma intentD:
  assumes "intent k = intent j"
  shows "jmanifest k = jmanifest j" "jaction k = jaction j" "jdevice k = jdevice j" "jsource k = jsource j" "jbefore k = jbefore j"
    "jafter k = jafter j" "jprofiles k = jprofiles j" "jgrants k = jgrants j" "jartifact k = jartifact j" "tokens k = tokens j"
    "jrevocation k = jrevocation j"
  using assms by (simp_all add: intent_def)

lemma intent_updates [simp]:
  "intent (j\<lparr>jphase := p\<rparr>) = intent j" "intent (j\<lparr>jwritten := hs\<rparr>) = intent j" "intent (j\<lparr>jadopted := hs\<rparr>) = intent j"
  "intent (j\<lparr>jpublished := hs\<rparr>) = intent j"
  by (simp_all add: intent_def tokens_def)

lemma update_same_image:
  assumes "(k, f v) \<in> set (map (\<lambda>kv. (fst kv, f (snd kv))) d)" "distinct (map fst d)"
  shows "map (\<lambda>kv. (fst kv, f (snd kv))) (AList.update k v d) = map (\<lambda>kv. (fst kv, f (snd kv))) d"
  using assms by (induction d) (force simp: image_iff)+

lemma tokens_keys: "map fst (tokens j) = map fst (jcanaries j)"
  by (simp add: tokens_def)

lemma set_canary_intent:
  assumes "(h, ctoken c, cdocument c) \<in> set (tokens j)" "distinct (map fst (jcanaries j))"
  shows "intent (set_canary h c j) = intent j"
  using update_same_image [of h "\<lambda>c. (ctoken c, cdocument c)" c "jcanaries j"] assms
  by (simp add: intent_def tokens_def set_canary_def)

lemma set_canary_sel [simp]:
  "jphase (set_canary h c j) = jphase j" "jwritten (set_canary h c j) = jwritten j" "jadopted (set_canary h c j) = jadopted j"
  "jpublished (set_canary h c j) = jpublished j"
  by (simp_all add: set_canary_def)

text \<open>What the intent determines.\<close>

lemma intent_cong:
  assumes "intent k = intent j"
  shows "runtime_hosts L k = runtime_hosts L j" "grants_at k h = grants_at j h" "grant_ids k = grant_ids j"
    "expected_revocation L k = expected_revocation L j" "put_candidate L k h d f = put_candidate L j h d f"
proof -
  note i = intentD [OF assms]
  have c: "object_of (\<lambda>c. PDict (canary_value c)) (jcanaries x) = PDict (map (\<lambda>(h, t, d). (h, PDict [(''token'', PStr t), (''document_b64'', PStr d)])) (tokens x))" for x
    by (simp add: object_of_def tokens_def canary_value_def)
  show "runtime_hosts L k = runtime_hosts L j" "grants_at k h = grants_at j h" "grant_ids k = grant_ids j"
    "put_candidate L k h d f = put_candidate L j h d f"
    by (simp_all add: i runtime_hosts_def grants_at_def grant_ids_def put_candidate_def)
  show "expected_revocation L k = expected_revocation L j"
    by (simp add: expected_revocation_def revocation_intent_def immutable_def c i)
qed

lemma validate_Inr:
  "validate_journal L j = Inr u \<longleftrightarrow> record_ok (schema L) j \<and> jrevocation j = expected_revocation L j \<and> fields_agree L j \<and> evidence_complete L j"
  by (auto simp: validate_journal_def)

lemma valid_distinct:
  assumes "validate_journal L j = Inr ()"
  shows "distinct (map fst (jcanaries j))" "distinct (map fst (jgrants j))" "distinct (map fst (jafter j))"
  using assms by (auto simp: validate_Inr record_ok_def intent_ok_def host_map_def)
section \<open>What holds at every commit\<close>

text \<open>A canary has been seen through its public route, in this run or an earlier one.\<close>

definition shown :: "string \<times> canary \<Rightarrow> event list \<Rightarrow> bool" where
  "shown hc t \<longleftrightarrow> positive (snd hc) \<or> (\<exists>raw payload. canary_payload (snd hc) = Inr (raw, payload)
     \<and> (Route (fst hc) (ctoken (snd hc)) payload False, Done) \<in> set t)"

text \<open>What has been seen before an operation may be recorded as complete.\<close>

definition rechecked :: "lifecycle \<Rightarrow> journal \<Rightarrow> event list \<Rightarrow> bool" where
  "rechecked L j t \<longleftrightarrow>
     (\<forall>h \<in> set (runtime_hosts L j). \<exists>d. map_of (jafter j) h = Some d \<and> (Runtime h d VerifyOnly (jrevocation j), Done) \<in> set t)
     \<and> (\<forall>hp \<in> set (jprofiles j). \<exists>v. (Probe (fst hp) (snd hp) (if deny L then ''deny'' else ''accept''), ValueIs v) \<in> set t
          \<and> probe_answer L (snd hp) v = Inr ())"

definition refused :: "string \<times> string \<times> string \<Rightarrow> event list \<Rightarrow> bool" where
  "refused ht t \<longleftrightarrow> (Route (fst ht) (fst (snd ht)) [] True, Done) \<in> set t"

definition confirmed :: "lifecycle \<Rightarrow> journal \<Rightarrow> event list \<Rightarrow> bool" where
  "confirmed L j t \<longleftrightarrow> rechecked L j t \<and> (\<forall>ht \<in> set (tokens j). refused ht t) \<and> fenced L j t
     \<and> (\<exists>snaps. seen L j snaps t \<and> (deny L \<longrightarrow> (\<forall>hc \<in> set (jcanaries j). final_canary L j snaps hc = Inr ())))"

definition committed :: "lifecycle \<Rightarrow> journal \<Rightarrow> event list \<Rightarrow> string \<Rightarrow> document \<Rightarrow> document \<Rightarrow> bool" where
  "committed L j0 t h found left \<longleftrightarrow>
     h = mjournal_host (man L) \<and> (\<exists>j. put_journal L j found = Inr left \<and> validate_journal L j = Inr () \<and> intent j = intent j0
        \<and> (jphase j = Complete \<longrightarrow> confirmed L j t))
     \<or> (\<exists>d. map_of (jafter j0) h = Some d \<and> put_candidate L j0 h d found = Inr left \<and> (\<forall>hc \<in> set (jcanaries j0). shown hc t))"

abbreviation any_request :: "request \<Rightarrow> bool" where
  "any_request r \<equiv> True"

lemma keptI: "(\<And>t e. I t \<Longrightarrow> I (t @ [e])) \<Longrightarrow> kept R I"
  by (simp add: kept_def)

lemma kept_any: "kept any_request I \<Longrightarrow> kept R I"
  by (simp add: kept_def)

lemma kept_const [simp]: "kept R (\<lambda>_. F)"
  by (simp add: kept_def)

lemma shown_kept: "shown hc t \<Longrightarrow> shown hc (t @ u)"
  by (auto simp: shown_def)

lemma safe_save_journal:
  assumes "kept save_request I" "intent b = intent j0" "\<And>t. I t \<Longrightarrow> jphase b = Complete \<Longrightarrow> confirmed L b t"
  shows "safe I (save L b) (\<lambda>_ t. I t \<and> validate_journal L b = Inr ()) (guarded (committed L j0))"
  by (rule safe_save [OF assms(1)]) (use assms(2,3) in \<open>auto simp: committed_def\<close>)

lemma safe_save_ret:
  assumes "kept save_request I" "intent b = intent j0" "jphase b \<noteq> Complete" "\<And>t. I t \<Longrightarrow> validate_journal L b = Inr () \<Longrightarrow> Q b t"
  shows "safe I (seq (save L b) (\<lambda>_. ret b)) Q (guarded (committed L j0))"
  by (rule safe_seq [OF safe_save_journal [OF assms(1,2)]]) (auto intro: safe_ret simp: assms(3,4))

text \<open>Calls that are not commits keep every assertion that only grows.\<close>

lemma safe_call_any:
  "\<not> is_commit r \<Longrightarrow> kept any_request I \<Longrightarrow> safe I (call L r) (\<lambda>_ t. I t \<and> (r, Done) \<in> set t) (guarded G)"
  by (rule safe_call) (auto simp: kept_def)

lemma safe_value_any:
  "\<not> is_commit r \<Longrightarrow> kept any_request I \<Longrightarrow> safe I (ask_value L r) (\<lambda>v t. I t \<and> (r, ValueIs v) \<in> set t) (guarded G)"
  by (rule safe_value) (auto simp: kept_def)

lemma safe_drop: "safe P m (\<lambda>a t. Q a t \<and> R a t) C \<Longrightarrow> safe P m Q C"
  by (auto simp: safe_def)

lemma plant_step:
  assumes "intent b = intent j0" "hc \<in> set (jcanaries j0)" "jphase b = Complete \<longrightarrow> positive (snd hc)" "distinct (map fst (jcanaries j0))"
    and I: "kept any_request I"
  shows "safe I (plant L hc b) (\<lambda>b' t. I t \<and> shown hc t \<and> intent b' = intent j0 \<and> jphase b' = jphase b \<and> jwritten b' = jwritten b) (guarded (committed L j0))"
proof (cases "positive (snd hc)")
  case True
  then show ?thesis using assms(1) by (auto simp: plant_def shown_def intro: safe_ret)
next
  case False
  let ?b = "set_canary (fst hc) ((snd hc)\<lparr>positive := True\<rparr>) b"
  have "(fst hc, ctoken (snd hc), cdocument (snd hc)) \<in> set (tokens j0)" using assms(2) by (force simp: tokens_def)
  then have ib: "intent ?b = intent j0"
    using set_canary_intent [of "fst hc" "(snd hc)\<lparr>positive := True\<rparr>" b] intentD(10) [OF assms(1)] assms(1,4) tokens_keys [of b] tokens_keys [of j0] by simp
  have save: "safe (\<lambda>t. I t \<and> shown hc t) (seq (save L ?b) (\<lambda>_. ret ?b))
      (\<lambda>b' t. I t \<and> shown hc t \<and> intent b' = intent j0 \<and> jphase b' = jphase b \<and> jwritten b' = jwritten b) (guarded (committed L j0))"
    by (rule safe_save_ret [OF _ ib]) (use I False assms(3) ib in \<open>auto simp: kept_def shown_kept\<close>)
  have route: "safe (\<lambda>t. I t \<and> canary_payload (snd hc) = Inr (raw, payload)) (call L (Route (fst hc) (ctoken (snd hc)) payload False)) (\<lambda>_ t. I t \<and> shown hc t)
      (guarded (committed L j0))" for raw payload
    by (rule safe_call) (use I in \<open>auto simp: is_commit_def kept_def shown_def\<close>)
  show ?thesis unfolding plant_def Let_def if_not_P [OF False]
  proof (intro safe_seq)
    show "safe I (lift (un64 (cdocument (snd hc)))) (\<lambda>_. I) (guarded (committed L j0))" by (rule safe_lift)
    show "safe I (ask_value L (Publish (fst hc) (sha L (ctoken (snd hc))) None (Some raw))) (\<lambda>_. I) (guarded (committed L j0))" for raw
      by (rule safe_drop [OF safe_value_any]) (simp_all add: is_commit_def I)
    show "safe I (lift (canary_payload (snd hc))) (\<lambda>rp t. I t \<and> canary_payload (snd hc) = Inr rp) (guarded (committed L j0))" by (rule safe_lift) simp
    show "safe (\<lambda>t. I t \<and> canary_payload (snd hc) = Inr rp) (case rp of (_, payload) \<Rightarrow> seq (call L (Route (fst hc) (ctoken (snd hc)) payload False)) (\<lambda>_.
        seq (save L ?b) (\<lambda>_. ret ?b)))
      (\<lambda>b' t. I t \<and> shown hc t \<and> intent b' = intent j0 \<and> jphase b' = jphase b \<and> jwritten b' = jwritten b) (guarded (committed L j0))" for rp
      using safe_seq [OF route save] by (cases rp) simp
  qed
qed

text \<open>The canaries, then the nodes.\<close>

definition stage :: "journal \<Rightarrow> phase \<Rightarrow> journal \<Rightarrow> bool" where
  "stage j0 p b \<longleftrightarrow> intent b = intent j0 \<and> jphase b = p"

lemma plant_all:
  assumes "distinct (map fst (jcanaries j0))" "jphase j0 = Complete \<longrightarrow> list_all (\<lambda>hc. positive (snd hc)) (jcanaries j0)"
  shows "safe (\<lambda>_. True) (fold_act (plant L) (jcanaries j0) j0)
    (\<lambda>b t. (\<forall>hc \<in> set (jcanaries j0). shown hc t) \<and> stage j0 (jphase j0) b \<and> jwritten b = jwritten j0) (guarded (committed L j0))"
proof -
  let ?V = "\<lambda>hcs t. \<forall>hc \<in> set (jcanaries j0). hc \<in> set hcs \<or> shown hc t"
  let ?F = "\<lambda>hcs b. set hcs \<subseteq> set (jcanaries j0) \<and> stage j0 (jphase j0) b \<and> jwritten b = jwritten j0"
  have V: "kept any_request (?V hcs)" for hcs by (rule keptI) (auto intro: shown_kept)
  have "safe (\<lambda>t. ?V hcs t \<and> ?F hcs b) (fold_act (plant L) hcs b) (\<lambda>b t. ?V [] t \<and> ?F [] b) (guarded (committed L j0))" for hcs b
  proof (rule safe_fold_act)
    fix hc hcs b
    show "safe (\<lambda>t. ?V (hc # hcs) t \<and> ?F (hc # hcs) b) (plant L hc b) (\<lambda>b t. ?V hcs t \<and> ?F hcs b) (guarded (committed L j0))"
    proof (rule safe_pre_pure)
      assume F: "?F (hc # hcs) b"
      then have f: "intent b = intent j0" "jphase b = jphase j0" "hc \<in> set (jcanaries j0)" by (auto simp: stage_def)
      with assms(2) have p: "jphase b = Complete \<longrightarrow> positive (snd hc)" by (auto simp: list_all_iff)
      show "safe (?V (hc # hcs)) (plant L hc b) (\<lambda>b t. ?V hcs t \<and> ?F hcs b) (guarded (committed L j0))"
        by (rule safe_weaken [OF plant_step [OF f(1,3) p assms(1) V [of "hc # hcs"]]]) (use F f in \<open>auto simp: stage_def\<close>)
    qed
  qed
  from this [of "jcanaries j0" j0] show ?thesis by (rule safe_weaken) (auto simp: stage_def)
qed

lemma safe_after_at: "(\<And>t d. P t \<Longrightarrow> map_of (jafter b) h = Some d \<Longrightarrow> Q d t) \<Longrightarrow> safe P (after_at b h) Q C"
  unfolding after_at_def by (rule safe_lift) (auto split: option.split_asm)

lemma write_step:
  assumes "stage j0 p b" "p = Complete \<longrightarrow> h \<in> set (jwritten b)" and I: "kept any_request I" "\<And>t. I t \<Longrightarrow> \<forall>hc \<in> set (jcanaries j0). shown hc t"
  shows "safe I (write_node L h b) (\<lambda>b' t. I t \<and> stage j0 p b' \<and> set (jwritten b') = insert h (set (jwritten b))) (guarded (committed L j0))"
proof -
  let ?b = "b\<lparr>jwritten := jwritten b @ [h]\<rparr>"
  let ?Q = "\<lambda>b' t. I t \<and> stage j0 p b' \<and> set (jwritten b') = insert h (set (jwritten b))"
  have i: "intent b = intent j0" "jphase b = p" using assms(1) by (simp_all add: stage_def)
  have w: "safe (\<lambda>t. I t \<and> map_of (jafter b) h = Some d) (writer L h (put_candidate L b h d)) (\<lambda>_. I) (guarded (committed L j0))" for d
    by (rule safe_drop [OF safe_writer]) (use I in \<open>auto simp: kept_def committed_def intentD(6) [OF i(1)] intent_cong(5) [OF i(1)]\<close>)
  have s: "safe I (seq (save L ?b) (\<lambda>_. ret ?b)) ?Q (guarded (committed L j0))" if "h \<notin> set (jwritten b)"
    by (rule safe_save_ret [OF kept_any [OF I(1)]]) (use i assms(2) that in \<open>auto simp: stage_def\<close>)
  have f: "safe (?Q b') (seq (fence L b') (\<lambda>_. ret b')) ?Q (guarded (committed L j0))" for b'
    by (rule safe_seq [OF safe_fence]) (use I(1) in \<open>auto simp: kept_def intro!: safe_ret\<close>)
  show ?thesis unfolding write_node_def Let_def
    by (intro safe_seq [OF safe_after_at [where Q = "\<lambda>d t. I t \<and> map_of (jafter b) h = Some d"]] safe_seq [OF _ f] safe_if safe_seq [OF w s])
      (use assms(1) in \<open>auto intro!: safe_ret\<close>)
qed

lemma write_all:
  assumes "stage j0 p b0" "p = Complete \<longrightarrow> set hs \<subseteq> set (jwritten b0)"
    and I: "kept any_request I" "\<And>t. I t \<Longrightarrow> \<forall>hc \<in> set (jcanaries j0). shown hc t"
  shows "safe I (fold_act (write_node L) hs b0) (\<lambda>b t. I t \<and> stage j0 p b) (guarded (committed L j0))"
proof -
  let ?F = "\<lambda>hs b. stage j0 p b \<and> (p = Complete \<longrightarrow> set hs \<subseteq> set (jwritten b))"
  have "safe (\<lambda>t. I t \<and> ?F hs b) (fold_act (write_node L) hs b) (\<lambda>b t. I t \<and> ?F [] b) (guarded (committed L j0))" for hs b
  proof (rule safe_fold_act)
    fix h hs b
    show "safe (\<lambda>t. I t \<and> ?F (h # hs) b) (write_node L h b) (\<lambda>b t. I t \<and> ?F hs b) (guarded (committed L j0))"
      by (rule safe_pre_pure, rule safe_weaken [OF write_step [OF _ _ I]]) auto
  qed
  from this [of b0 hs] show ?thesis by (rule safe_weaken) (use assms(1,2) in auto)
qed

text \<open>The runtimes, then the grants: nothing here is recorded as complete.\<close>

lemma safe_probe:
  assumes "kept any_request I"
  shows "safe I (probe L hp) (\<lambda>_ t. I t \<and> (\<exists>v. (Probe (fst hp) (snd hp) (if deny L then ''deny'' else ''accept''), ValueIs v) \<in> set t
     \<and> probe_answer L (snd hp) v = Inr ())) (guarded G)"
  unfolding probe_def
  by (intro safe_seq [OF safe_check [where Q = "\<lambda>_. I"]] safe_seq [OF safe_value_any]) (auto simp: is_commit_def assms intro!: safe_lift)

lemma safe_fence_any: "kept any_request I \<Longrightarrow> safe I (fence L b) (\<lambda>_. I) (guarded G)"
  by (rule safe_drop [OF safe_fence]) (simp add: kept_def)

lemma safe_save_stage:
  assumes "stage j0 p b" "p \<noteq> Complete"
  shows "safe (\<lambda>_. True) (seq (save L b) (\<lambda>_. ret b)) (\<lambda>b _. stage j0 p b) (guarded (committed L j0))"
  by (rule safe_save_ret) (use assms in \<open>auto simp: stage_def\<close>)

lemma safe_call_True: "\<not> is_commit r \<Longrightarrow> safe (\<lambda>_. True) (call L r) (\<lambda>_ _. True) (guarded G)"
  by (rule safe_call) auto

lemma safe_value_True: "\<not> is_commit r \<Longrightarrow> safe (\<lambda>_. True) (ask_value L r) (\<lambda>_ _. True) (guarded G)"
  by (rule safe_value) auto

lemma safe_lift_True: "safe (\<lambda>_. True) (lift r) (\<lambda>_ _. True) C"
  by (rule safe_lift) simp

lemmas safe_quiet = safe_call_True safe_value_True safe_lift_True safe_check [where P = "\<lambda>_. True" and Q = "\<lambda>_ _. True"]
  safe_fence_any [where I = "\<lambda>_. True", simplified]

lemma adopt_step:
  assumes "stage j0 p b" "p \<noteq> Complete"
  shows "safe (\<lambda>_. True) (adopt_node L h b) (\<lambda>b _. stage j0 p b) (guarded (committed L j0))"
proof -
  have probes: "safe (\<lambda>_. True) (case map_of (jprofiles b) h of None \<Rightarrow> ret () | Some ps \<Rightarrow> probe L (h, ps)) (\<lambda>_ _. True) (guarded (committed L j0))"
    by (cases "map_of (jprofiles b) h") (auto intro!: safe_ret safe_weaken [OF safe_probe])
  have b: "stage j0 p (b\<lparr>jadopted := jadopted b @ [h]\<rparr>)" using assms(1) by (simp add: stage_def)
  show ?thesis unfolding adopt_node_def Let_def
    by (intro safe_if safe_seq [OF safe_after_at [where Q = "\<lambda>_ _. True"]] safe_seq [OF safe_quiet(1)] safe_seq [OF safe_quiet(5)]
        safe_seq [OF probes] safe_save_stage [OF b assms(2)]) (auto simp: is_commit_def assms intro!: safe_ret)
qed

lemma publish_quiet: "safe (\<lambda>_. True) (publish_grant L h t g) (\<lambda>_ _. True) (guarded G)"
  unfolding publish_grant_def by (intro safe_seq [OF safe_quiet(3)] safe_seq [OF safe_quiet(2)] safe_quiet) (auto simp: is_commit_def)

lemma confirm_step:
  assumes "stage j0 p b" "p \<noteq> Complete"
  shows "safe (\<lambda>_. True) (confirm_grant L h tg b) (\<lambda>b _. stage j0 p b) (guarded (committed L j0))"
proof -
  let ?publish = "\<lambda>rs. case map_of rs (fst tg) of
         None \<Rightarrow> if deny L then check False ''device-publisher-revocation-unconfirmed'' else publish_grant L h (fst tg) (snd tg)
       | Some r \<Rightarrow>
           if deny L then check (revoked r) ''device-publisher-revocation-unconfirmed''
           else if document_b64 r \<noteq> after_b64 (snd tg) then publish_grant L h (fst tg) (snd tg) else ret ()"
  have pub: "safe (\<lambda>_. True) (?publish rs) (\<lambda>_ _. True) (guarded (committed L j0))" for rs
    by (cases "map_of rs (fst tg)") (auto intro!: publish_quiet safe_check safe_ret)
  have b: "stage j0 p (b\<lparr>jpublished := jpublished b @ [grant_id h (fst tg)]\<rparr>)" using assms(1) by (simp add: stage_def)
  show ?thesis unfolding confirm_grant_def Let_def
    by (intro safe_seq [OF safe_quiet(5)] safe_seq [OF safe_quiet(3)] safe_seq [OF pub] safe_if safe_save_stage [OF b assms(2)])
      (auto simp: assms intro!: safe_ret)
qed

lemma safe_fold_stage:
  assumes "\<And>x b. stage j0 p b \<Longrightarrow> safe (\<lambda>_. True) (f x b) (\<lambda>b _. stage j0 p b) C" "stage j0 p b"
  shows "safe (\<lambda>_. True) (fold_act f xs b) (\<lambda>b _. stage j0 p b) C"
proof -
  have "safe (\<lambda>_. True \<and> stage j0 p b) (fold_act f xs b) (\<lambda>b _. True \<and> stage j0 p b) C" for b
    by (rule safe_fold_act, rule safe_pre_pure) (simp add: assms(1))
  from this [of b] show ?thesis by (rule safe_weaken) (simp_all add: assms(2))
qed

lemma confirm_all_step:
  assumes "stage j0 p b" "p \<noteq> Complete"
  shows "safe (\<lambda>_. True) (confirm_grants L hg b) (\<lambda>b _. stage j0 p b) (guarded (committed L j0))"
  unfolding confirm_grants_def
  by (intro safe_seq [OF safe_only_if [where Q = "\<lambda>_ _. True"]] safe_fold_stage confirm_step) (auto simp: is_commit_def assms intro!: safe_call_True)

text \<open>The last look at everything, the canaries, and the end.\<close>

lemma safe_for_each_facts:
  assumes "\<And>x I. kept any_request I \<Longrightarrow> safe I (f x) (\<lambda>_ t. I t \<and> F x t) C" "\<And>x. kept any_request (F x)" "kept any_request I"
  shows "safe I (for_each f xs) (\<lambda>_ t. I t \<and> (\<forall>x \<in> set xs. F x t)) C"
  using assms(3)
proof (induction xs arbitrary: I)
  case Nil
  show ?case by (simp add: safe_ret)
next
  case (Cons x xs)
  have "kept any_request (\<lambda>t. I t \<and> F x t)" using Cons.prems assms(2) [of x] by (simp add: kept_def)
  from safe_seq [OF assms(1) [OF Cons.prems] Cons.IH [OF this]] show ?case by (simp add: conj_assoc)
qed

lemma rechecked_kept: "kept any_request (rechecked L j)"
  by (rule keptI) (fastforce simp: rechecked_def)

lemma rechecked_cong: "intent k = intent j \<Longrightarrow> rechecked L k = rechecked L j"
  by (rule ext) (simp add: rechecked_def intent_cong(1) [of k j] intentD(6,7,11) [of k j])

lemma recheck_all: "safe (\<lambda>_. True) (recheck L j) (\<lambda>_ t. rechecked L j t) (guarded G)"
proof -
  let ?R = "\<lambda>h t. \<exists>d. map_of (jafter j) h = Some d \<and> (Runtime h d VerifyOnly (jrevocation j), Done) \<in> set t"
  let ?P = "\<lambda>hp t. \<exists>v. (Probe (fst hp) (snd hp) (if deny L then ''deny'' else ''accept''), ValueIs v) \<in> set t \<and> probe_answer L (snd hp) v = Inr ()"
  have k: "kept any_request (?R h)" "kept any_request (?P hp)" for h hp by (rule keptI; fastforce)+
  have verify: "safe I (seq (after_at j h) (\<lambda>d. call L (Runtime h d VerifyOnly (jrevocation j)))) (\<lambda>_ t. I t \<and> ?R h t) (guarded G)"
    if "kept any_request I" for I h
  proof (rule safe_seq)
    show "safe I (after_at j h) (\<lambda>d t. I t \<and> map_of (jafter j) h = Some d) (guarded G)" by (rule safe_after_at) simp
    show "safe (\<lambda>t. I t \<and> map_of (jafter j) h = Some d) (call L (Runtime h d VerifyOnly (jrevocation j))) (\<lambda>_ t. I t \<and> ?R h t) (guarded G)" for d
      by (rule safe_pre_pure, rule safe_weaken [OF safe_call_any [OF _ that]]) (auto simp: is_commit_def)
  qed
  have "safe (\<lambda>_. True) (recheck L j) (\<lambda>_ t. (True \<and> (\<forall>h \<in> set (sort (runtime_hosts L j)). ?R h t)) \<and> (\<forall>hp \<in> set (jprofiles j). ?P hp t)) (guarded G)"
    unfolding recheck_def
  proof (rule safe_seq)
    show "safe (\<lambda>_. True) (for_each (\<lambda>h. seq (after_at j h) (\<lambda>d. call L (Runtime h d VerifyOnly (jrevocation j)))) (sort (runtime_hosts L j)))
      (\<lambda>_ t. True \<and> (\<forall>h \<in> set (sort (runtime_hosts L j)). ?R h t)) (guarded G)"
      by (rule safe_for_each_facts [OF verify k(1)]) auto
    show "safe (\<lambda>t. True \<and> (\<forall>h \<in> set (sort (runtime_hosts L j)). ?R h t)) (for_each (probe L) (jprofiles j))
      (\<lambda>_ t. (True \<and> (\<forall>h \<in> set (sort (runtime_hosts L j)). ?R h t)) \<and> (\<forall>hp \<in> set (jprofiles j). ?P hp t)) (guarded G)"
      by (rule safe_for_each_facts [OF safe_probe k(2)], assumption, rule keptI, fastforce)
  qed
  then show ?thesis by (rule safe_weaken) (auto simp: rechecked_def)
qed

lemma clean_step:
  assumes "stage j0 p b" "p \<noteq> Complete" "hc \<in> set (jcanaries b0)" "tokens b0 = tokens j0" "distinct (map fst (tokens j0))"
    and I: "kept any_request I"
  shows "safe I (clean_canary L snaps hc b) (\<lambda>b t. I t \<and> refused (fst hc, ctoken (snd hc), cdocument (snd hc)) t \<and> stage j0 p b) (guarded (committed L j0))"
proof -
  let ?c1 = "(snd hc)\<lparr>cleanup_started := True\<rparr>"
  let ?b1 = "set_canary (fst hc) ?c1 b"
  let ?b2 = "set_canary (fst hc) (?c1\<lparr>cleaned := True\<rparr>) ?b1"
  let ?J = "\<lambda>t. I t \<and> refused (fst hc, ctoken (snd hc), cdocument (snd hc)) t"
  have J: "kept any_request ?J" using I by (auto simp: kept_def refused_def)
  have "(fst hc, ctoken (snd hc), cdocument (snd hc)) \<in> set (tokens b0)" using assms(3) by (force simp: tokens_def)
  then have same: "stage j0 p k \<Longrightarrow> ctoken c = ctoken (snd hc) \<Longrightarrow> cdocument c = cdocument (snd hc) \<Longrightarrow> stage j0 p (set_canary (fst hc) c k)" for k c
    using set_canary_intent [of "fst hc" c k] assms(4,5) by (auto simp: stage_def tokens_keys [of k, symmetric] dest: intentD(10))
  from same [OF assms(1)] have b1: "stage j0 p ?b1" by simp
  from same [OF b1] have b2: "stage j0 p ?b2" by simp
  have save1: "safe ?J (save L ?b1) (\<lambda>_. ?J) (guarded (committed L j0))"
    by (rule safe_drop [OF safe_save_journal [OF kept_any [OF J]]]) (use b1 assms(2) in \<open>auto simp: stage_def\<close>)
  show ?thesis unfolding clean_canary_def Let_def
  proof (intro safe_seq safe_if)
    show "safe I (lift r) (\<lambda>_. I) (guarded (committed L j0))" for r :: "device_error + unit" by (rule safe_lift)
    show "safe I (call L (Routes (fst hc))) (\<lambda>_. I) (guarded (committed L j0))" by (rule safe_drop [OF safe_call_any]) (simp_all add: is_commit_def I)
    show "safe I (call L (Route (fst hc) (ctoken (snd hc)) [] True)) (\<lambda>_. ?J) (guarded (committed L j0))"
      by (rule safe_weaken [OF safe_call_any [OF _ I]]) (auto simp: is_commit_def refused_def)
    show "safe ?J (ret b) (\<lambda>b t. I t \<and> refused (fst hc, ctoken (snd hc), cdocument (snd hc)) t \<and> stage j0 p b) (guarded (committed L j0))"
      by (rule safe_ret) (simp add: assms(1))
    show "safe ?J (save L ?b1) (\<lambda>_. ?J) (guarded (committed L j0))" by (rule save1)
    show "safe ?J (lift r) (\<lambda>_. ?J) (guarded (committed L j0))" for r :: "device_error + string" by (rule safe_lift)
    show "safe ?J (ask_value L (Publish (fst hc) (sha L (ctoken ?c1)) (Some (sha L raw)) None)) (\<lambda>_. ?J) (guarded (committed L j0))" for raw
      by (rule safe_drop [OF safe_value_any]) (use J in \<open>simp_all add: is_commit_def\<close>)
    show "safe ?J (lift r) (\<lambda>_. ?J) (guarded (committed L j0))" for r :: "device_error + pv" by (rule safe_lift)
    show "safe ?J (check c m) (\<lambda>_. ?J) (guarded (committed L j0))" for c m by (rule safe_check)
    show "safe ?J (save L ?b2) (\<lambda>_. ?J) (guarded (committed L j0))"
      by (rule safe_drop [OF safe_save_journal [OF kept_any [OF J]]]) (use b2 assms(2) in \<open>auto simp: stage_def\<close>)
    show "safe ?J (ret ?b2) (\<lambda>b t. I t \<and> refused (fst hc, ctoken (snd hc), cdocument (snd hc)) t \<and> stage j0 p b) (guarded (committed L j0))"
      by (rule safe_ret) (simp add: b2)
  qed
qed

lemma clean_all:
  assumes "stage j0 p b0" "p \<noteq> Complete" "distinct (map fst (tokens j0))"
  shows "safe (rechecked L j0) (fold_act (clean_canary L snaps) (jcanaries b0) b0)
    (\<lambda>b t. rechecked L j0 t \<and> (\<forall>ht \<in> set (tokens j0). refused ht t) \<and> stage j0 p b) (guarded (committed L j0))"
proof -
  let ?T = "\<lambda>hc. (fst hc, ctoken (snd hc), cdocument (snd hc))"
  let ?V = "\<lambda>hcs t. rechecked L j0 t \<and> (\<forall>hc \<in> set (jcanaries b0). hc \<in> set hcs \<or> refused (?T hc) t)"
  let ?F = "\<lambda>hcs b. set hcs \<subseteq> set (jcanaries b0) \<and> stage j0 p b"
  have V: "kept any_request (?V hcs)" for hcs using rechecked_kept [of L j0] by (auto simp: kept_def refused_def)
  have t: "tokens b0 = tokens j0" using assms(1) unfolding stage_def by (blast intro: intentD(10))
  have loop: "safe (\<lambda>t. ?V hcs t \<and> ?F hcs b) (fold_act (clean_canary L snaps) hcs b) (\<lambda>b t. ?V [] t \<and> ?F [] b) (guarded (committed L j0))" for hcs b
  proof (rule safe_fold_act)
    fix hc hcs b
    show "safe (\<lambda>t. ?V (hc # hcs) t \<and> ?F (hc # hcs) b) (clean_canary L snaps hc b) (\<lambda>b t. ?V hcs t \<and> ?F hcs b) (guarded (committed L j0))"
    proof (rule safe_pre_pure)
      assume F: "?F (hc # hcs) b"
      then have f: "stage j0 p b" "hc \<in> set (jcanaries b0)" by auto
      show "safe (?V (hc # hcs)) (clean_canary L snaps hc b) (\<lambda>b t. ?V hcs t \<and> ?F hcs b) (guarded (committed L j0))"
        by (rule safe_weaken [OF clean_step [OF f(1) assms(2) f(2) t assms(3) V [of "hc # hcs"]]]) (use F in auto)
    qed
  qed
  have "set (tokens j0) = ?T ` set (jcanaries b0)" unfolding t [symmetric] by (simp add: tokens_def)
  then show ?thesis by (intro safe_weaken [OF loop [of "jcanaries b0" b0]]) (simp_all add: assms(1))
qed

lemma confirmed_phase [simp]:
  "fenced L (b\<lparr>jphase := p\<rparr>) = fenced L b" "seen L (b\<lparr>jphase := p\<rparr>) = seen L b" "final_canary L (b\<lparr>jphase := p\<rparr>) = final_canary L b"
  by (intro ext; cases b; simp add: fenced_def expected_fingerprints_def seen_def check_snapshot_def grants_at_def current_rows_def is_canary_def
      final_canary_def Let_def cong: if_cong)+

lemma conclude_confirmed:
  assumes "stage j0 p b"
  shows "safe (\<lambda>t. rechecked L j0 t \<and> (\<forall>ht \<in> set (tokens j0). refused ht t)) (conclude L b) (\<lambda>_ _. True) (guarded (committed L j0))"
proof -
  let ?I = "\<lambda>t. rechecked L j0 t \<and> (\<forall>ht \<in> set (tokens j0). refused ht t)"
  let ?J = "\<lambda>snaps t. ?I t \<and> fenced L b t \<and> seen L b snaps t"
  let ?K = "\<lambda>snaps t. ?J snaps t \<and> (deny L \<longrightarrow> (\<forall>hc \<in> set (jcanaries b). final_canary L b snaps hc = Inr ()))"
  have i: "intent b = intent j0" using assms by (simp add: stage_def)
  have I: "kept any_request ?I" using rechecked_kept [of L j0] by (auto simp: kept_def refused_def)
  have K: "kept save_request (?K snaps)" for snaps
  proof -
    have "kept save_request (fenced L b)" "kept save_request (seen L b snaps)"
      by (rule kept_mono [OF fenced_kept] kept_mono [OF seen_kept]; auto simp: save_request_def)+
    with kept_any [OF I] show ?thesis by (simp add: kept_def)
  qed
  have fin: "confirmed L (b\<lparr>jphase := Complete\<rparr>) t" if "?K snaps t" for snaps t
  proof -
    have "intent (b\<lparr>jphase := Complete\<rparr>) = intent j0" using i by simp
    from rechecked_cong [OF this] intentD(10) [OF this] that show ?thesis by (auto simp: confirmed_def)
  qed
  show ?thesis unfolding conclude_def
  proof (intro safe_seq)
    show "safe ?I (call L Scope) (\<lambda>_. ?I) (guarded (committed L j0))" by (rule safe_drop [OF safe_call_any]) (use I in \<open>simp_all add: is_commit_def\<close>)
    show "safe ?I (fence L b) ?J (guarded (committed L j0))" by (rule safe_fence) (rule kept_any [OF I])
    show "safe (?J snaps) (if deny L then lift (each (final_canary L b snaps) (jcanaries b)) else ret ()) (\<lambda>_. ?K snaps) (guarded (committed L j0))" for snaps
      by (auto simp: each_Inr intro!: safe_lift safe_ret)
    show "safe (?K snaps) (save L (b\<lparr>jphase := Complete\<rparr>)) (\<lambda>_ _. True) (guarded (committed L j0))" for snaps
      by (rule safe_weaken [OF safe_save_journal [OF K]]) (use fin i in auto)
  qed
qed

lemma finish_confirmed:
  assumes "stage j0 p b" "p \<noteq> Complete" "distinct (map fst (tokens j0))"
  shows "safe (\<lambda>_. True) (finish L b) (\<lambda>_ _. True) (guarded (committed L j0))"
  unfolding finish_def
proof (intro safe_seq)
  let ?E = "\<lambda>t. rechecked L j0 t \<and> (\<forall>ht \<in> set (tokens j0). refused ht t)"
  have i: "intent b = intent j0" using assms by (simp add: stage_def)
  show "safe (\<lambda>_. True) (deliver L b) (\<lambda>_ _. True) (guarded (committed L j0))"
    unfolding deliver_def by (cases "jartifact b") (auto simp: is_commit_def intro!: safe_ret safe_seq [OF safe_quiet(3)] safe_quiet(1))
  show "safe (\<lambda>_. True) (recheck L b) (\<lambda>_. rechecked L j0) (guarded (committed L j0))"
    using recheck_all [of L b] rechecked_cong [OF i] by simp
  show "safe (rechecked L j0) (fence L b) (\<lambda>_. rechecked L j0) (guarded (committed L j0))" by (rule safe_fence_any) (rule rechecked_kept)
  show "safe (rechecked L j0) (lift (final_rows L b snaps)) (\<lambda>_. rechecked L j0) (guarded (committed L j0))" for snaps by (rule safe_lift)
  show "safe (rechecked L j0) (fold_act (clean_canary L snaps) (jcanaries b) b) (\<lambda>b t. ?E t \<and> stage j0 p b) (guarded (committed L j0))" for snaps
    by (rule safe_weaken [OF clean_all [OF assms]]) auto
  show "safe (\<lambda>t. ?E t \<and> stage j0 p k) (conclude L k) (\<lambda>_ _. True) (guarded (committed L j0))" for k
    by (rule safe_pre_pure) (rule conclude_confirmed)
qed

lemma safe_pure: "(F \<Longrightarrow> safe (\<lambda>_. True) m Q C) \<Longrightarrow> safe (\<lambda>_. F) m Q C"
  by (auto simp: safe_def)

lemma proceed_guarded:
  assumes "validate_journal L j = Inr ()" "mnodes (man L) \<noteq> []"
  shows "safe (\<lambda>_. True) (proceed L j) (\<lambda>_ _. True) (guarded (committed L j))"
proof -
  let ?S = "\<lambda>t. \<forall>hc \<in> set (jcanaries j). shown hc t"
  note dist = valid_distinct(1) [OF assms(1)]
  have S: "kept any_request ?S" by (rule keptI) (auto intro: shown_kept)
  have complete: "jphase j = Complete \<longrightarrow> set (mnodes (man L)) \<subseteq> set (jwritten j) \<and> list_all (\<lambda>hc. positive (snd hc)) (jcanaries j)"
    using assms by (auto simp: validate_Inr evidence_complete_def)
  show ?thesis unfolding proceed_def Let_def
  proof (intro safe_seq)
    show "safe (\<lambda>_. True) (call L Scope) (\<lambda>_ _. True) (guarded (committed L j))" by (rule safe_call_True) (simp add: is_commit_def)
    show "safe (\<lambda>_. True) (fence L j) (\<lambda>_ _. True) (guarded (committed L j))" by (rule safe_quiet)
    show "safe (\<lambda>_. True) (fold_act (plant L) (jcanaries j) j) (\<lambda>b t. ?S t \<and> stage j (jphase j) b \<and> jwritten b = jwritten j) (guarded (committed L j))"
      by (rule plant_all) (use dist complete in auto)
    show "safe (\<lambda>t. ?S t \<and> stage j (jphase j) b \<and> jwritten b = jwritten j) (fold_act (write_node L) (mnodes (man L)) b) (\<lambda>b _. stage j (jphase j) b) (guarded (committed L j))" for b
      by (rule safe_pre_pure, rule safe_weaken [OF write_all [where I = ?S]]) (use S complete in auto)
    show "safe (\<lambda>_. stage j (jphase j) b) (save L (b\<lparr>jphase := AuthorityWritten\<rparr>)) (\<lambda>_ _. stage j AuthorityWritten (b\<lparr>jphase := AuthorityWritten\<rparr>)) (guarded (committed L j))" for b
      by (rule safe_pure, rule safe_weaken [OF safe_save_journal [where I = "\<lambda>_. True"]]) (auto simp: stage_def)
    show "safe (\<lambda>_. stage j AuthorityWritten b) (fold_act (adopt_node L) hs b) (\<lambda>b _. stage j AuthorityWritten b) (guarded (committed L j))" for b hs
      by (rule safe_pure) (auto intro: safe_fold_stage adopt_step)
    show "safe (\<lambda>_. stage j AuthorityWritten b) (save L (b\<lparr>jphase := RuntimeAdopted\<rparr>)) (\<lambda>_ _. stage j RuntimeAdopted (b\<lparr>jphase := RuntimeAdopted\<rparr>)) (guarded (committed L j))" for b
      by (rule safe_pure, rule safe_weaken [OF safe_save_journal [where I = "\<lambda>_. True"]]) (auto simp: stage_def)
    show "safe (\<lambda>_. stage j RuntimeAdopted b) (fold_act (confirm_grants L) gs b) (\<lambda>b _. stage j RuntimeAdopted b) (guarded (committed L j))" for b gs
      by (rule safe_pure) (auto intro: safe_fold_stage confirm_all_step)
    show "safe (\<lambda>_. stage j RuntimeAdopted b) (finish L b) (\<lambda>_ _. True) (guarded (committed L j))" for b
      by (rule safe_pure) (use dist in \<open>auto intro: finish_confirmed simp: tokens_keys\<close>)
  qed
qed

section \<open>Every run\<close>

lemma journal_of_quiet: "safe (\<lambda>_. True) (journal_of L) (\<lambda>j _. validate_journal L j = Inr () \<and> jmanifest j = digest L) (guarded G)"
proof -
  have "safe (\<lambda>_. True) (ask_document L (Read h)) (\<lambda>_ _. True) (guarded G)" for h by (rule safe_document) (simp_all add: is_commit_def)
  then show ?thesis unfolding journal_of_def
    by (rule safe_seq) (auto simp: read_journal_def Let_def bind_res_Inr intro!: safe_lift split: option.split_asm stored.split_asm pv.split_asm if_split_asm)
qed

lemma run_guarded:
  assumes "mnodes (man L) \<noteq> []" "outcome (journal_of L) [] = Inr j" "t \<in> set (steps (run L) [])"
  shows "guarded (committed L j) t"
proof -
  have v: "validate_journal L j = Inr ()" using safe_outcomeD [OF journal_of_quiet _ assms(2)] by simp
  have "safe (\<lambda>_. True) (status L) (\<lambda>_ _. True) (guarded (committed L j))"
    unfolding status_def by (rule safe_seq [OF safe_weaken [OF journal_of_quiet]]) (auto intro: safe_ret)
  from safe_seq [OF proceed_guarded [OF v assms(1)] this]
  have "safe (\<lambda>_. True) (seq (proceed L j) (\<lambda>_. status L)) (\<lambda>_ _. True) (guarded (committed L j))" .
  from safe_stepsD [OF this] safe_stepsD [OF journal_of_quiet] assms(2,3) show ?thesis
    unfolding run_def by (auto simp: seq_steps_outcome(2))
qed

text \<open>
  C12: What a run changes. From whatever journal a run starts, and whatever the fleet answers, each document it commits, up to the point where it is
  cut off, is one of two. Either the journal's document with its own fields untouched, and the journal in it is one that the next run
  reads, with the same reviewed intent. Or the document of a node with its operations untouched, whose own fields become the reviewed
  candidate and were the reviewed original or that candidate; and every canary of a revocation has been served by its public route before.
\<close>

theorem authority_changes_guarded:
  assumes "mnodes (man L) \<noteq> []" "outcome (journal_of L) [] = Inr j" "pre @ [(Commit h found left, a)] \<in> set (steps (run L) [])"
  shows "h = mjournal_host (man L) \<and> own left = own found \<and> (\<exists>j'. read_journal L left = Inr j' \<and> intent j' = intent j)
    \<or> operations left = operations found \<and> map_of (jafter j) h = Some (own left)
       \<and> (map_of (jbefore j) h = Some (fingerprint L (own found)) \<or> fingerprint L (own found) = fingerprint L (own left))
       \<and> (\<forall>hc \<in> set (jcanaries j). shown hc pre)"
proof -
  have m: "jmanifest j = digest L" using safe_outcomeD [OF journal_of_quiet _ assms(2)] by simp
  have "committed L j pre h found left" using run_guarded [OF assms] by simp
  then consider (save) j' where "h = mjournal_host (man L)" "put_journal L j' found = Inr left" "validate_journal L j' = Inr ()" "intent j' = intent j"
    | (authority) d where "map_of (jafter j) h = Some d" "put_candidate L j h d found = Inr left" "\<forall>hc \<in> set (jcanaries j). shown hc pre"
    by (auto simp: committed_def)
  then show ?thesis
  proof cases
    case save
    with m have "jmanifest j' = digest L" using intentD(1) by metis
    from saved_journal_read [OF save(2,3) this] save show ?thesis by auto
  next
    case authority
    then show ?thesis by (auto simp: put_candidate_def split: if_split_asm)
  qed
qed

lemma current_rows_Inr:
  assumes "current_rows L j h s = Inr current" "(token, r) \<in> set (rows s)" "client_of (document_b64 r) = Inr (mdevice (man L))"
    and "\<not> is_canary L j h token r"
  shows "(token, r) \<in> set current"
proof -
  let ?f = "\<lambda>(token, r). bind_res (client_of (document_b64 r)) (\<lambda>c. Inr ((token, r), c))"
  from assms(1) obtain cs where cs: "map_res ?f (rows s) = Inr cs"
    "current = map fst (filter (\<lambda>((token, r), c). c = mdevice (man L) \<and> \<not> is_canary L j h token r) cs)"
    by (auto simp: current_rows_def bind_res_Inr)
  from assms(2) obtain n where n: "n < length (rows s)" "rows s ! n = (token, r)" by (auto simp: in_set_conv_nth)
  with cs(1) have "n < length cs" "?f (token, r) = Inr (cs ! n)" unfolding map_res_Inr by (auto simp: list_all2_conv_all_nth)
  then obtain y where "y \<in> set cs" "?f (token, r) = Inr y" by (meson nth_mem)
  with assms(3) have "((token, r), mdevice (man L)) \<in> set cs" by simp
  with assms(4) show ?thesis unfolding cs(2) by force
qed

text \<open>On the last snapshot of a completed revocation every row of the device is revoked.\<close>

lemma final_rows_revoked:
  assumes "maction (man L) = Revoke" "check_snapshot L j (h, s) = Inr ()" "final_canary L j snaps (h, c) = Inr ()"
    and "map_of snaps h = Some s" "map_of (jcanaries j) h = Some c" "distinct (map fst (rows s))"
    and r: "(token, r) \<in> set (rows s)" "client_of (document_b64 r) = Inr (mdevice (man L))"
  shows "revoked r"
proof -
  have gone: "map_of (rows s) (sha L (ctoken c)) = None"
    and rev: "\<And>t g. (t, g) \<in> set (grants_at j h) \<Longrightarrow> \<exists>r. map_of (rows s) t = Some r \<and> revoked r"
    using assms(3,4) by (auto simp: final_canary_def rows_at_def bind_res_Inr each_Inr split: option.split_asm)
  have row: "map_of (rows s) token = Some r" using r(1) assms(6) by simp
  with gone assms(5) have "\<not> is_canary L j h token r" by (auto simp: is_canary_def)
  moreover obtain current where current: "current_rows L j h s = Inr current" "each (check_row L (grants_at j h)) current = Inr ()"
    using assms(2) by (auto simp: check_snapshot_def bind_res_Inr split: if_split_asm)
  ultimately have "check_row L (grants_at j h) (token, r) = Inr ()" using current_rows_Inr [OF current(1) r] by (auto simp: each_Inr)
  then obtain g where "map_of (grants_at j h) token = Some g" using assms(1) by (auto simp: check_row_def split: option.split_asm)
  with rev [OF map_of_SomeD] row show ?thesis by force
qed

text \<open>A journal that a run commits as complete has the intent the run started with, and was confirmed.\<close>

lemma completed_confirmed:
  assumes "mnodes (man L) \<noteq> []" "outcome (journal_of L) [] = Inr j0"
    and "pre @ [(Commit h found left, a)] \<in> set (steps (run L) [])" "operations left \<noteq> operations found"
    and "read_journal L left = Inr j" "jphase j = Complete"
  shows "validate_journal L j = Inr ()" "intent j = intent j0" "confirmed L j pre"
proof -
  have m: "jmanifest j0 = digest L" using safe_outcomeD [OF journal_of_quiet _ assms(2)] by simp
  have "committed L j0 pre h found left" using run_guarded [OF assms(1-3)] by simp
  then obtain j' where j': "put_journal L j' found = Inr left" "validate_journal L j' = Inr ()" "intent j' = intent j0" "jphase j' = Complete \<longrightarrow> confirmed L j' pre"
    using assms(4) by (auto simp: committed_def put_candidate_def split: if_split_asm)
  with m have "jmanifest j' = digest L" using intentD(1) by metis
  from saved_journal_read(1) [OF j'(1,2) this] assms(5) have jj: "j' = j" by simp
  from j' assms(6) show "validate_journal L j = Inr ()" "intent j = intent j0" "confirmed L j pre" by (simp_all add: jj)
qed


end
