(* ===== verification/DeviceProgress.thy ===== *)
theory DeviceProgress
  imports DeviceEvidence
begin

text \<open>
  An operation never stops on its own journal: from a journal that a run reads, every journal it goes on to save satisfies the checks
  that saving makes, so only the fleet, the sources or a change behind its back can stop it.
\<close>

section \<open>Errors and results of an action\<close>

named_theorems yields_intros \<open>rules for the errors and results of an action\<close>

definition yields :: "('e \<Rightarrow> bool) \<Rightarrow> ('s, 'e, 'a) dio \<Rightarrow> ('a \<Rightarrow> bool) \<Rightarrow> bool" where
  "yields E m Q \<longleftrightarrow> (\<forall>s. case outcome m s of Inl e \<Rightarrow> E e | Inr a \<Rightarrow> Q a)"

lemma yieldsD: "yields E m Q \<Longrightarrow> outcome m s = Inl e \<Longrightarrow> E e"
  unfolding yields_def by (metis old.sum.simps(5))

lemma yields_return [yields_intros]: "Q a \<Longrightarrow> yields E (ret a) Q"
  by (simp add: yields_def ret_def)

lemma yields_lift [yields_intros]: "(\<And>e. r = Inl e \<Longrightarrow> E e) \<Longrightarrow> (\<And>a. r = Inr a \<Longrightarrow> Q a) \<Longrightarrow> yields E (lift r) Q"
  by (cases r) (simp_all add: yields_def lift_def look_def)

lemma yields_bind:
  assumes "yields E m R" "\<And>a. R a \<Longrightarrow> yields E (f a) Q"
  shows "yields E (seq m f) Q"
  unfolding yields_def
proof
  fix s
  show "case outcome (seq m f) s of Inl e \<Rightarrow> E e | Inr a \<Rightarrow> Q a"
  proof (cases "outcome m s")
    case (Inl e)
    with yieldsD [OF assms(1)] show ?thesis by (simp add: seq_run(3))
  next
    case (Inr a)
    with assms(1) have "R a" unfolding yields_def by (metis old.sum.simps(6))
    from assms(2) [OF this] Inr show ?thesis by (simp add: seq_run(1) yields_def)
  qed
qed

lemma yields_then: "yields E m (\<lambda>_. True) \<Longrightarrow> (\<And>a. yields E (f a) Q) \<Longrightarrow> yields E (seq m f) Q"
  by (rule yields_bind)

lemma yields_weaken: "yields E m R \<Longrightarrow> (\<And>a. R a \<Longrightarrow> Q a) \<Longrightarrow> yields E m Q"
  unfolding yields_def by (auto split: sum.split_asm sum.split)

lemma yields_fold:
  assumes "\<And>x xs b. I (x # xs) b \<Longrightarrow> yields E (f x b) (I xs)" "I xs b"
  shows "yields E (fold_act f xs b) (I [])"
  using assms(2) by (induction xs arbitrary: b) (auto intro: yields_return yields_bind [OF assms(1)])

lemma yields_map_act: "(\<And>x. yields E (f x) (\<lambda>_. True)) \<Longrightarrow> yields E (map_act f xs) (\<lambda>_. True)"
  by (induction xs) (auto intro!: yields_return yields_then)

lemma yields_for_each: "(\<And>x. yields E (f x) (\<lambda>_. True)) \<Longrightarrow> yields E (for_each f xs) (\<lambda>_. True)"
  by (induction xs) (auto intro!: yields_return yields_then)

lemma yields_if [yields_intros]: "(b \<Longrightarrow> yields E m Q) \<Longrightarrow> (\<not> b \<Longrightarrow> yields E n Q) \<Longrightarrow> yields E (if b then m else n) Q"
  by simp

section \<open>The refusals of a journal\<close>

definition REFUSALS :: "device_error list" where
  "REFUSALS = map DeviceError [''invalid-device-operation-journal'', ''device-revocation-intent-changed'', ''incomplete-device-operation-evidence'']"

definition other :: "device_error \<Rightarrow> bool" where
  "other e \<longleftrightarrow> e \<notin> set REFUSALS"

lemma other_simps [simp]: "other (Exc x)"
  "other (DeviceError m) \<longleftrightarrow> m \<notin> {''invalid-device-operation-journal'', ''device-revocation-intent-changed'', ''incomplete-device-operation-evidence''}"
  by (auto simp: other_def REFUSALS_def)

text \<open>A computation whose errors are not refusals of a journal.\<close>

named_theorems polite_intros \<open>rules for computations without refusals of a journal\<close>

definition polite :: "device_error + 'a \<Rightarrow> bool" where
  "polite m \<longleftrightarrow> (\<forall>e. m = Inl e \<longrightarrow> other e)"

lemma polite_prims [polite_intros]: "polite (Inr a)" "other e \<Longrightarrow> polite (Inl e)" "other e \<Longrightarrow> polite (refuse_if b e)"
  by (simp_all add: polite_def)

lemma polite_bind [polite_intros]: "polite m \<Longrightarrow> (\<And>a. polite (f a)) \<Longrightarrow> polite (bind_res m f)"
  by (auto simp: polite_def bind_res_Inl)

lemma polite_if [polite_intros]: "(b \<Longrightarrow> polite m) \<Longrightarrow> (\<not> b \<Longrightarrow> polite n) \<Longrightarrow> polite (if b then m else n)"
  by simp

lemma polite_each [polite_intros]: "(\<And>x. polite (f x)) \<Longrightarrow> polite (each f xs)"
  by (induction xs) (auto intro: polite_intros)

lemma polite_map_res [polite_intros]: "(\<And>x. polite (f x)) \<Longrightarrow> polite (map_res f xs)"
  by (induction xs) (auto intro: polite_intros)

lemma polite_un64 [polite_intros]: "polite (un64 s)"
  by (auto simp: un64_def intro: polite_intros split: option.split)

lemma polite_unique_object [polite_intros]: "polite (unique_object raw)"
  unfolding unique_object_def by (auto intro: polite_intros split: sum.split decode_error.split json_error.split)

lemma polite_envelope [polite_intros]: "polite (envelope raw)"
  unfolding envelope_def by (intro polite_intros; auto intro!: polite_intros split: pv.split)

lemma polite_client_of [polite_intros]: "polite (client_of d)"
  unfolding client_of_def by (auto intro!: polite_intros)

lemma polite_snapshot_rows: "polite (snapshot_rows f acc n vs)"
  by (induction vs arbitrary: acc n) (auto intro!: polite_intros split: pv.split)

lemma polite_parse_snapshot [polite_intros]: "polite (parse_snapshot f v)"
  unfolding parse_snapshot_def by (auto intro!: polite_intros polite_snapshot_rows split: pv.split)

lemma polite_get_or [polite_intros]: "polite (get_or v k w)"
  by (auto simp: get_or_def intro: polite_intros split: pv.split)

lemma polite_check_document [polite_intros]: "polite (check_document L j node)"
  by (auto simp: check_document_def intro: polite_intros)

lemma polite_check_row [polite_intros]: "polite (check_row L known tr)"
  by (auto simp: check_row_def intro!: polite_intros split: option.split)

lemma polite_current_rows [polite_intros]: "polite (current_rows L j h s)"
  by (auto simp: current_rows_def intro!: polite_intros)

lemma polite_check_snapshot [polite_intros]: "polite (check_snapshot L j hs)"
  unfolding check_snapshot_def by (auto intro!: polite_intros)

lemma polite_probe_row [polite_intros]: "polite (probe_row L v)"
  by (auto simp: probe_row_def intro!: polite_intros split: pv.split)

lemma polite_probe_answer [polite_intros]: "polite (probe_answer L ps v)"
  unfolding probe_answer_def Let_def by (auto intro!: polite_intros split: pv.split)

lemma polite_rows_at [polite_intros]: "polite (rows_at snaps h)"
  by (auto simp: rows_at_def intro: polite_intros split: option.split)

lemma polite_final_row [polite_intros]: "polite (final_row L rs tg)"
  by (auto simp: final_row_def intro: polite_intros split: option.split)

lemma polite_final_rows [polite_intros]: "polite (final_rows L j snaps)"
  unfolding final_rows_def by (auto intro!: polite_intros)

lemma polite_canary_row [polite_intros]: "polite (canary_row L c rs)"
  by (auto simp: canary_row_def intro: polite_intros)

lemma polite_final_canary [polite_intros]: "polite (final_canary L j snaps hc)"
  unfolding final_canary_def by (auto intro!: polite_intros)

lemma polite_canary_payload [polite_intros]: "polite (canary_payload c)"
  unfolding canary_payload_def by (auto intro!: polite_intros)

lemma polite_put_journal [polite_intros]: "polite (put_journal L j d)"
  unfolding put_journal_def Let_def
  by (auto intro!: polite_intros simp: stored_manifest_def subscript_def split: option.split stored.split pv.split)

lemma polite_put_candidate [polite_intros]: "polite (put_candidate L j h c d)"
  unfolding put_candidate_def by (auto intro!: polite_intros)

section \<open>The calls\<close>

lemma yields_polite: "polite r \<Longrightarrow> yields other (lift r) (\<lambda>_. True)"
  by (auto simp: polite_def intro: yields_lift)

lemma yields_check: "other (DeviceError m) \<Longrightarrow> yields other (check b m) (\<lambda>_. True)"
  unfolding check_def by (intro yields_polite polite_intros)

text \<open>What the fleet raises are not refusals of a journal.\<close>

definition foreign :: "lifecycle \<Rightarrow> bool" where
  "foreign L \<longleftrightarrow> (\<forall>t r e. answers L t r = Failed e \<longrightarrow> other e)"

lemma yields_ask:
  assumes "foreign L"
  shows "yields other (ask L r f) (\<lambda>_. True)"
  unfolding yields_def
proof
  fix t
  show "case outcome (ask L r f) t of Inl e \<Rightarrow> other e | Inr a \<Rightarrow> True"
    using assms by (cases "answers L t r") (auto simp: foreign_def ask_def Let_def split: option.split)
qed

lemma yields_calls:
  assumes "foreign L"
  shows "yields other (call L r) (\<lambda>_. True)" "yields other (source_identity L) (\<lambda>_. True)"
    "yields other (ask_document L r) (\<lambda>_. True)" "yields other (ask_value L r) (\<lambda>_. True)"
  using yields_ask [OF assms] by (simp_all add: call_def source_identity_def ask_document_def ask_value_def)

lemma yields_after_at: "yields other (after_at j h) (\<lambda>_. True)"
  unfolding after_at_def by (auto intro!: yields_polite polite_intros split: option.split)

lemma yields_writer: "foreign L \<Longrightarrow> (\<And>d. polite (f d)) \<Longrightarrow> yields other (writer L h f) (\<lambda>_. True)"
  unfolding writer_def by (intro yields_then yields_calls yields_polite)

lemma yields_fence: "foreign L \<Longrightarrow> yields other (fence L j) (\<lambda>_. True)"
  unfolding fence_def documents_def snapshots_def
  by (intro yields_then yields_calls yields_check yields_map_act yields_polite polite_intros yields_return; simp)

lemma yields_save:
  assumes "foreign L" "validate_journal L b = Inr ()"
  shows "yields other (save L b) (\<lambda>_. True)"
  unfolding save_def assms(2)
  by (intro yields_then yields_calls yields_check yields_writer yields_polite polite_intros assms(1); simp)

lemma yields_save_ret:
  assumes "foreign L" "validate_journal L b = Inr ()" "Q b"
  shows "yields other (seq (save L b) (\<lambda>_. ret b)) Q"
  using assms by (intro yields_then yields_save yields_return)

lemma yields_probe: "foreign L \<Longrightarrow> yields other (probe L hp) (\<lambda>_. True)"
  unfolding probe_def by (intro yields_then yields_calls yields_check yields_polite polite_intros; simp)

lemma yields_publish: "foreign L \<Longrightarrow> yields other (publish_grant L h t g) (\<lambda>_. True)"
  unfolding publish_grant_def
  by (intro yields_then yields_calls yields_check yields_polite polite_intros) (auto intro!: polite_intros split: option.split list.split)

lemma yields_deliver: "foreign L \<Longrightarrow> yields other (deliver L j) (\<lambda>_. True)"
  unfolding deliver_def by (auto intro!: yields_then yields_calls yields_polite polite_intros yields_return split: option.split)

lemma yields_recheck: "foreign L \<Longrightarrow> yields other (recheck L j) (\<lambda>_. True)"
  unfolding recheck_def by (intro yields_then yields_for_each yields_after_at yields_calls yields_probe)

section \<open>Every journal that is saved is valid\<close>

text \<open>The checks in terms of what changes during an operation.\<close>

definition intent_valid :: "lifecycle \<Rightarrow> journal \<Rightarrow> bool" where
  "intent_valid L j \<longleftrightarrow> intent_ok (schema L) j \<and> jrevocation j = expected_revocation L j
     \<and> set (map fst (jbefore j)) = set (mnodes (man L)) \<and> set (map fst (jafter j)) = set (mnodes (man L))
     \<and> set (map fst (jprofiles j)) \<subseteq> set (mnodes (man L)) \<and> set (map fst (jgrants j)) \<subseteq> set (mpublishers (man L))
     \<and> jaction j = maction (man L) \<and> jdevice j = mdevice (man L) \<and> (jartifact j \<noteq> None \<longleftrightarrow> maction (man L) = Issue \<or> native (man L))
     \<and> set (map fst (jcanaries j)) = (if maction (man L) = Revoke then set (mpublishers (man L)) else {})"

lemma valid_iff:
  "validate_journal L j = Inr () \<longleftrightarrow> intent_valid L j \<and> host_list (jwritten j) \<and> host_list (jadopted j)
     \<and> length (jpublished j) \<le> 4096 \<and> distinct (jpublished j) \<and> set (jwritten j) \<subseteq> set (mnodes (man L))
     \<and> set (jadopted j) \<subseteq> set (jwritten j) \<and> set (jpublished j) \<subseteq> set (grant_ids j) \<and> evidence_complete L j"
  unfolding validate_Inr record_ok_def fields_agree_def intent_valid_def Let_def by blast

lemma intent_valid_cong:
  assumes "intent k = intent j"
  shows "intent_valid L k = intent_valid L j"
proof -
  note i = intentD [OF assms]
  let ?ok = "\<lambda>c. dollar (repeated (\<lambda>c. is_alnum c \<or> c = CHR ''_'' \<or> c = CHR ''-'') 43 43) (ctoken c) \<and> b64_pattern (cdocument c)"
  let ?tok = "\<lambda>td. dollar (repeated (\<lambda>c. is_alnum c \<or> c = CHR ''_'' \<or> c = CHR ''-'') 43 43) (fst td) \<and> b64_pattern (snd td)"
  have c: "host_map 16 ?ok (jcanaries x) = host_map 16 ?tok (tokens x)" for x
    by (auto simp: host_map_def tokens_def list_all_iff comp_def)
  have "map fst (jcanaries k) = map fst (jcanaries j)" using i(10) tokens_keys by metis
  then show ?thesis unfolding intent_valid_def intent_ok_def c i intent_cong(4) [OF assms] by simp
qed

lemma set_update_distinct: "distinct (map fst d) \<Longrightarrow> set (AList.update k v d) = insert (k, v) {kv \<in> set d. fst kv \<noteq> k}"
  by (induction d) (auto simp: image_iff)

lemma host_list_nodes:
  assumes "intent_valid L j" "distinct hs" "set hs \<subseteq> set (mnodes (man L))"
  shows "host_list hs"
proof -
  have b: "host_map 32 (dollar hex64) (jbefore j)" "set (mnodes (man L)) = set (map fst (jbefore j))"
    using assms(1) by (auto simp: intent_valid_def intent_ok_def)
  have "length hs = card (set hs)" using assms(2) by (simp add: distinct_card)
  also have "\<dots> \<le> card (set (map fst (jbefore j)))" using assms(3) b(2) by (intro card_mono) auto
  also have "\<dots> \<le> length (jbefore j)" using card_length [of "map fst (jbefore j)"] by simp
  also have "\<dots> \<le> 32" using b(1) by (simp add: host_map_def)
  finally show ?thesis using assms(2,3) b by (fastforce simp: host_list_def host_map_def list_all_iff)
qed

lemma grant_ids_bound:
  assumes "intent_valid L j" "length (mpublishers (man L)) \<le> 16"
  shows "length (grant_ids j) \<le> 4096"
proof -
  have g: "distinct (map fst (jgrants j))" "\<And>hg. hg \<in> set (jgrants j) \<Longrightarrow> length (snd hg) \<le> 256" "set (map fst (jgrants j)) \<subseteq> set (mpublishers (man L))"
    using assms(1) by (auto simp: intent_valid_def intent_ok_def host_map_def list_all_iff)
  have "length (jgrants j) = card (set (map fst (jgrants j)))" using distinct_card [OF g(1)] by simp
  also have "\<dots> \<le> card (set (mpublishers (man L)))" using g(3) by (intro card_mono) auto
  also have "\<dots> \<le> 16" using card_length [of "mpublishers (man L)"] assms(2) by linarith
  finally have n: "length (jgrants j) \<le> 16" .
  have "length (grant_ids j) = sum_list (map (\<lambda>hg. length (snd hg)) (jgrants j))"
    by (simp add: grant_ids_def length_concat comp_def case_prod_beta)
  also have "\<dots> \<le> 256 * length (jgrants j)" by (rule sum_list_bound) (rule g(2))
  also have "\<dots> \<le> 4096" using n by simp
  finally show ?thesis .
qed

definition good :: "lifecycle \<Rightarrow> journal \<Rightarrow> bool" where
  "good L j \<longleftrightarrow> validate_journal L j = Inr () \<and> set (jadopted j) \<subseteq> set (runtime_hosts L j)"

abbreviation all_positive :: "journal \<Rightarrow> bool" where
  "all_positive j \<equiv> \<forall>hc \<in> set (jcanaries j). positive (snd hc)"

lemma set_canary_good:
  assumes "good L b" "(h, c) \<in> set (jcanaries b)" "ctoken c' = ctoken c" "cdocument c' = cdocument c"
    and "positive c' \<or> jwritten b = []" "cleaned c \<longrightarrow> cleaned c'"
  shows "good L (set_canary h c' b)" and "set (jcanaries (set_canary h c' b)) = insert (h, c') {hc \<in> set (jcanaries b). fst hc \<noteq> h}"
proof -
  have d: "distinct (map fst (jcanaries b))" using assms(1) valid_distinct(1) by (auto simp: good_def)
  show s: "set (jcanaries (set_canary h c' b)) = insert (h, c') {hc \<in> set (jcanaries b). fst hc \<noteq> h}"
    using set_update_distinct [OF d] by (simp add: set_canary_def)
  have "(h, ctoken c', cdocument c') \<in> set (tokens b)" using assms(2-4) by (force simp: tokens_def)
  note i = set_canary_intent [OF this d]
  have e: "evidence_complete L b" using assms(1) by (simp add: good_def valid_iff)
  then have "jwritten b = [] \<or> all_positive (set_canary h c' b)" unfolding s using assms(5) by (auto simp: evidence_complete_def list_all_iff)
  moreover have "jphase b = Complete \<longrightarrow> (\<forall>hc \<in> set (jcanaries (set_canary h c' b)). cleaned (snd hc))"
    unfolding s using e assms(2,6) by (auto simp: evidence_complete_def list_all_iff)
  ultimately have "evidence_complete L (set_canary h c' b)"
    using e unfolding evidence_complete_def list_all_iff set_canary_sel intent_cong(1,3) [OF i] by blast
  with assms(1) show "good L (set_canary h c' b)"
    unfolding good_def valid_iff set_canary_sel intent_valid_cong [OF i] intent_cong(1,3) [OF i] by blast
qed

lemma plant_good:
  assumes "foreign L" "good L j"
  shows "yields other (fold_act (plant L) (jcanaries j) j) (\<lambda>b. good L b \<and> all_positive b)"
proof -
  let ?I = "\<lambda>hcs b. good L b \<and> set hcs \<subseteq> set (jcanaries b) \<and> distinct (map fst hcs) \<and> (\<forall>hc \<in> set (jcanaries b). positive (snd hc) \<or> hc \<in> set hcs)"
  have step: "yields other (plant L hc b) (?I hcs)" if I: "?I (hc # hcs) b" for hc hcs b
  proof (cases "positive (snd hc)")
    case True
    with I show ?thesis by (auto simp: plant_def intro!: yields_return)
  next
    case False
    let ?b = "set_canary (fst hc) ((snd hc)\<lparr>positive := True\<rparr>) b"
    have "(fst hc, snd hc) \<in> set (jcanaries b)" using I by auto
    from set_canary_good [OF _ this, of L "(snd hc)\<lparr>positive := True\<rparr>"] I
    have g: "good L ?b" "set (jcanaries ?b) = insert (fst hc, (snd hc)\<lparr>positive := True\<rparr>) {x \<in> set (jcanaries b). fst x \<noteq> fst hc}" by simp_all
    have "?I hcs ?b" unfolding g(2) using I g(1) by (auto simp: image_iff)
    then have save: "yields other (seq (save L ?b) (\<lambda>_. ret ?b)) (?I hcs)" by (intro yields_save_ret [OF assms(1)]) (simp_all add: good_def)
    show ?thesis unfolding plant_def Let_def if_not_P [OF False] case_prod_beta
      by (intro yields_then yields_polite polite_intros yields_calls [OF assms(1)] save)
  qed
  have "?I (jcanaries j) j" using assms(2) valid_distinct(1) by (auto simp: good_def)
  from yields_fold [where I = ?I, OF step this] show ?thesis by (rule yields_weaken) auto
qed

text \<open>The updates of a run keep a journal good.\<close>

lemma runtime_hosts_nodes: "good L b \<Longrightarrow> set (runtime_hosts L b) \<subseteq> set (mnodes (man L))"
  by (auto simp: good_def valid_iff intent_valid_def runtime_hosts_def)

lemma good_evidence: "good L b \<Longrightarrow> evidence_complete L b"
  by (simp add: good_def valid_iff)

lemma good_updates [simp]:
  "runtime_hosts L (b\<lparr>jphase := p\<rparr>) = runtime_hosts L b" "grant_ids (b\<lparr>jphase := p\<rparr>) = grant_ids b"
  "runtime_hosts L (b\<lparr>jwritten := hs\<rparr>) = runtime_hosts L b" "grant_ids (b\<lparr>jwritten := hs\<rparr>) = grant_ids b"
  "runtime_hosts L (b\<lparr>jadopted := hs\<rparr>) = runtime_hosts L b" "grant_ids (b\<lparr>jadopted := hs\<rparr>) = grant_ids b"
  "runtime_hosts L (b\<lparr>jpublished := hs\<rparr>) = runtime_hosts L b" "grant_ids (b\<lparr>jpublished := hs\<rparr>) = grant_ids b"
  by (rule intent_cong; simp)+

lemma intent_valid_updates [simp]:
  "intent_valid L (b\<lparr>jphase := p\<rparr>) = intent_valid L b" "intent_valid L (b\<lparr>jwritten := hs\<rparr>) = intent_valid L b"
  "intent_valid L (b\<lparr>jadopted := hs\<rparr>) = intent_valid L b" "intent_valid L (b\<lparr>jpublished := hs\<rparr>) = intent_valid L b"
  by (rule intent_valid_cong; simp)+

lemma good_written:
  assumes "good L b" "all_positive b" "h \<in> set (mnodes (man L))" "h \<notin> set (jwritten b)"
  shows "good L (b\<lparr>jwritten := jwritten b @ [h]\<rparr>)"
proof -
  have v: "intent_valid L b" "host_list (jwritten b)" "set (jwritten b) \<subseteq> set (mnodes (man L))" using assms(1) by (simp_all add: good_def valid_iff)
  have "host_list (jwritten b @ [h])" by (rule host_list_nodes [OF v(1)]) (use v assms(3,4) in \<open>auto simp: host_list_def\<close>)
  moreover have "jphase b = Prepared" using good_evidence [OF assms(1)] assms(3,4) by (auto simp: evidence_complete_def)
  ultimately show ?thesis using assms by (auto simp: good_def valid_iff evidence_complete_def list_all_iff)
qed

lemma good_adopted:
  assumes "good L b" "jphase b = AuthorityWritten" "h \<in> set (runtime_hosts L b)" "h \<notin> set (jadopted b)"
  shows "good L (b\<lparr>jadopted := jadopted b @ [h]\<rparr>)"
proof -
  have v: "intent_valid L b" "host_list (jadopted b)" "set (jadopted b) \<subseteq> set (jwritten b)" "set (jwritten b) = set (mnodes (man L))"
    using assms(1,2) good_evidence [OF assms(1)] by (auto simp: good_def valid_iff evidence_complete_def)
  have "h \<in> set (mnodes (man L))" using runtime_hosts_nodes [OF assms(1)] assms(3) by blast
  then have "host_list (jadopted b @ [h])" by (intro host_list_nodes [OF v(1)]) (use v assms(4) in \<open>auto simp: host_list_def\<close>)
  with \<open>h \<in> set (mnodes (man L))\<close> v assms show ?thesis by (auto simp: good_def valid_iff evidence_complete_def)
qed

lemma good_published:
  assumes "good L b" "jphase b = RuntimeAdopted" "i \<in> set (grant_ids b)" "i \<notin> set (jpublished b)" "length (mpublishers (man L)) \<le> 16"
  shows "good L (b\<lparr>jpublished := jpublished b @ [i]\<rparr>)"
proof -
  have v: "intent_valid L b" "distinct (jpublished b @ [i])" "set (jpublished b @ [i]) \<subseteq> set (grant_ids b)"
    using assms by (auto simp: good_def valid_iff)
  have "length (jpublished b @ [i]) = card (set (jpublished b @ [i]))" using distinct_card [OF v(2)] by simp
  also have "\<dots> \<le> card (set (grant_ids b))" by (rule card_mono [OF _ v(3)]) simp
  also have "\<dots> \<le> length (grant_ids b)" by (rule card_length)
  also have "\<dots> \<le> 4096" by (rule grant_ids_bound [OF v(1) assms(5)])
  finally show ?thesis using assms(1,2) v by (auto simp: good_def valid_iff evidence_complete_def)
qed

lemma good_phase:
  assumes "good L b" "set (jwritten b) = set (mnodes (man L))"
    and "p = RuntimeAdopted \<or> p = Complete \<longrightarrow> set (jadopted b) = set (runtime_hosts L b)"
    and "p = Complete \<longrightarrow> set (jpublished b) = set (grant_ids b) \<and> (\<forall>hc \<in> set (jcanaries b). cleaned (snd hc))"
  shows "good L (b\<lparr>jphase := p\<rparr>)"
  using assms unfolding good_def valid_iff by (auto simp: evidence_complete_def list_all_iff)

lemma write_good:
  assumes "foreign L" "good L b0" "all_positive b0"
  shows "yields other (fold_act (write_node L) (mnodes (man L)) b0) (\<lambda>b. good L b \<and> all_positive b \<and> set (jwritten b) = set (mnodes (man L)))"
proof -
  let ?I = "\<lambda>hs b. good L b \<and> all_positive b \<and> set hs \<subseteq> set (mnodes (man L)) \<and> set (mnodes (man L)) \<subseteq> set (jwritten b) \<union> set hs"
  have step: "yields other (write_node L h b) (?I hs)" if I: "?I (h # hs) b" for h hs b
  proof -
    have "yields other (if h \<in> set (jwritten b) then ret b else
       seq (writer L h (put_candidate L b h candidate)) (\<lambda>_. seq (save L (b\<lparr>jwritten := jwritten b @ [h]\<rparr>)) (\<lambda>_. ret (b\<lparr>jwritten := jwritten b @ [h]\<rparr>)))) (?I hs)" for candidate
    proof (cases "h \<in> set (jwritten b)")
      case True
      with I show ?thesis by (auto intro!: yields_return)
    next
      case False
      with I have g: "good L (b\<lparr>jwritten := jwritten b @ [h]\<rparr>)" by (intro good_written) auto
      have "?I hs (b\<lparr>jwritten := jwritten b @ [h]\<rparr>)" using I g by auto
      with g have "yields other (seq (save L (b\<lparr>jwritten := jwritten b @ [h]\<rparr>)) (\<lambda>_. ret (b\<lparr>jwritten := jwritten b @ [h]\<rparr>))) (?I hs)"
        by (intro yields_save_ret [OF assms(1)]) (simp_all add: good_def)
      with False show ?thesis by (auto intro!: yields_then yields_writer [OF assms(1)] polite_intros)
    qed
    then show ?thesis unfolding write_node_def Let_def
      by (intro yields_then [OF yields_after_at] yields_bind [where R = "?I hs"] yields_then [OF yields_fence [OF assms(1)]] yields_return)
  qed
  have "?I (mnodes (man L)) b0" using assms(2,3) by auto
  from yields_fold [where I = ?I, OF step this] show ?thesis by (rule yields_weaken) (auto simp: good_def valid_iff)
qed

text \<open>The rest of a run: the nodes are written, the canaries have been seen.\<close>

definition settled :: "lifecycle \<Rightarrow> phase \<Rightarrow> journal \<Rightarrow> bool" where
  "settled L p b \<longleftrightarrow> good L b \<and> jphase b = p \<and> all_positive b \<and> set (jwritten b) = set (mnodes (man L))"

lemma adopt_good:
  assumes "foreign L" "settled L AuthorityWritten b0" "R = set (runtime_hosts L b0)"
  shows "yields other (fold_act (adopt_node L) (sort (runtime_hosts L b0)) b0) (\<lambda>b. settled L AuthorityWritten b \<and> set (jadopted b) = set (runtime_hosts L b))"
proof -
  let ?I = "\<lambda>hs b. settled L AuthorityWritten b \<and> set (runtime_hosts L b) = R \<and> set hs \<subseteq> R \<and> R \<subseteq> set (jadopted b) \<union> set hs"
  have step: "yields other (adopt_node L h b) (?I hs)" if I: "?I (h # hs) b" for h hs b
  proof (cases "h \<in> set (jadopted b)")
    case True
    with I show ?thesis by (auto simp: adopt_node_def intro!: yields_return)
  next
    case False
    let ?b = "b\<lparr>jadopted := jadopted b @ [h]\<rparr>"
    have g: "good L ?b" using I False by (intro good_adopted) (auto simp: settled_def)
    then have "?I hs ?b" using I by (auto simp: settled_def)
    with g have save: "yields other (seq (save L ?b) (\<lambda>_. ret ?b)) (?I hs)" by (intro yields_save_ret [OF assms(1)]) (simp_all add: good_def)
    have pr: "yields other (case map_of (jprofiles b) h of None \<Rightarrow> ret () | Some ps \<Rightarrow> probe L (h, ps)) (\<lambda>_. True)"
      using yields_probe [OF assms(1)] by (auto intro: yields_return split: option.split)
    show ?thesis unfolding adopt_node_def Let_def if_not_P [OF False]
      by (intro yields_then [OF yields_after_at] yields_then [OF yields_calls(1) [OF assms(1)]] yields_then [OF yields_fence [OF assms(1)]]
          yields_then [OF pr] save)
  qed
  have "?I (sort (runtime_hosts L b0)) b0" using assms(2,3) by simp
  from yields_fold [where I = ?I, OF step this] show ?thesis by (rule yields_weaken) (auto simp: settled_def good_def)
qed

definition ids_of :: "string \<times> (string \<times> grant) list \<Rightarrow> string list" where
  "ids_of hg = map (\<lambda>tg. grant_id (fst hg) (fst tg)) (snd hg)"

lemma grant_ids_alt: "grant_ids j = concat (map ids_of (jgrants j))"
  unfolding grant_ids_def by (intro arg_cong [where f = concat] map_cong refl) (auto simp: ids_of_def grant_id_def)

definition publishing :: "lifecycle \<Rightarrow> string set \<Rightarrow> string set \<Rightarrow> journal \<Rightarrow> bool" where
  "publishing L ids left b \<longleftrightarrow> settled L RuntimeAdopted b \<and> set (jadopted b) = set (runtime_hosts L b)
     \<and> set (grant_ids b) = ids \<and> left \<subseteq> ids \<and> ids \<subseteq> set (jpublished b) \<union> left"

lemma confirm_good:
  assumes "foreign L" "length (mpublishers (man L)) \<le> 16"
    and I: "publishing L ids (insert (grant_id h (fst tg)) left) b"
  shows "yields other (confirm_grant L h tg b) (publishing L ids left)"
proof -
  let ?b = "b\<lparr>jpublished := jpublished b @ [grant_id h (fst tg)]\<rparr>"
  have tail: "yields other (if grant_id h (fst tg) \<in> set (jpublished b) then ret b else seq (save L ?b) (\<lambda>_. ret ?b)) (publishing L ids left)"
  proof (cases "grant_id h (fst tg) \<in> set (jpublished b)")
    case True
    with I show ?thesis by (auto simp: publishing_def intro!: yields_return)
  next
    case False
    have g: "good L ?b" using I False assms(2) by (intro good_published) (auto simp: publishing_def settled_def)
    then have "publishing L ids left ?b" using I by (auto simp: publishing_def settled_def)
    with False g show ?thesis by (auto intro!: yields_save_ret [OF assms(1)] simp: good_def)
  qed
  have pub: "yields other (case map_of rs (fst tg) of
         None \<Rightarrow> if deny L then check False ''device-publisher-revocation-unconfirmed'' else publish_grant L h (fst tg) (snd tg)
       | Some r \<Rightarrow>
           if deny L then check (revoked r) ''device-publisher-revocation-unconfirmed''
           else if document_b64 r \<noteq> after_b64 (snd tg) then publish_grant L h (fst tg) (snd tg) else ret ()) (\<lambda>_. True)" for rs
    by (auto intro!: yields_check yields_publish [OF assms(1)] yields_return split: option.split)
  show ?thesis unfolding confirm_grant_def Let_def
    by (intro yields_then [OF yields_fence [OF assms(1)]] yields_then [OF yields_polite] yields_then [OF pub] tail polite_intros)
qed

lemma confirm_all_good:
  assumes "foreign L" "length (mpublishers (man L)) \<le> 16" "settled L RuntimeAdopted b0" "set (jadopted b0) = set (runtime_hosts L b0)"
  shows "yields other (fold_act (confirm_grants L) (jgrants b0) b0)
    (\<lambda>b. settled L RuntimeAdopted b \<and> set (jadopted b) = set (runtime_hosts L b) \<and> set (jpublished b) = set (grant_ids b))"
proof -
  let ?ids = "set (grant_ids b0)"
  let ?I = "\<lambda>hgs. publishing L ?ids (set (concat (map ids_of hgs)))"
  have inner: "yields other (fold_act (confirm_grant L h) gs b) (publishing L ?ids left)" if "publishing L ?ids (set (ids_of (h, gs)) \<union> left) b" for h gs left b
  proof -
    let ?J = "\<lambda>gs. publishing L ?ids (set (ids_of (h, gs)) \<union> left)"
    have "?J (tg # gs) b \<Longrightarrow> yields other (confirm_grant L h tg b) (?J gs)" for tg gs b
      by (rule confirm_good [OF assms(1,2)]) (simp add: ids_of_def)
    from yields_fold [where I = ?J, OF this that] show ?thesis by (simp add: ids_of_def)
  qed
  have step: "yields other (confirm_grants L hg b) (?I hgs)" if "?I (hg # hgs) b" for hg hgs b
    unfolding confirm_grants_def
    by (intro yields_then inner) (use that in \<open>auto simp: only_if_def intro!: yields_return yields_calls [OF assms(1)]\<close>)
  have "?I (jgrants b0) b0" using assms(3,4) by (auto simp: publishing_def grant_ids_alt)
  from yields_fold [where I = ?I, OF step this] show ?thesis by (rule yields_weaken) (auto simp: publishing_def settled_def good_def valid_iff)
qed

lemma set_canary_facts [simp]: "runtime_hosts L (set_canary h c b) = runtime_hosts L b" "grant_ids (set_canary h c b) = grant_ids b"
  by (simp_all add: set_canary_def runtime_hosts_def grant_ids_def cong: if_cong)

definition published_all :: "lifecycle \<Rightarrow> journal \<Rightarrow> bool" where
  "published_all L b \<longleftrightarrow> settled L RuntimeAdopted b \<and> set (jadopted b) = set (runtime_hosts L b) \<and> set (jpublished b) = set (grant_ids b)"

lemma published_all_canary:
  assumes "published_all L b" "(h, c) \<in> set (jcanaries b)" "ctoken c' = ctoken c" "cdocument c' = cdocument c" "positive c' = positive c" "cleaned c \<longrightarrow> cleaned c'"
  shows "published_all L (set_canary h c' b)" and "set (jcanaries (set_canary h c' b)) = insert (h, c') {hc \<in> set (jcanaries b). fst hc \<noteq> h}"
proof -
  have p: "positive c'" and g: "good L b" using assms(1,2,5) by (auto simp: published_all_def settled_def)
  note s = set_canary_good [OF g assms(2-4) disjI1 [OF p] assms(6)]
  show "set (jcanaries (set_canary h c' b)) = insert (h, c') {hc \<in> set (jcanaries b). fst hc \<noteq> h}" by (rule s(2))
  have "all_positive (set_canary h c' b)" unfolding s(2) using assms(1) p by (auto simp: published_all_def settled_def)
  with s(1) assms(1) show "published_all L (set_canary h c' b)" by (simp add: published_all_def settled_def)
qed

lemma clean_good:
  assumes "foreign L" "published_all L b0"
  shows "yields other (fold_act (clean_canary L snaps) (jcanaries b0) b0) (\<lambda>b. published_all L b \<and> (\<forall>hc \<in> set (jcanaries b). cleaned (snd hc)))"
proof -
  let ?I = "\<lambda>hcs b. published_all L b \<and> set hcs \<subseteq> set (jcanaries b) \<and> distinct (map fst hcs) \<and> (\<forall>hc \<in> set (jcanaries b). cleaned (snd hc) \<or> hc \<in> set hcs)"
  have step: "yields other (clean_canary L snaps hc b) (?I hcs)" if I: "?I (hc # hcs) b" for hc hcs b
  proof -
    let ?c1 = "(snd hc)\<lparr>cleanup_started := True\<rparr>"
    let ?b1 = "set_canary (fst hc) ?c1 b"
    let ?b2 = "set_canary (fst hc) (?c1\<lparr>cleaned := True\<rparr>) ?b1"
    have hc: "(fst hc, snd hc) \<in> set (jcanaries b)" using I by auto
    from published_all_canary [OF _ hc, of L ?c1] I
    have b1: "published_all L ?b1" "set (jcanaries ?b1) = insert (fst hc, ?c1) {x \<in> set (jcanaries b). fst x \<noteq> fst hc}" by simp_all
    have "(fst hc, ?c1) \<in> set (jcanaries ?b1)" unfolding b1(2) by simp
    from published_all_canary [OF b1(1) this, of "?c1\<lparr>cleaned := True\<rparr>"]
    have b2: "published_all L ?b2" "set (jcanaries ?b2) = insert (fst hc, ?c1\<lparr>cleaned := True\<rparr>) {x \<in> set (jcanaries b). fst x \<noteq> fst hc}"
      unfolding b1(2) by auto
    have "?I hcs ?b2" unfolding b2(2) using I b2(1) by (auto simp: image_iff)
    moreover have "validate_journal L ?b2 = Inr ()" "validate_journal L ?b1 = Inr ()" using b1(1) b2(1) by (simp_all add: published_all_def settled_def good_def)
    ultimately have save: "yields other (seq (save L ?b2) (\<lambda>_. ret ?b2)) (?I hcs)" "yields other (save L ?b1) (\<lambda>_. True)"
      by (auto intro!: yields_save_ret [OF assms(1)] yields_save [OF assms(1)])
    have "cleaned (snd hc) \<Longrightarrow> ?I hcs b" using I by auto
    then show ?thesis unfolding clean_canary_def Let_def
      by (intro yields_then [OF yields_polite] yields_then [OF yields_calls(1) [OF assms(1)]] yields_then [OF yields_calls(4) [OF assms(1)]]
          yields_then [OF save(2)] yields_then [OF yields_check] yields_if yields_return save(1) polite_intros; simp)
  qed
  have "?I (jcanaries b0) b0" using assms(2) valid_distinct(1) by (auto simp: published_all_def settled_def good_def)
  from yields_fold [where I = ?I, OF step this] show ?thesis by (rule yields_weaken) auto
qed

lemma finish_good:
  assumes "foreign L" "published_all L b"
  shows "yields other (finish L b) (\<lambda>_. True)"
proof -
  have conclude: "yields other (conclude L k) (\<lambda>_. True)" if "published_all L k \<and> (\<forall>hc \<in> set (jcanaries k). cleaned (snd hc))" for k
  proof -
    have "good L (k\<lparr>jphase := Complete\<rparr>)" using that by (intro good_phase) (auto simp: published_all_def settled_def)
    then have "yields other (save L (k\<lparr>jphase := Complete\<rparr>)) (\<lambda>_. True)" by (intro yields_save [OF assms(1)]) (simp add: good_def)
    then show ?thesis unfolding conclude_def
      by (intro yields_then [OF yields_calls(1) [OF assms(1)]] yields_then [OF yields_fence [OF assms(1)]] yields_then yields_if yields_polite yields_return polite_intros) simp_all
  qed
  show ?thesis unfolding finish_def
    by (intro yields_then [OF yields_deliver [OF assms(1)]] yields_then [OF yields_recheck [OF assms(1)]] yields_then [OF yields_fence [OF assms(1)]]
        yields_then [OF yields_polite] yields_bind [OF clean_good [OF assms]] conclude polite_intros)
qed

lemma proceed_good:
  assumes L: "foreign L" and "good L j" "length (mpublishers (man L)) \<le> 16"
  shows "yields other (proceed L j) (\<lambda>_. True)"
proof -
  have authority: "settled L AuthorityWritten (b\<lparr>jphase := AuthorityWritten\<rparr>)"
    if "good L b \<and> all_positive b \<and> set (jwritten b) = set (mnodes (man L))" for b
    using that good_phase [of L b AuthorityWritten] by (simp add: settled_def)
  have runtime: "settled L RuntimeAdopted (b\<lparr>jphase := RuntimeAdopted\<rparr>) \<and> set (jadopted b) = set (runtime_hosts L b)"
    if "settled L AuthorityWritten b \<and> set (jadopted b) = set (runtime_hosts L b)" for b
    using that good_phase [of L b RuntimeAdopted] by (simp add: settled_def)
  show ?thesis unfolding proceed_def Let_def
  proof (intro yields_then [OF yields_calls(1) [OF L]] yields_then [OF yields_fence [OF L]] yields_bind [OF plant_good [OF L assms(2)]])
    fix b1 assume b1: "good L b1 \<and> all_positive b1"
    show "yields other (seq (fold_act (write_node L) (mnodes (man L)) b1) (\<lambda>j. seq (save L (j\<lparr>jphase := AuthorityWritten\<rparr>)) (\<lambda>_.
        seq (fold_act (adopt_node L) (sort (runtime_hosts L (j\<lparr>jphase := AuthorityWritten\<rparr>))) (j\<lparr>jphase := AuthorityWritten\<rparr>)) (\<lambda>j.
        seq (save L (j\<lparr>jphase := RuntimeAdopted\<rparr>)) (\<lambda>_. seq (fold_act (confirm_grants L) (jgrants (j\<lparr>jphase := RuntimeAdopted\<rparr>)) (j\<lparr>jphase := RuntimeAdopted\<rparr>)) (finish L)))))) (\<lambda>_. True)"
    proof (rule yields_bind [OF write_good [OF L]])
      fix b2 assume "good L b2 \<and> all_positive b2 \<and> set (jwritten b2) = set (mnodes (man L))"
      note b2 = authority [OF this]
      show "yields other (seq (save L (b2\<lparr>jphase := AuthorityWritten\<rparr>)) (\<lambda>_.
        seq (fold_act (adopt_node L) (sort (runtime_hosts L (b2\<lparr>jphase := AuthorityWritten\<rparr>))) (b2\<lparr>jphase := AuthorityWritten\<rparr>)) (\<lambda>j.
        seq (save L (j\<lparr>jphase := RuntimeAdopted\<rparr>)) (\<lambda>_. seq (fold_act (confirm_grants L) (jgrants (j\<lparr>jphase := RuntimeAdopted\<rparr>)) (j\<lparr>jphase := RuntimeAdopted\<rparr>)) (finish L))))) (\<lambda>_. True)"
      proof (rule yields_then [OF yields_save [OF L]], use b2 in \<open>simp add: settled_def good_def\<close>, rule yields_bind [OF adopt_good [OF L b2 refl]])
        fix b3 assume "settled L AuthorityWritten b3 \<and> set (jadopted b3) = set (runtime_hosts L b3)"
        note b3 = runtime [OF this]
        then have s: "yields other (save L (b3\<lparr>jphase := RuntimeAdopted\<rparr>)) (\<lambda>_. True)" by (intro yields_save [OF L]) (simp add: settled_def good_def)
        have f: "yields other (fold_act (confirm_grants L) (jgrants (b3\<lparr>jphase := RuntimeAdopted\<rparr>)) (b3\<lparr>jphase := RuntimeAdopted\<rparr>)) (published_all L)"
          by (rule yields_weaken [OF confirm_all_good [OF L assms(3)]]) (use b3 in \<open>auto simp: published_all_def\<close>)
        show "yields other (seq (save L (b3\<lparr>jphase := RuntimeAdopted\<rparr>)) (\<lambda>_.
            seq (fold_act (confirm_grants L) (jgrants (b3\<lparr>jphase := RuntimeAdopted\<rparr>)) (b3\<lparr>jphase := RuntimeAdopted\<rparr>)) (finish L))) (\<lambda>_. True)"
          by (intro yields_then [OF s] yields_bind [OF f] finish_good [OF L])
      qed
    qed (use b1 in auto)
  qed
qed

text \<open>
  C23: An operation never stops on its own journal. Started from any journal that is read and whose adopted nodes are among those to
  adopt, and whatever the fleet answers, a run that fails does not fail because a journal it is about to save has a wrong
  shape, a changed intent or incomplete evidence.
\<close>

theorem run_never_wedges:
  assumes "foreign L" "length (mpublishers (man L)) \<le> 16" "validate_journal L j = Inr ()" "set (jadopted j) \<subseteq> set (runtime_hosts L j)"
    and "outcome (proceed L j) t = Inl e"
  shows "e \<notin> {DeviceError ''invalid-device-operation-journal'', DeviceError ''device-revocation-intent-changed'', DeviceError ''incomplete-device-operation-evidence''}"
  using yieldsD [OF proceed_good [OF assms(1) _ assms(2)] assms(5)] assms(3,4) by (auto simp: good_def other_def REFUSALS_def)

end
