(* ===== verification/DevicePrepare.thy ===== *)
theory DevicePrepare
  imports DeviceEvidence "HOL-Library.Sublist"
begin

text \<open>
  The beginning of a device operation, from \<^verbatim>\<open>scripts/device_lifecycle.py\<close>: the inspection of the fleet
  that an operator reviews (\<open>inspect\<close>), and the preparation of a revocation, which turns exactly what was reviewed into the
  journal that a run carries out (\<open>prepare_revocation\<close>). The profiles with which the credentials of a device are probed come from
  \<^verbatim>\<open>scripts/device_lifecycle_probe.py\<close>; their rendering is an argument here.
\<close>

section \<open>Base64\<close>

definition b64_char :: "nat \<Rightarrow> char" where
  "b64_char n = (if n < 26 then char_of (n + 65) else if n < 52 then char_of (n + 71) else if n < 62 then char_of (n - 4)
     else if n = 62 then CHR ''+'' else CHR ''/'')"

fun b64 :: "string \<Rightarrow> string" where
  "b64 [] = []"
| "b64 [a] = [b64_char (ord_of a div 4), b64_char (ord_of a mod 4 * 16), CHR ''='', CHR ''='']"
| "b64 [a, b] = [b64_char (ord_of a div 4), b64_char (ord_of a mod 4 * 16 + ord_of b div 16), b64_char (ord_of b mod 16 * 4), CHR ''='']"
| "b64 (a # b # c # rest) = b64_char (ord_of a div 4) # b64_char (ord_of a mod 4 * 16 + ord_of b div 16)
     # b64_char (ord_of b mod 16 * 4 + ord_of c div 64) # b64_char (ord_of c mod 64) # b64 rest"

section \<open>Inspection\<close>

text \<open>The rows of a publisher that belong to the device.\<close>

definition device_rows :: "'a setting_scheme \<Rightarrow> snapshot \<Rightarrow> device_error + (string \<times> row) list" where
  "device_rows L s = bind_res (map_res (\<lambda>tr. bind_res (client_of (document_b64 (snd tr))) (\<lambda>c. Inr (tr, c))) (rows s)) (\<lambda>cs.
     Inr (map fst (filter (\<lambda>tc. snd tc = mdevice (man L)) cs)))"

definition nothing :: "('k \<times> 'v list) list \<Rightarrow> bool" where
  "nothing d \<longleftrightarrow> list_all (\<lambda>kv. snd kv = []) d"

definition ACTIVE :: "pv list" where
  "ACTIVE = [PStr ''issued'', PStr ''delivered'', PStr ''active'', PStr ''stale'']"

definition delivery_host :: "'a setting_scheme \<Rightarrow> (string \<times> document) list \<Rightarrow> string \<Rightarrow> device_error + unit" where
  "delivery_host L docs h = (case map_of docs h of
     None \<Rightarrow> Inl (Exc KeyError)
   | Some d \<Rightarrow> bind_res (get_or (PDict (own d)) ''client_registry'' (PDict [])) (\<lambda>registry.
       bind_res (get_or registry (mdevice (man L)) PNone) (\<lambda>entry.
       if maction (man L) \<noteq> Refresh then Inr ()
       else (let message = DeviceError ''refresh-requires-active-device-authority-on-every-delivery-host'' in case entry of
           PDict e \<Rightarrow> if \<not> hashable (item e ''status'') then Inl (Exc TypeError) else refuse_if (item e ''status'' \<notin> set ACTIVE) message
         | _ \<Rightarrow> Inl message))))"

definition finished_record :: "stored \<Rightarrow> device_error + unit" where
  "finished_record r = (let message = DeviceError ''resume-existing-device-operation-first'' in case r of
     Shaped j \<Rightarrow> refuse_if (jphase j \<noteq> Complete) message
   | Misshapen (PDict d) \<Rightarrow> refuse_if (item d ''phase'' \<noteq> PStr ''complete'') message
   | Misshapen _ \<Rightarrow> Inl (Exc AttributeError))"

definition records :: "document \<Rightarrow> stored list" where
  "records d = (case operations d of None \<Rightarrow> [] | Some ops \<Rightarrow> map snd ops)"

text \<open>The refusals of an inspection, in the order of the source.\<close>

definition admissible :: "'a setting_scheme \<Rightarrow> (string \<times> document) list \<Rightarrow> (string \<times> snapshot) list
    \<Rightarrow> (string \<times> (string \<times> nat) list) list \<Rightarrow> (string \<times> (string \<times> row) list) list \<Rightarrow> device_error + unit" where
  "admissible L docs snaps found grants = (let m = man L; action = maction m in
     if action \<noteq> Issue \<and> nothing found \<and> \<not> (action = Revoke \<and> \<not> nothing grants) then Inl (DeviceError ''device-not-found-in-fleet'')
     else if list_ex (\<lambda>hs. bootstrap (snd hs) \<noteq> 0) snaps then Inl (DeviceError ''drain-active-bootstrap-grants-before-device-operation'')
     else if action = Refresh \<and> \<not> native m \<and> \<not> list_ex (\<lambda>hr. list_ex (\<lambda>tr. \<not> revoked (snd tr) \<and> \<not> expired (snd tr)) (snd hr)) grants
     then Inl (DeviceError ''device-has-no-active-grant-to-refresh'')
     else if (action = Issue \<or> native m) \<and> \<not> nothing grants then Inl (DeviceError ''device-has-existing-published-grants'')
     else bind_res (if action = Revoke then Inr () else if mformat m = None then Inl (Exc TypeError) else each (delivery_host L docs) (mhosts m)) (\<lambda>_.
       each (\<lambda>node. each finished_record (records (snd node))) docs))"

definition survey :: "'a setting_scheme \<Rightarrow> (string \<times> document) list \<Rightarrow> (string \<times> snapshot) list
    \<Rightarrow> device_error + (string \<times> (string \<times> nat) list) list \<times> (string \<times> (string \<times> row) list) list" where
  "survey L docs snaps =
     bind_res (map_res (\<lambda>node. bind_res (discover (own (snd node)) (mdevice (man L))) (\<lambda>kinds. Inr (fst node, kinds))) docs) (\<lambda>found.
     if maction (man L) = Issue \<and> \<not> nothing found then Inl (DeviceError ''device-already-exists-in-fleet'')
     else bind_res (map_res (\<lambda>hs. bind_res (device_rows L (snd hs)) (\<lambda>rs. Inr (fst hs, rs))) snaps) (\<lambda>grants.
       bind_res (admissible L docs snaps found grants) (\<lambda>_. Inr (found, grants))))"

text \<open>What the operator approves is a digest of everything that was read.\<close>

definition row_value :: "'a setting_scheme \<Rightarrow> string \<times> row \<Rightarrow> pv" where
  "row_value L tr = PDict [(''token_hash'', PStr (fst tr)),
     (''document_sha256'', PStr (sha L (case un64_text (document_b64 (snd tr)) of None \<Rightarrow> [] | Some raw \<Rightarrow> raw))),
     (''document_b64'', PStr (document_b64 (snd tr))), (''revoked'', PBool (revoked (snd tr))), (''expired'', PBool (expired (snd tr)))]"

definition snapshot_value :: "'a setting_scheme \<Rightarrow> snapshot \<Rightarrow> pv" where
  "snapshot_value L s = PDict [(''rows'', PDict (map (\<lambda>tr. (fst tr, row_value L tr)) (rows s))), (''bootstrap'', PInt (bootstrap s))]"

definition approval_of :: "'a setting_scheme \<Rightarrow> source \<Rightarrow> (string \<times> document) list \<Rightarrow> (string \<times> snapshot) list \<Rightarrow> string" where
  "approval_of L s docs snaps = sha L (encoded (PDict
     [(''manifest'', mvalue (man L)),
      (''documents'', object_of (\<lambda>d. PStr (fingerprint L (own d))) docs),
      (''snapshots'', object_of (snapshot_value L) snaps),
      (''source'', PDict [(''DEPLOY_SOURCE_REVISION'', PStr (fst s)), (''DEPLOYABLE_SOURCE_DIGEST'', PStr (snd s))])]))"

record review =
  roperation_id :: string
  raction :: action
  rdevice :: string
  rsource :: source
  rnodes :: "(string \<times> string list) list"
  rgrants :: "(string \<times> nat) list"
  approval :: string

definition review_of :: "'a setting_scheme \<Rightarrow> source \<Rightarrow> (string \<times> document) list \<Rightarrow> (string \<times> snapshot) list
    \<Rightarrow> (string \<times> (string \<times> nat) list) list \<Rightarrow> (string \<times> (string \<times> row) list) list \<Rightarrow> review" where
  "review_of L s docs snaps found grants = \<lparr>roperation_id = mid (man L), raction = maction (man L), rdevice = mdevice (man L), rsource = s,
     rnodes = map (\<lambda>hf. (fst hf, sort (map fst (snd hf)))) found, rgrants = map (\<lambda>hr. (fst hr, length (snd hr))) grants,
     approval = approval_of L s docs snaps\<rparr>"

definition inspect :: "lifecycle \<Rightarrow> ((string \<times> document) list \<times> (string \<times> snapshot) list \<times> (string \<times> (string \<times> row) list) list \<times> review) act" where
  "inspect L = seq (call L Scope) (\<lambda>_. seq (source_identity L) (\<lambda>s.
     seq (only_if (maction (man L) = Issue \<or> native (man L))
       (seq (lift (refuse_if (mformat (man L) = None) (Exc TypeError))) (\<lambda>_. call L (Admit (moutput (man L)))))) (\<lambda>_.
     seq (documents L) (\<lambda>docs. seq (snapshots L) (\<lambda>snaps.
     seq (lift (survey L docs snaps)) (\<lambda>(found, grants).
     ret (docs, snaps, grants, review_of L s docs snaps found grants)))))))"

section \<open>Preparing a revocation\<close>

text \<open>
  \<open>token in v\<close> for a JSON value, and \<open>doc.setdefault('subscription', {}).setdefault('revoked_tokens', [])\<close> with the token appended, always
  or only where it is missing.
\<close>

definition contains :: "pv \<Rightarrow> string \<Rightarrow> device_error + bool" where
  "contains v token = (case v of
     PList xs \<Rightarrow> Inr (PStr token \<in> set xs)
   | PDict d \<Rightarrow> Inr (has_key d token)
   | PStr s \<Rightarrow> Inr (sublist token s)
   | _ \<Rightarrow> Inl (Exc TypeError))"

definition revoked_tokens :: "dict \<Rightarrow> device_error + pv" where
  "revoked_tokens doc = bind_res (get_or (PDict doc) ''subscription'' (PDict [])) (\<lambda>s. get_or s ''revoked_tokens'' (PList []))"

definition put_tokens :: "pv \<Rightarrow> dict \<Rightarrow> dict" where
  "put_tokens v doc = AList.update ''subscription'' (PDict (AList.update ''revoked_tokens'' v (dict_of
     (case map_of doc ''subscription'' of None \<Rightarrow> PDict [] | Some s \<Rightarrow> s)))) doc"

definition append_token :: "string \<Rightarrow> dict \<Rightarrow> device_error + dict" where
  "append_token token doc = bind_res (revoked_tokens doc) (\<lambda>v. case v of
     PList xs \<Rightarrow> Inr (put_tokens (PList (xs @ [PStr token])) doc) | _ \<Rightarrow> Inl (Exc AttributeError))"

definition deny_token :: "string \<Rightarrow> dict \<Rightarrow> device_error + dict" where
  "deny_token token doc = bind_res (revoked_tokens doc) (\<lambda>v. bind_res (contains v token) (\<lambda>there.
     if there then Inr (put_tokens v doc) else append_token token doc))"

definition edit_host :: "string \<Rightarrow> (dict \<Rightarrow> device_error + dict) \<Rightarrow> (string \<times> dict) list \<Rightarrow> device_error + (string \<times> dict) list" where
  "edit_host h f left = (case map_of left h of
     None \<Rightarrow> Inl (Exc KeyError) | Some d \<Rightarrow> bind_res (f d) (\<lambda>d'. Inr (AList.update h d' left)))"

text \<open>The loops of \<open>prepare\<close>, for a revocation.\<close>

definition profiles_at :: "lifecycle \<Rightarrow> (document \<Rightarrow> string \<Rightarrow> string \<Rightarrow> device_error + dict list) \<Rightarrow> string \<times> document
    \<Rightarrow> (string \<times> dict list) list \<Rightarrow> (string \<times> dict list) list act" where
  "profiles_at L render node profiles = seq (lift (discover (own (snd node)) (mdevice (man L)))) (\<lambda>found.
     if list_all (\<lambda>k. fst k = ''registry'') found then ret profiles
     else seq (ask_text L (Endpoint (fst node))) (\<lambda>endpoint. seq (lift (render (snd node) (fst node) endpoint)) (\<lambda>ps.
       ret (AList.update (fst node) ps profiles))))"

type_synonym intents = "(string \<times> dict) list \<times> (string \<times> (string \<times> grant) list) list"

definition revoke_grant :: "string \<Rightarrow> string \<times> row \<Rightarrow> intents \<Rightarrow> intents act" where
  "revoke_grant h tr st = seq (lift (un64 (document_b64 (snd tr)))) (\<lambda>original.
     seq (lift (edit_host h (deny_token (fst tr)) (fst st))) (\<lambda>left.
     ret (left, AList.update h (AList.update (fst tr) \<lparr>before_b64 = Some (document_b64 (snd tr)), after_b64 = b64 original\<rparr>
       (case map_of (snd st) h of None \<Rightarrow> [] | Some gs \<Rightarrow> gs)) (snd st))))"

definition revoke_grants :: "string \<times> (string \<times> row) list \<Rightarrow> intents \<Rightarrow> intents act" where
  "revoke_grants hr st = fold_act (revoke_grant (fst hr)) (snd hr) (fst st, AList.update (fst hr) [] (snd st))"

definition canary_text :: "string \<Rightarrow> string" where
  "canary_text nonce = encoded (PDict [(''schema_version'', PInt 1), (''client'', PStr ''device-revocation-check''), (''expires'', PStr []),
     (''payload_b64'', PStr (b64 (encoded (PDict [(''device_revocation_nonce'', PStr nonce)]))))])"

definition new_canary :: "lifecycle \<Rightarrow> string \<Rightarrow> (string \<times> dict) list \<times> (string \<times> canary) list \<Rightarrow> ((string \<times> dict) list \<times> (string \<times> canary) list) act" where
  "new_canary L h st = seq (ask_text L (TokenUrlsafe 32)) (\<lambda>token. seq (ask_text L (TokenHex 32)) (\<lambda>nonce.
     seq (lift (edit_host h (append_token (sha L token)) (fst st))) (\<lambda>left.
     ret (left, AList.update h \<lparr>ctoken = token, cdocument = b64 (canary_text nonce), positive = False, cleanup_started = False, cleaned = False\<rparr> (snd st)))))"

definition prepared_journal :: "'a setting_scheme \<Rightarrow> source \<Rightarrow> (string \<times> document) list \<Rightarrow> (string \<times> dict) list \<Rightarrow> (string \<times> dict list) list
    \<Rightarrow> (string \<times> (string \<times> grant) list) list \<Rightarrow> (string \<times> canary) list \<Rightarrow> journal" where
  "prepared_journal L s docs left profiles grants canaries =
     (let j = \<lparr>jmanifest = digest L, jphase = Prepared, jaction = maction (man L), jdevice = mdevice (man L), jsource = s,
        jbefore = map (\<lambda>node. (fst node, fingerprint L (own (snd node)))) docs, jafter = left, jprofiles = profiles, jgrants = grants,
        jwritten = [], jadopted = [], jpublished = [], jartifact = None, jcanaries = canaries, jrevocation = None\<rparr>
      in j\<lparr>jrevocation := Some (revocation_intent (sha L) j (mid (man L)))\<rparr>)"

text \<open>\<open>prepare\<close> for a manifest whose action is a revocation; such a manifest has no delivery.\<close>

definition prepare_revocation :: "lifecycle \<Rightarrow> (document \<Rightarrow> string \<Rightarrow> string \<Rightarrow> device_error + dict list) \<Rightarrow> string \<Rightarrow> pv act" where
  "prepare_revocation L render approved = seq (inspect L) (\<lambda>(docs, _, grants, review).
     seq (check (approved = approval review) ''exact-device-operation-approval-required'') (\<lambda>_.
     seq (lift (revoke (map (\<lambda>node. (fst node, own (snd node))) docs) (mdevice (man L)))) (\<lambda>left.
     seq (fold_act (profiles_at L render) docs []) (\<lambda>profiles.
     seq (fold_act revoke_grants grants (left, [])) (\<lambda>(left, intents).
     seq (fold_act (new_canary L) (mpublishers (man L)) (left, [])) (\<lambda>(left, canaries).
     seq (save L (prepared_journal L (rsource review) docs left profiles intents canaries)) (\<lambda>_.
     status L)))))))"

section \<open>What the operator's decision is turned into\<close>

lemma b64_digit_char: "n < 64 \<Longrightarrow> b64_digit (b64_char n) = Some n"
  by (auto simp: b64_digit_def b64_char_def text_defs Let_def)

lemma b64_digit_pad: "b64_digit (CHR ''='') = None"
  by (simp add: b64_digit_def text_defs)

lemma ord_of_div: "ord_of c div 4 < 64" "ord_of c div 16 < 16" "ord_of c div 64 < 4"
  by (rule less_mult_imp_div_less, simp)+

lemma sextets:
  "k < 16 \<Longrightarrow> (a mod 4 * 16 + k) div 16 = a mod 4" "k < 16 \<Longrightarrow> (a mod 4 * 16 + k) mod 16 = k" "k < 16 \<Longrightarrow> a mod 4 * 16 + k < 64"
  "k < 4 \<Longrightarrow> (a mod 16 * 4 + k) div 4 = a mod 16" "k < 4 \<Longrightarrow> (a mod 16 * 4 + k) mod 4 = k" "k < 4 \<Longrightarrow> a mod 16 * 4 + k < 64"
  "a mod 64 < 64" for a k :: nat
proof -
  have "a mod 4 < 4" "a mod 16 < 16" by simp_all
  then show "k < 16 \<Longrightarrow> a mod 4 * 16 + k < 64" "k < 4 \<Longrightarrow> a mod 16 * 4 + k < 64" by linarith+
qed simp_all

lemma un64_text_b64: "un64_text (b64 s) = Some s"
proof (induction s rule: b64.induct)
  case (2 a)
  have y: "ord_of a mod 4 * 16 div 16 = ord_of a mod 4" "ord_of a mod 4 * 16 < 64" using sextets(3) [of 0 "ord_of a"] by simp_all
  show ?case unfolding b64.simps un64_text.simps b64_digit_char [OF ord_of_div(1)] b64_digit_char [OF y(2)] b64_digit_pad by (simp add: y)
next
  case (3 a b)
  note y = sextets(1-3) [of "ord_of b div 16" "ord_of a", OF ord_of_div(2)]
  have z: "ord_of b mod 16 * 4 div 4 = ord_of b mod 16" "ord_of b mod 16 * 4 < 64" using sextets(6) [of 0 "ord_of b"] by simp_all
  show ?case unfolding b64.simps un64_text.simps b64_digit_char [OF ord_of_div(1)] b64_digit_char [OF y(3)] b64_digit_char [OF z(2)] b64_digit_pad
    by (simp add: y z ord_of_div)
next
  case (4 a b c rest)
  note y = sextets(1-3) [of "ord_of b div 16" "ord_of a", OF ord_of_div(2)] and z = sextets(4-6) [of "ord_of c div 64" "ord_of b", OF ord_of_div(3)]
  show ?case unfolding b64.simps un64_text.simps b64_digit_char [OF ord_of_div(1)] b64_digit_char [OF y(3)] b64_digit_char [OF z(3)]
      b64_digit_char [OF sextets(7)] by (simp add: y z ord_of_div 4)
qed simp

lemma un64_b64 [simp]: "un64 (b64 s) = Inr s"
  by (simp add: un64_def un64_text_b64)

text \<open>A document in which tokens have only been added to the revoked ones.\<close>

definition grows :: "dict \<Rightarrow> dict \<Rightarrow> bool" where
  "grows c c' \<longleftrightarrow> (\<forall>key. key \<noteq> ''subscription'' \<longrightarrow> map_of c' key = map_of c key)
     \<and> (\<forall>v. revoked_tokens c = Inr v \<longrightarrow> (\<exists>v'. revoked_tokens c' = Inr v'
          \<and> (\<forall>token. contains v token = Inr True \<longrightarrow> contains v' token = Inr True) \<and> (is_list v \<longrightarrow> is_list v')))"

lemma grows_refl [simp]: "grows c c"
  by (simp add: grows_def)

lemma grows_trans: "grows c c' \<Longrightarrow> grows c' c'' \<Longrightarrow> grows c c''"
  unfolding grows_def by metis

lemma revoked_tokens_put: "revoked_tokens doc = Inr w \<Longrightarrow> revoked_tokens (put_tokens v doc) = Inr v"
  by (auto simp: revoked_tokens_def put_tokens_def bind_res_Inr get_or_def pv_tests split: option.split_asm)

lemma put_tokens_other: "key \<noteq> ''subscription'' \<Longrightarrow> map_of (put_tokens v doc) key = map_of doc key"
  by (simp add: put_tokens_def)

lemma append_token_Inr:
  assumes "append_token token doc = Inr doc'"
  shows "grows doc doc'" "\<exists>xs. revoked_tokens doc' = Inr (PList xs) \<and> PStr token \<in> set xs"
proof -
  from assms obtain v where "revoked_tokens doc = Inr v"
    "(case v of PList xs \<Rightarrow> Inr (put_tokens (PList (xs @ [PStr token])) doc) | _ \<Rightarrow> Inl (Exc AttributeError)) = Inr doc'"
    by (auto simp: append_token_def bind_res_Inr)
  then obtain xs where xs: "revoked_tokens doc = Inr (PList xs)" "doc' = put_tokens (PList (xs @ [PStr token])) doc" by (cases v) auto
  from revoked_tokens_put [OF xs(1)] show "grows doc doc'" by (auto simp: xs grows_def put_tokens_other contains_def pv_tests)
  from revoked_tokens_put [OF xs(1)] show "\<exists>xs. revoked_tokens doc' = Inr (PList xs) \<and> PStr token \<in> set xs" by (simp add: xs(2))
qed

lemma deny_token_Inr:
  assumes "deny_token token doc = Inr doc'"
  shows "grows doc doc'" "\<exists>v. revoked_tokens doc' = Inr v \<and> contains v token = Inr True"
proof -
  from assms obtain v there where v: "revoked_tokens doc = Inr v" "contains v token = Inr there"
    "(if there then Inr (put_tokens v doc) else append_token token doc) = Inr doc'" by (auto simp: deny_token_def bind_res_Inr)
  have "grows doc doc' \<and> (\<exists>v. revoked_tokens doc' = Inr v \<and> contains v token = Inr True)"
  proof (cases there)
    case True
    with v revoked_tokens_put [OF v(1)] show ?thesis by (auto simp: grows_def put_tokens_other)
  next
    case False
    with v(3) append_token_Inr show ?thesis by (fastforce simp: contains_def)
  qed
  then show "grows doc doc'" "\<exists>v. revoked_tokens doc' = Inr v \<and> contains v token = Inr True" by simp_all
qed

definition grown :: "(string \<times> dict) list \<Rightarrow> (string \<times> dict) list \<Rightarrow> bool" where
  "grown A B \<longleftrightarrow> (\<forall>h. rel_option grows (map_of A h) (map_of B h))"

lemma grown_refl [simp]: "grown A A"
  by (simp add: grown_def option.rel_refl)

lemma grown_trans: "grown A B \<Longrightarrow> grown B C \<Longrightarrow> grown A C"
  unfolding grown_def by (metis (no_types, lifting) grows_trans option.rel_sel)

lemma edit_host_Inr:
  assumes "edit_host h f A = Inr B" "\<And>d d'. f d = Inr d' \<Longrightarrow> grows d d'"
  shows "grown A B" "\<exists>d d'. f d = Inr d' \<and> map_of B h = Some d'"
  using assms by (auto simp: edit_host_def bind_res_Inr grown_def option.rel_refl split: option.split_asm)

definition denied :: "(string \<times> dict) list \<Rightarrow> string \<Rightarrow> string \<Rightarrow> bool" where
  "denied A h token \<longleftrightarrow> (\<exists>c v. map_of A h = Some c \<and> revoked_tokens c = Inr v \<and> contains v token = Inr True)"

definition listed :: "(string \<times> dict) list \<Rightarrow> string \<Rightarrow> bool" where
  "listed A h \<longleftrightarrow> (\<exists>c v. map_of A h = Some c \<and> revoked_tokens c = Inr v \<and> is_list v)"

lemma grownD:
  assumes "grown A B" "map_of A h = Some c"
  obtains c' where "map_of B h = Some c'" "grows c c'"
  using assms unfolding grown_def by (metis option_rel_Some1)

lemma denied_grown: "denied A h token \<Longrightarrow> grown A B \<Longrightarrow> denied B h token"
  unfolding denied_def by (metis grownD grows_def)

lemma listed_grown: "listed A h \<Longrightarrow> grown A B \<Longrightarrow> listed B h"
  unfolding listed_def by (metis grownD grows_def)

text \<open>Every row of the device is in the journal with the document it has, and its token is revoked.\<close>

definition granted :: "(string \<times> (string \<times> grant) list) list \<Rightarrow> string \<Rightarrow> string \<times> row \<Rightarrow> bool" where
  "granted gs h tr \<longleftrightarrow> (\<exists>us raw. map_of gs h = Some us \<and> un64 (document_b64 (snd tr)) = Inr raw
     \<and> map_of us (fst tr) = Some \<lparr>before_b64 = Some (document_b64 (snd tr)), after_b64 = b64 raw\<rparr>)"

lemma granted_other: "map_of gs' h = map_of gs h \<Longrightarrow> granted gs' h tr = granted gs h tr"
  by (simp add: granted_def)

lemma safe_revoke_grant:
  "safe P (revoke_grant h tr st) (\<lambda>st' t. P t \<and> grown (fst st) (fst st') \<and> denied (fst st') h (fst tr) \<and> granted (snd st') h tr
     \<and> (\<forall>h'. h' \<noteq> h \<longrightarrow> map_of (snd st') h' = map_of (snd st) h') \<and> (\<forall>tr'. fst tr' \<noteq> fst tr \<longrightarrow> granted (snd st) h tr' \<longrightarrow> granted (snd st') h tr')) C"
  (is "safe P _ ?Q C")
proof -
  have "?Q (B, AList.update h (AList.update (fst tr) \<lparr>before_b64 = Some (document_b64 (snd tr)), after_b64 = b64 raw\<rparr>
      (case map_of (snd st) h of None \<Rightarrow> [] | Some gs \<Rightarrow> gs)) (snd st)) t"
    if "P t" "un64 (document_b64 (snd tr)) = Inr raw" "edit_host h (deny_token (fst tr)) (fst st) = Inr B" for B raw t
    using that edit_host_Inr [OF that(3) deny_token_Inr(1)] deny_token_Inr(2) by (fastforce simp: denied_def granted_def)
  then show ?thesis unfolding revoke_grant_def
    by (intro safe_seq [where R = "\<lambda>raw t. P t \<and> un64 (document_b64 (snd tr)) = Inr raw"]
        safe_seq [where R = "\<lambda>B t. P t \<and> un64 (document_b64 (snd tr)) = Inr raw \<and> edit_host h (deny_token (fst tr)) (fst st) = Inr B" for raw]
        safe_lift safe_ret) auto
qed

lemma safe_revoke_rows:
  assumes "distinct (map fst rs)"
  shows "safe P (fold_act (revoke_grant h) rs st) (\<lambda>st' t. P t \<and> grown (fst st) (fst st') \<and> (\<forall>tr \<in> set rs. denied (fst st') h (fst tr) \<and> granted (snd st') h tr)
     \<and> (\<forall>h'. h' \<noteq> h \<longrightarrow> map_of (snd st') h' = map_of (snd st) h')) C"
proof -
  let ?I = "\<lambda>xs st' t. P t \<and> set xs \<subseteq> set rs \<and> distinct xs \<and> grown (fst st) (fst st') \<and> (\<forall>tr \<in> set rs - set xs. denied (fst st') h (fst tr) \<and> granted (snd st') h tr)
     \<and> (\<forall>h'. h' \<noteq> h \<longrightarrow> map_of (snd st') h' = map_of (snd st) h')"
  have other: "fst tr' \<noteq> fst tr" if "tr \<in> set rs" "tr' \<in> set rs" "tr' \<noteq> tr" for tr tr'
    using assms that by (auto simp: distinct_map inj_on_def)
  have "safe (?I (x # xs) b) (revoke_grant h x b) (?I xs) C" for x xs b
  proof (rule safe_weaken [OF safe_revoke_grant [where P = "?I (x # xs) b"]], assumption, elim conjE, intro conjI ballI)
    fix b' tr
    assume x: "set (x # xs) \<subseteq> set rs" "\<forall>tr \<in> set rs - set (x # xs). denied (fst b) h (fst tr) \<and> granted (snd b) h tr"
      and b': "grown (fst b) (fst b')" "denied (fst b') h (fst x)" "granted (snd b') h x"
        "\<forall>tr'. fst tr' \<noteq> fst x \<longrightarrow> granted (snd b) h tr' \<longrightarrow> granted (snd b') h tr'" and tr: "tr \<in> set rs - set xs"
    have "denied (fst b') h (fst tr) \<and> granted (snd b') h tr"
    proof (cases "tr = x")
      case False
      with x tr have "denied (fst b) h (fst tr) \<and> granted (snd b) h tr" by simp
      moreover have "fst tr \<noteq> fst x" using x(1) tr False by (intro other) simp_all
      ultimately show ?thesis using b'(4) denied_grown [OF _ b'(1)] by blast
    qed (use b' in simp)
    then show "denied (fst b') h (fst tr)" "granted (snd b') h tr" by simp_all
  qed (auto intro: grown_trans)
  from safe_fold_act [of ?I, OF this] have "safe (?I rs st) (fold_act (revoke_grant h) rs st) (?I []) C" .
  then show ?thesis by (rule safe_weaken) (use assms in \<open>auto simp: distinct_map\<close>)
qed

lemma safe_revoke_all:
  assumes "distinct (map fst grants)" "\<forall>hr \<in> set grants. distinct (map fst (snd hr))"
  shows "safe P (fold_act revoke_grants grants st) (\<lambda>st' t. P t \<and> grown (fst st) (fst st')
     \<and> (\<forall>hr \<in> set grants. \<forall>tr \<in> set (snd hr). denied (fst st') (fst hr) (fst tr) \<and> granted (snd st') (fst hr) tr)) C"
proof -
  let ?I = "\<lambda>xs st' t. P t \<and> set xs \<subseteq> set grants \<and> distinct xs \<and> grown (fst st) (fst st')
     \<and> (\<forall>hr \<in> set grants - set xs. \<forall>tr \<in> set (snd hr). denied (fst st') (fst hr) (fst tr) \<and> granted (snd st') (fst hr) tr)"
  have other: "fst x' \<noteq> fst x" if "x \<in> set grants" "x' \<in> set grants" "x' \<noteq> x" for x x' :: "string \<times> (string \<times> row) list"
    using assms(1) that by (auto simp: distinct_map inj_on_def)
  have step: "safe (?I (x # xs) b) (revoke_grants x b) (?I xs) C" for x xs b
  proof (cases "x \<in> set grants")
    case True
    with assms(2) have d: "distinct (map fst (snd x))" by simp
    show ?thesis unfolding revoke_grants_def
    proof (rule safe_weaken [OF safe_revoke_rows [OF d, where P = "?I (x # xs) b"]], assumption, elim conjE, intro conjI ballI)
      fix b' y tr
      assume b: "\<forall>y \<in> set grants - set (x # xs). \<forall>tr \<in> set (snd y). denied (fst b) (fst y) (fst tr) \<and> granted (snd b) (fst y) tr"
        and g: "grown (fst (fst b, AList.update (fst x) [] (snd b))) (fst b')" and n: "\<forall>tr \<in> set (snd x). denied (fst b') (fst x) (fst tr) \<and> granted (snd b') (fst x) tr"
        and o: "\<forall>h'. h' \<noteq> fst x \<longrightarrow> map_of (snd b') h' = map_of (snd (fst b, AList.update (fst x) [] (snd b))) h'"
        and y: "y \<in> set grants - set xs" "tr \<in> set (snd y)"
      have "denied (fst b') (fst y) (fst tr) \<and> granted (snd b') (fst y) tr"
      proof (cases "y = x")
        case False
        with y other [OF True, of y] have "fst y \<noteq> fst x" "denied (fst b) (fst y) (fst tr) \<and> granted (snd b) (fst y) tr" using b by simp_all
        with o g denied_grown [of "fst b" "fst y" "fst tr" "fst b'"] granted_other [of "snd b'" "fst y" "snd b" tr] show ?thesis by simp
      qed (use n y in simp)
      then show "denied (fst b') (fst y) (fst tr)" "granted (snd b') (fst y) tr" by simp_all
    qed (auto intro: grown_trans)
  qed (simp add: safe_def)
  from safe_fold_act [of ?I, OF step] have "safe (?I grants st) (fold_act revoke_grants grants st) (?I []) C" .
  then show ?thesis by (rule safe_weaken) (use assms(1) in \<open>auto simp: distinct_map\<close>)
qed

text \<open>Preparation after the inspection reads no document and no snapshot.\<close>

definition still :: "request \<Rightarrow> bool" where
  "still r \<longleftrightarrow> (\<forall>h. r \<noteq> Read h \<and> r \<noteq> Snapshot h)"

lemma safe_text:
  assumes "kept still P" "still r" "\<not> is_commit r"
  shows "safe P (ask_text L r) (\<lambda>_. P) (guarded G)"
  unfolding ask_text_def by (rule safe_ask) (use assms in \<open>auto intro: keptD\<close>)

text \<open>A canary of the journal is a fresh document, not yet shown, whose token is revoked from the start.\<close>

definition planned :: "'a setting_scheme \<Rightarrow> (string \<times> dict) list \<Rightarrow> string \<Rightarrow> canary \<Rightarrow> bool" where
  "planned L A h c \<longleftrightarrow> denied A h (sha L (ctoken c)) \<and> listed A h \<and> \<not> positive c \<and> (\<exists>nonce. cdocument c = b64 (canary_text nonce))"

lemma planned_grown: "planned L A h c \<Longrightarrow> grown A B \<Longrightarrow> planned L B h c"
  using denied_grown listed_grown by (auto simp: planned_def)

lemma append_token_planned:
  assumes "edit_host h (append_token (sha L token)) A = Inr B"
  shows "grown A B" "planned L B h \<lparr>ctoken = token, cdocument = b64 (canary_text nonce), positive = False, cleanup_started = False, cleaned = False\<rparr>"
proof -
  have g: "grows d d'" if "append_token (sha L token) d = Inr d'" for d d' using that by (rule append_token_Inr(1))
  note e = edit_host_Inr [OF assms g]
  show "grown A B" by (rule e(1))
  from e(2) append_token_Inr(2) obtain d' xs where "map_of B h = Some d'" "revoked_tokens d' = Inr (PList xs)" "PStr (sha L token) \<in> set xs" by blast
  then show "planned L B h \<lparr>ctoken = token, cdocument = b64 (canary_text nonce), positive = False, cleanup_started = False, cleaned = False\<rparr>"
    by (auto simp: planned_def denied_def listed_def contains_def pv_tests)
qed

lemma safe_new_canary:
  assumes "kept still P"
  shows "safe P (new_canary L h st) (\<lambda>st' t. P t \<and> grown (fst st) (fst st') \<and> (\<exists>c. map_of (snd st') h = Some c \<and> planned L (fst st') h c)
     \<and> (\<forall>h'. h' \<noteq> h \<longrightarrow> map_of (snd st') h' = map_of (snd st) h')) (guarded G)"
  unfolding new_canary_def
proof (intro safe_seq)
  show "safe P (ask_text L (TokenUrlsafe 32)) (\<lambda>_. P) (guarded G)" "safe P (ask_text L (TokenHex 32)) (\<lambda>_. P) (guarded G)"
    by (rule safe_text [OF assms]; simp add: still_def is_commit_def)+
  show "safe P (lift (edit_host h (append_token (sha L token)) (fst st))) (\<lambda>B t. P t \<and> edit_host h (append_token (sha L token)) (fst st) = Inr B) (guarded G)" for token
    by (rule safe_lift) simp
qed (rule safe_ret, use append_token_planned in auto)

lemma safe_canaries:
  assumes P: "kept still P"
  shows "safe P (fold_act (new_canary L) hs (A, [])) (\<lambda>st' t. P t \<and> grown A (fst st')
     \<and> (\<forall>h \<in> set hs. \<exists>c. map_of (snd st') h = Some c \<and> planned L (fst st') h c)) (guarded G)"
proof -
  let ?I = "\<lambda>xs st' t. P t \<and> grown A (fst st') \<and> (\<forall>h \<in> set hs - set xs. \<exists>c. map_of (snd st') h = Some c \<and> planned L (fst st') h c)"
  have k: "kept still (?I xs b)" for xs b using P by (simp add: kept_def)
  have "safe (?I (x # xs) b) (new_canary L x b) (?I xs) (guarded G)" for x xs b
    by (rule safe_weaken [OF safe_new_canary [OF k]]) (assumption, auto intro: grown_trans dest: planned_grown, metis (no_types, lifting) DiffI insertE planned_grown)
  from safe_fold_act [of ?I, OF this] have "safe (?I hs (A, [])) (fold_act (new_canary L) hs (A, [])) (?I []) (guarded G)" .
  then show ?thesis by (rule safe_weaken) simp_all
qed

text \<open>Every node with a credential of the device has profiles to probe it with.\<close>

definition covered :: "'a setting_scheme \<Rightarrow> (document \<Rightarrow> string \<Rightarrow> string \<Rightarrow> device_error + dict list) \<Rightarrow> (string \<times> dict list) list \<Rightarrow> string \<times> document \<Rightarrow> bool" where
  "covered L render profiles node \<longleftrightarrow> (\<exists>found. discover (own (snd node)) (mdevice (man L)) = Inr found
     \<and> (list_ex (\<lambda>k. fst k \<noteq> ''registry'') found \<longrightarrow> (\<exists>ps endpoint. map_of profiles (fst node) = Some ps \<and> render (snd node) (fst node) endpoint = Inr ps)))"

lemma covered_other: "map_of ps' (fst node) = map_of ps (fst node) \<Longrightarrow> covered L render ps' node = covered L render ps node"
  by (simp add: covered_def)

lemma safe_profiles_at:
  assumes P: "kept still P"
  shows "safe P (profiles_at L render node ps) (\<lambda>ps' t. P t \<and> covered L render ps' node \<and> (\<forall>h. h \<noteq> fst node \<longrightarrow> map_of ps' h = map_of ps h)) (guarded G)"
proof -
  let ?D = "\<lambda>found t. P t \<and> discover (own (snd node)) (mdevice (man L)) = Inr found"
  have k: "kept still (?D found)" for found using P by (simp add: kept_def)
  show ?thesis unfolding profiles_at_def
  proof (intro safe_seq [where R = ?D] safe_if safe_seq)
    show "safe P (lift (discover (own (snd node)) (mdevice (man L)))) ?D (guarded G)" by (rule safe_lift) simp
    show "safe (?D found) (ask_text L (Endpoint (fst node))) (\<lambda>_. ?D found) (guarded G)" for found
      by (rule safe_text [OF k]) (simp_all add: still_def is_commit_def)
    show "safe (?D found) (lift (render (snd node) (fst node) e)) (\<lambda>qs t. ?D found t \<and> render (snd node) (fst node) e = Inr qs) (guarded G)" for found e
      by (rule safe_lift) simp
  qed (rule safe_ret, auto simp: covered_def list_all_iff list_ex_iff)+
qed

lemma safe_profiles:
  assumes P: "kept still P" and "distinct (map fst docs)"
  shows "safe P (fold_act (profiles_at L render) docs []) (\<lambda>ps t. P t \<and> (\<forall>node \<in> set docs. covered L render ps node)) (guarded G)"
proof -
  let ?I = "\<lambda>xs ps t. P t \<and> set xs \<subseteq> set docs \<and> (\<forall>node \<in> set docs - set xs. covered L render ps node)"
  have k: "kept still (?I xs b)" for xs b using P by (simp add: kept_def)
  have other: "fst x' \<noteq> fst x" if "x \<in> set docs" "x' \<in> set docs" "x' \<noteq> x" for x x' :: "string \<times> document"
    using assms(2) that by (auto simp: distinct_map inj_on_def)
  have "safe (?I (x # xs) b) (profiles_at L render x b) (?I xs) (guarded G)" for x xs b
  proof (rule safe_weaken [OF safe_profiles_at [OF k]], assumption, elim conjE, intro conjI ballI)
    fix b' node
    assume x: "set (x # xs) \<subseteq> set docs" "\<forall>node \<in> set docs - set (x # xs). covered L render b node"
      and b': "covered L render b' x" "\<forall>h. h \<noteq> fst x \<longrightarrow> map_of b' h = map_of b h" and n: "node \<in> set docs - set xs"
    show "covered L render b' node"
    proof (cases "node = x")
      case False
      have "fst node \<noteq> fst x" using x(1) n False by (intro other) simp_all
      with x n False b'(2) covered_other [of b' node b L render] show ?thesis by simp
    qed (use b' in simp)
  qed auto
  from safe_fold_act [of ?I, OF this] have "safe (?I docs []) (fold_act (profiles_at L render) docs []) (?I []) (guarded G)" .
  then show ?thesis by (rule safe_weaken) simp_all
qed

section \<open>A prepared revocation is what was reviewed\<close>

lemma grows_same:
  assumes "grows c c'"
  shows "discover c' name = discover c name" "credentials name c' = credentials name c" "registered c' name = registered c name"
    "device_gone name c' = device_gone name c"
proof -
  from assms have m: "map_of c' key = map_of c key" if "key \<noteq> ''subscription''" for key using that by (simp add: grows_def)
  have n: "nested c' ''amneziawg_secrets'' k = nested c ''amneziawg_secrets'' k" "nested c' ''snell_secrets'' k = nested c ''snell_secrets'' k" for k
    by (rule nested_cong, rule m, simp)+
  have c: "collections c' = collections c" unfolding collections_def n by (simp add: SECTIONS_def m)
  show d: "discover c' name = discover c name" "credentials name c' = credentials name c" "registered c' name = registered c name"
    by (simp_all add: discover_def credentials_def registered_def c m)
  show "device_gone name c' = device_gone name c" by (simp add: device_gone_def d)
qed

text \<open>A document without the device and otherwise as it was, up to its revoked tokens.\<close>

definition removes :: "string \<Rightarrow> dict \<Rightarrow> dict \<Rightarrow> bool" where
  "removes name doc doc' \<longleftrightarrow> device_gone name doc'
     \<and> (\<forall>other. other \<noteq> name \<longrightarrow> discover doc' other = discover doc other \<and> credentials other doc' = credentials other doc
          \<and> registered doc' other = registered doc other)
     \<and> (\<forall>key. key \<notin> TOUCHED \<and> key \<noteq> ''subscription'' \<longrightarrow> map_of doc' key = map_of doc key)"

lemma revoked_removes:
  assumes "revoke (map (\<lambda>node. (fst node, own (snd node))) docs) name = Inr A" "grown A B" "distinct (map fst docs)" "node \<in> set docs"
  shows "\<exists>c. map_of B (fst node) = Some c \<and> removes name (own (snd node)) c"
proof -
  have l: "list_all2 (\<lambda>node kd. fst kd = fst node \<and> revoke_document name (own (snd node)) = Inr (snd kd)) docs A"
    using assms(1) by (auto simp: revoke_def map_res_Inr list.rel_map bind_res_Inr elim!: list_all2_mono)
  then have "map fst A = map fst docs" by (induction rule: list_all2_induct) auto
  with assms(3) have d: "distinct (map fst A)" by simp
  from l assms(4) obtain kd where kd: "kd \<in> set A" "fst kd = fst node" "revoke_document name (own (snd node)) = Inr (snd kd)"
    using list_all2_elem [OF l] by blast
  with d have "map_of A (fst node) = Some (snd kd)" by (metis map_of_is_SomeI prod.collapse)
  with assms(2) obtain c where c: "map_of B (fst node) = Some c" "grows (snd kd) c" by (rule grownD)
  note g = grows_same [OF c(2)] and r = revoke_document_gone [OF kd(3)]
  have "removes name (own (snd node)) c" using r g c(2) by (simp add: removes_def grows_def)
  with c(1) show ?thesis by blast
qed

definition reading :: "lifecycle \<Rightarrow> (string \<times> document) list \<Rightarrow> (string \<times> snapshot) list \<Rightarrow> event list \<Rightarrow> bool" where
  "reading L docs snaps t \<longleftrightarrow> map fst docs = mnodes (man L) \<and> documents_seen L docs t \<and> map fst snaps = mpublishers (man L) \<and> snapshots_seen L snaps t"

lemma reading_kept: "kept still (reading L docs snaps)"
proof -
  have "latest (t @ [(r, a)]) (Read h) = latest t (Read h)" "latest (t @ [(r, a)]) (Snapshot h) = latest t (Snapshot h)" if "still r" for t r a h
    using that by (auto simp: still_def)
  then have "documents_seen L docs (t @ [(r, a)]) = documents_seen L docs t" "snapshots_seen L snaps (t @ [(r, a)]) = snapshots_seen L snaps t" if "still r" for t r a
    unfolding documents_seen_def snapshots_seen_def using that by (simp_all del: latest_snoc)
  then show ?thesis by (simp add: kept_def reading_def)
qed

lemma safe_inspect:
  "safe (\<lambda>_. True) (inspect L) (\<lambda>(docs, snaps, grants, rv) t. reading L docs snaps t \<and> (\<exists>found. survey L docs snaps = Inr (found, grants))
     \<and> approval rv = approval_of L (rsource rv) docs snaps) (guarded G)"
  unfolding inspect_def
proof (intro safe_seq)
  let ?D = "\<lambda>docs t. map fst docs = mnodes (man L) \<and> documents_seen L docs t"
  let ?R = "\<lambda>docs snaps t. reading L docs snaps t"
  show "safe (\<lambda>_. True) (call L Scope) (\<lambda>_ _. True) (guarded G)" by (rule safe_call_True) (simp add: is_commit_def)
  show "safe (\<lambda>_. True) (source_identity L) (\<lambda>_ _. True) (guarded G)" by (rule safe_source) (simp_all add: is_commit_def)
  show "safe (\<lambda>_. True) (only_if b (seq (lift r) (\<lambda>_. call L (Admit p)))) (\<lambda>_ _. True) (guarded G)" for b r p
    by (intro safe_only_if safe_seq [OF safe_lift_True] safe_call_True) (simp_all add: is_commit_def)
  show "safe (\<lambda>_. True) (documents L) ?D (guarded G)" by (rule safe_weaken [OF safe_documents [where I = "\<lambda>_. True"]]) simp_all
  have k: "kept (\<lambda>r. r = Ready h \<or> r = Snapshot h) (?D docs)" for docs h by (auto simp: kept_def documents_seen_def)
  show "safe (?D docs) (snapshots L) (?R docs) (guarded G)" for docs
    by (rule safe_weaken [OF safe_snapshots [where I = "\<lambda>_. True" and K = "?D docs"]]) (auto simp: k reading_def)
  show "safe (?R docs snaps) (lift (survey L docs snaps)) (\<lambda>fg t. ?R docs snaps t \<and> survey L docs snaps = Inr fg) (guarded G)" for docs snaps
    by (rule safe_lift) simp
  show "safe (\<lambda>t. ?R docs snaps t \<and> survey L docs snaps = Inr fg) (case fg of (found, grants) \<Rightarrow> ret (docs, snaps, grants, review_of L s docs snaps found grants))
      (\<lambda>(docs, snaps, grants, rv) t. reading L docs snaps t \<and> (\<exists>found. survey L docs snaps = Inr (found, grants))
        \<and> approval rv = approval_of L (rsource rv) docs snaps) (guarded G)" for docs snaps fg s
    by (cases fg) (auto simp: review_of_def intro!: safe_ret)
qed

lemma reading_latest:
  assumes "reading L docs snaps t" "distinct (mnodes (man L))" "distinct (mpublishers (man L))"
  shows "node \<in> set docs \<Longrightarrow> latest t (Read (fst node)) = Some (DocumentIs (snd node))"
    and "hs \<in> set snaps \<Longrightarrow> \<exists>v. latest t (Snapshot (fst hs)) = Some (ValueIs v) \<and> parse_snapshot (sha L) v = Inr (snd hs)"
proof -
  from assms have d: "distinct (map fst docs)" "distinct (map fst snaps)" by (simp_all add: reading_def)
  show "latest t (Read (fst node)) = Some (DocumentIs (snd node))" if n: "node \<in> set docs"
  proof -
    from n assms(1) obtain d where "(fst node, d) \<in> set docs" "latest t (Read (fst node)) = Some (DocumentIs d)" by (auto simp: reading_def documents_seen_def)
    with eq_key_imp_eq_value [OF d(1)] n show ?thesis by (metis prod.collapse)
  qed
  show "\<exists>v. latest t (Snapshot (fst hs)) = Some (ValueIs v) \<and> parse_snapshot (sha L) v = Inr (snd hs)" if n: "hs \<in> set snaps"
  proof -
    from n assms(1) obtain v s where "(fst hs, s) \<in> set snaps" "latest t (Snapshot (fst hs)) = Some (ValueIs v)" "parse_snapshot (sha L) v = Inr s"
      by (auto simp: reading_def snapshots_seen_def)
    with eq_key_imp_eq_value [OF d(2)] n show ?thesis by (metis prod.collapse)
  qed
qed

lemma device_rows_Inr:
  assumes "device_rows L s = Inr rs"
  shows "tr \<in> set (rows s) \<Longrightarrow> client_of (document_b64 (snd tr)) = Inr (mdevice (man L)) \<Longrightarrow> tr \<in> set rs"
    and "distinct (map fst (rows s)) \<Longrightarrow> distinct (map fst rs)"
proof -
  let ?P = "\<lambda>tr tc. client_of (document_b64 (snd tr)) = Inr (snd tc) \<and> fst tc = tr"
  from assms obtain cs where "list_all2 (\<lambda>x y. bind_res (client_of (document_b64 (snd x))) (\<lambda>c. Inr (x, c)) = Inr y) (rows s) cs"
    and rs: "rs = map fst (filter (\<lambda>tc. snd tc = mdevice (man L)) cs)"
    unfolding device_rows_def bind_res_Inr [of "map_res f xs" for f xs] map_res_Inr by auto
  then have "list_all2 ?P (rows s) cs" by (auto simp: bind_res_Inr elim!: list_all2_mono)
  note cs = this rs
  from cs(1) have m: "map fst cs = rows s" by (induction rule: list_all2_induct) auto
  show "tr \<in> set rs" if "tr \<in> set (rows s)" "client_of (document_b64 (snd tr)) = Inr (mdevice (man L))"
    using list_all2_elem [OF cs(1) that(1)] that(2) unfolding cs(2) by force
  show "distinct (map fst rs)" if "distinct (map fst (rows s))"
    using that unfolding cs(2) m [symmetric] by (simp add: distinct_map_filter)
qed

lemma survey_Inr:
  assumes "survey L docs snaps = Inr (found, grants)"
  shows "map fst grants = map fst snaps" "list_all2 (\<lambda>hs hr. fst hr = fst hs \<and> device_rows L (snd hs) = Inr (snd hr)) snaps grants"
proof -
  show l: "list_all2 (\<lambda>hs hr. fst hr = fst hs \<and> device_rows L (snd hs) = Inr (snd hr)) snaps grants"
    using assms by (auto simp: survey_def bind_res_Inr map_res_Inr elim!: list_all2_mono split: if_split_asm)
  then show "map fst grants = map fst snaps" by (induction rule: list_all2_induct) auto
qed

lemma survey_rows_distinct:
  assumes "survey L docs snaps = Inr (found, grants)" "\<forall>hs \<in> set snaps. distinct (map fst (rows (snd hs)))"
  shows "\<forall>hr \<in> set grants. distinct (map fst (snd hr))"
  using survey_Inr(2) [OF assms(1)] assms(2) by (induction rule: list_all2_induct) (auto dest: device_rows_Inr(2))

text \<open>The facts about the journal that \<open>prepare\<close> saves, from its loops.\<close>

definition node_reviewed :: "lifecycle \<Rightarrow> (document \<Rightarrow> string \<Rightarrow> string \<Rightarrow> device_error + dict list) \<Rightarrow> journal \<Rightarrow> string \<times> document \<Rightarrow> bool" where
  "node_reviewed L render j node \<longleftrightarrow> map_of (jbefore j) (fst node) = Some (fingerprint L (own (snd node)))
     \<and> (\<exists>c. map_of (jafter j) (fst node) = Some c \<and> removes (mdevice (man L)) (own (snd node)) c) \<and> covered L render (jprofiles j) node"

definition publisher_reviewed :: "lifecycle \<Rightarrow> journal \<Rightarrow> string \<times> snapshot \<Rightarrow> bool" where
  "publisher_reviewed L j hs \<longleftrightarrow> (\<exists>c denied_tokens canary. map_of (jafter j) (fst hs) = Some c \<and> revoked_tokens c = Inr (PList denied_tokens)
     \<and> (\<forall>tr \<in> set (rows (snd hs)). client_of (document_b64 (snd tr)) = Inr (mdevice (man L)) \<longrightarrow> PStr (fst tr) \<in> set denied_tokens \<and> granted (jgrants j) (fst hs) tr)
     \<and> map_of (jcanaries j) (fst hs) = Some canary \<and> PStr (sha L (ctoken canary)) \<in> set denied_tokens)"

lemma publisher_prepared:
  assumes "grown A B" "planned L B h canary" "device_rows L s = Inr rs" "\<forall>tr \<in> set rs. denied A h (fst tr) \<and> granted gs h tr"
    and "jafter j = B" "jgrants j = gs" "map_of (jcanaries j) h = Some canary"
  shows "publisher_reviewed L j (h, s)"
proof -
  from assms(2) obtain c xs where c: "map_of B h = Some c" "revoked_tokens c = Inr (PList xs)"
    by (auto simp: planned_def listed_def pv_test_iff)
  have d: "denied B h token \<longleftrightarrow> PStr token \<in> set xs" for token using c by (simp add: denied_def contains_def)
  have "PStr (fst tr) \<in> set xs \<and> granted gs h tr" if "tr \<in> set (rows s)" "client_of (document_b64 (snd tr)) = Inr (mdevice (man L))" for tr
    using device_rows_Inr(1) [OF assms(3) that] assms(4) denied_grown [OF _ assms(1)] d by blast
  with c d assms(2,5-7) show ?thesis by (auto simp: publisher_reviewed_def planned_def)
qed

definition reviewed :: "lifecycle \<Rightarrow> (document \<Rightarrow> string \<Rightarrow> string \<Rightarrow> device_error + dict list) \<Rightarrow> string \<Rightarrow> event list \<Rightarrow> journal \<Rightarrow> bool" where
  "reviewed L render approved t j \<longleftrightarrow> (\<exists>docs snaps. reading L docs snaps t \<and> approved = approval_of L (jsource j) docs snaps
     \<and> (\<forall>node \<in> set docs. node_reviewed L render j node) \<and> (\<forall>hs \<in> set snaps. publisher_reviewed L j hs))"

lemma prepared_sel:
  "jmanifest (prepared_journal L s docs A ps gs cs) = digest L" "jphase (prepared_journal L s docs A ps gs cs) = Prepared"
  "jsource (prepared_journal L s docs A ps gs cs) = s" "jbefore (prepared_journal L s docs A ps gs cs) = map (\<lambda>node. (fst node, fingerprint L (own (snd node)))) docs"
  "jafter (prepared_journal L s docs A ps gs cs) = A" "jprofiles (prepared_journal L s docs A ps gs cs) = ps" "jgrants (prepared_journal L s docs A ps gs cs) = gs"
  "jcanaries (prepared_journal L s docs A ps gs cs) = cs" "jwritten (prepared_journal L s docs A ps gs cs) = []"
  by (simp_all add: prepared_journal_def Let_def)

lemma prepared_reviewed:
  assumes "reading L docs snaps t" "distinct (mnodes (man L))" "distinct (mpublishers (man L))" "survey L docs snaps = Inr (found, grants)"
    and "revoke (map (\<lambda>node. (fst node, own (snd node))) docs) (mdevice (man L)) = Inr A0" "\<forall>node \<in> set docs. covered L render ps node"
    and "grown A0 A1" "\<forall>hr \<in> set grants. \<forall>tr \<in> set (snd hr). denied A1 (fst hr) (fst tr) \<and> granted gs (fst hr) tr"
    and "grown A1 A2" "\<forall>h \<in> set (mpublishers (man L)). \<exists>c. map_of cs h = Some c \<and> planned L A2 h c"
  shows "reviewed L render (approval_of L s docs snaps) t (prepared_journal L s docs A2 ps gs cs)"
proof -
  let ?j = "prepared_journal L s docs A2 ps gs cs"
  have d: "distinct (map fst docs)" and hs: "map fst snaps = mpublishers (man L)" using assms(1,2) by (simp_all add: reading_def)
  have before: "map_of (map (\<lambda>node. (fst node, fingerprint L (own (snd node)))) docs) (fst node) = Some (fingerprint L (own (snd node)))" if "node \<in> set docs" for node
    using that d by (intro map_of_is_SomeI) (auto simp: comp_def)
  have "node_reviewed L render ?j node" if "node \<in> set docs" for node
    using before [OF that] revoked_removes [OF assms(5) grown_trans [OF assms(7,9)] d that] assms(6) that by (simp add: node_reviewed_def prepared_sel)
  moreover have "publisher_reviewed L ?j x" if x: "x \<in> set snaps" for x
  proof -
    obtain hr where hr: "hr \<in> set grants" "fst hr = fst x" "device_rows L (snd x) = Inr (snd hr)"
      using list_all2_elem [OF survey_Inr(2) [OF assms(4)] x] by blast
    from x have "fst x \<in> set (map fst snaps)" by simp
    with hs assms(10) obtain c where c: "map_of cs (fst x) = Some c" "planned L A2 (fst x) c" by auto
    from assms(8) hr have "\<forall>tr \<in> set (snd hr). denied A1 (fst x) (fst tr) \<and> granted gs (fst x) tr" by metis
    from publisher_prepared [OF assms(9) c(2) hr(3) this, of ?j] c(1) show ?thesis by (simp add: prepared_sel)
  qed
  ultimately show ?thesis using assms(1) unfolding reviewed_def prepared_sel by blast
qed

lemma kept_conj: "kept R I \<Longrightarrow> kept R (\<lambda>t. I t \<and> F)"
  by (simp add: kept_def)

definition prepares :: "lifecycle \<Rightarrow> (document \<Rightarrow> string \<Rightarrow> string \<Rightarrow> device_error + dict list) \<Rightarrow> string
    \<Rightarrow> event list \<Rightarrow> string \<Rightarrow> document \<Rightarrow> document \<Rightarrow> bool" where
  "prepares L render approved t h found left \<longleftrightarrow> h = mjournal_host (man L)
     \<and> (\<exists>j. put_journal L j found = Inr left \<and> validate_journal L j = Inr () \<and> jmanifest j = digest L \<and> jphase j = Prepared \<and> jwritten j = []
          \<and> reviewed L render approved t j)"

lemma prepare_after_review:
  assumes "distinct (mnodes (man L))" "distinct (mpublishers (man L))"
    and f: "survey L docs snaps = Inr (found, grants)" "approved = approval_of L s docs snaps" "\<forall>hr \<in> set grants. distinct (map fst (snd hr))"
      "distinct (map fst docs)" "distinct (map fst snaps)"
  shows "safe (reading L docs snaps) (seq (lift (revoke (map (\<lambda>node. (fst node, own (snd node))) docs) (mdevice (man L)))) (\<lambda>left.
     seq (fold_act (profiles_at L render) docs []) (\<lambda>profiles. seq (fold_act revoke_grants grants (left, [])) (\<lambda>(left, intents).
     seq (fold_act (new_canary L) (mpublishers (man L)) (left, [])) (\<lambda>(left, canaries).
     seq (save L (prepared_journal L s docs left profiles intents canaries)) (\<lambda>_. status L)))))) (\<lambda>_ _. True) (guarded (prepares L render approved))"
  (is "safe ?R _ _ _")
proof -
  let ?A = "\<lambda>A. revoke (map (\<lambda>node. (fst node, own (snd node))) docs) (mdevice (man L)) = Inr A"
  let ?B = "\<lambda>A ps. ?A A \<and> (\<forall>node \<in> set docs. covered L render ps node)"
  let ?C = "\<lambda>A ps st. ?B A ps \<and> grown A (fst st) \<and> (\<forall>hr \<in> set grants. \<forall>tr \<in> set (snd hr). denied (fst st) (fst hr) (fst tr) \<and> granted (snd st) (fst hr) tr)"
  let ?D = "\<lambda>A ps st st'. ?C A ps st \<and> grown (fst st) (fst st') \<and> (\<forall>h \<in> set (mpublishers (man L)). \<exists>c. map_of (snd st') h = Some c \<and> planned L (fst st') h c)"
  have g: "distinct (map fst grants)" using survey_Inr(1) [OF f(1)] f(5) by simp
  have k: "kept still (\<lambda>t. ?R t \<and> F)" for F by (rule kept_conj) (rule reading_kept)
  have ks: "kept save_request (\<lambda>t. ?R t \<and> F)" for F using k by (rule kept_mono) (auto simp: save_request_def still_def)
  have st: "safe (\<lambda>t. ?R t \<and> F) (status L) (\<lambda>_ _. True) (guarded (prepares L render approved))" for F
    unfolding status_def by (rule safe_seq [OF safe_weaken [OF journal_of_quiet]]) (auto intro: safe_ret)
  have save: "safe (\<lambda>t. ?R t \<and> ?D A ps st st') (seq (save L (prepared_journal L s docs (fst st') ps (snd st) (snd st'))) (\<lambda>_. status L)) (\<lambda>_ _. True) (guarded (prepares L render approved))" for A ps st st'
  proof (rule safe_seq)
    let ?j = "prepared_journal L s docs (fst st') ps (snd st) (snd st')"
    have r: "reviewed L render approved t ?j" if "?R t" "?D A ps st st'" for t
      unfolding f(2) using that by (intro prepared_reviewed [OF _ assms(1,2) f(1)]) blast+
    show "safe (\<lambda>t. ?R t \<and> ?D A ps st st') (save L (prepared_journal L s docs (fst st') ps (snd st) (snd st'))) (\<lambda>_ t. (?R t \<and> ?D A ps st st') \<and>
        validate_journal L (prepared_journal L s docs (fst st') ps (snd st) (snd st')) = Inr ()) (guarded (prepares L render approved))"
      by (rule safe_save [OF ks], elim conjE, unfold prepares_def, intro conjI exI [of _ ?j]) (use r in \<open>simp_all add: prepared_sel\<close>)
    show "safe (\<lambda>t. (?R t \<and> ?D A ps st st') \<and> F) (status L) (\<lambda>_ _. True) (guarded (prepares L render approved))" for F using st by (simp add: conj_assoc)
  qed
  have canaries: "safe (\<lambda>t. ?R t \<and> ?C A ps st) (seq (fold_act (new_canary L) (mpublishers (man L)) (fst st, [])) (\<lambda>(left, canaries).
      seq (save L (prepared_journal L s docs left ps (snd st) canaries)) (\<lambda>_. status L))) (\<lambda>_ _. True) (guarded (prepares L render approved))" for A ps st
    by (rule safe_seq [OF safe_weaken [OF safe_canaries [OF k [of "?C A ps st"]]], where R = "\<lambda>st' t. ?R t \<and> ?D A ps st st'"]) (use save in \<open>auto split: prod.split\<close>)
  have grants: "safe (\<lambda>t. ?R t \<and> ?B A ps) (seq (fold_act revoke_grants grants (A, [])) (\<lambda>(left, intents).
      seq (fold_act (new_canary L) (mpublishers (man L)) (left, [])) (\<lambda>(left, canaries).
      seq (save L (prepared_journal L s docs left ps intents canaries)) (\<lambda>_. status L)))) (\<lambda>_ _. True) (guarded (prepares L render approved))" for A ps
    by (rule safe_seq [OF safe_weaken [OF safe_revoke_all [OF g f(3), where P = "\<lambda>t. ?R t \<and> ?B A ps"]], where R = "\<lambda>st t. ?R t \<and> ?C A ps st"])
      (use canaries in \<open>auto split: prod.split\<close>)
  show ?thesis
  proof (rule safe_seq [where R = "\<lambda>A t. ?R t \<and> ?A A"])
    show "safe ?R (lift (revoke (map (\<lambda>node. (fst node, own (snd node))) docs) (mdevice (man L)))) (\<lambda>A t. ?R t \<and> ?A A) (guarded (prepares L render approved))" by (rule safe_lift) simp
  qed (rule safe_seq [OF safe_weaken [OF safe_profiles [OF k f(4)]] grants], auto)
qed

lemma prepare_guarded:
  assumes "distinct (mnodes (man L))" "distinct (mpublishers (man L))"
  shows "safe (\<lambda>_. True) (prepare_revocation L render approved) (\<lambda>_ _. True) (guarded (prepares L render approved))"
proof -
  have rest: "safe (\<lambda>t. reading L docs snaps t \<and> (\<exists>found. survey L docs snaps = Inr (found, grants)) \<and> approved = approval_of L s docs snaps)
    (seq (lift (revoke (map (\<lambda>node. (fst node, own (snd node))) docs) (mdevice (man L)))) (\<lambda>left.
     seq (fold_act (profiles_at L render) docs []) (\<lambda>profiles. seq (fold_act revoke_grants grants (left, [])) (\<lambda>(left, intents).
     seq (fold_act (new_canary L) (mpublishers (man L)) (left, [])) (\<lambda>(left, canaries).
     seq (save L (prepared_journal L s docs left profiles intents canaries)) (\<lambda>_. status L)))))) (\<lambda>_ _. True) (guarded (prepares L render approved))"
    (is "safe ?P ?m _ _") for docs snaps grants s
  proof (cases "\<exists>t. ?P t")
    case True
    then obtain t found where t: "reading L docs snaps t" "survey L docs snaps = Inr (found, grants)" "approved = approval_of L s docs snaps" by blast
    have "distinct (map fst (rows (snd x)))" if "x \<in> set snaps" for x
      using reading_latest(2) [OF t(1) assms that] by (auto dest: parse_snapshot_distinct)
    then have g: "\<forall>hr \<in> set grants. distinct (map fst (snd hr))" by (intro survey_rows_distinct [OF t(2)]) simp
    have d: "distinct (map fst docs)" "distinct (map fst snaps)" using t(1) assms by (simp_all add: reading_def)
    show ?thesis by (rule safe_weaken [OF prepare_after_review [OF assms t(2,3) g d]]) auto
  qed (unfold safe_def, blast)
  show ?thesis unfolding prepare_revocation_def
  proof (rule safe_seq [OF safe_inspect], clarify)
    fix docs snaps grants rv
    show "safe (\<lambda>t. reading L docs snaps t \<and> (\<exists>found. survey L docs snaps = Inr (found, grants)) \<and> approval rv = approval_of L (rsource rv) docs snaps)
      (seq (check (approved = approval rv) ''exact-device-operation-approval-required'') (\<lambda>_.
       seq (lift (revoke (map (\<lambda>node. (fst node, own (snd node))) docs) (mdevice (man L)))) (\<lambda>left.
       seq (fold_act (profiles_at L render) docs []) (\<lambda>profiles. seq (fold_act revoke_grants grants (left, [])) (\<lambda>(left, intents).
       seq (fold_act (new_canary L) (mpublishers (man L)) (left, [])) (\<lambda>(left, canaries).
       seq (save L (prepared_journal L (rsource rv) docs left profiles intents canaries)) (\<lambda>_. status L))))))) (\<lambda>_ _. True) (guarded (prepares L render approved))"
      by (rule safe_seq [OF safe_check rest]) auto
  qed
qed

lemma prepare_committed:
  assumes "distinct (mnodes (man L))" "distinct (mpublishers (man L))"
    and "pre @ [(Commit h found left, a)] \<in> set (steps (prepare_revocation L render approved) [])"
  obtains docs snaps j where "h = mjournal_host (man L)" "own left = own found" "read_journal L left = Inr j" "jphase j = Prepared" "jwritten j = []"
    "map fst docs = mnodes (man L)" "map fst snaps = mpublishers (man L)" "approved = approval_of L (jsource j) docs snaps"
    "\<forall>node \<in> set docs. latest pre (Read (fst node)) = Some (DocumentIs (snd node)) \<and> node_reviewed L render j node"
    "\<forall>hs \<in> set snaps. (\<exists>v. latest pre (Snapshot (fst hs)) = Some (ValueIs v) \<and> parse_snapshot (sha L) v = Inr (snd hs)) \<and> publisher_reviewed L j hs"
proof -
  have "prepares L render approved pre h found left" using safe_stepsD [OF prepare_guarded [OF assms(1,2)] _ assms(3)] by simp
  then obtain j docs snaps where h: "h = mjournal_host (man L)" and j: "put_journal L j found = Inr left" "validate_journal L j = Inr ()" "jmanifest j = digest L"
    "jphase j = Prepared" "jwritten j = []" and r: "reading L docs snaps pre" "approved = approval_of L (jsource j) docs snaps"
    and n: "\<forall>node \<in> set docs. node_reviewed L render j node" "\<forall>hs \<in> set snaps. publisher_reviewed L j hs"
    by (auto simp: prepares_def reviewed_def)
  show thesis
    by (rule that [of j docs snaps]) (use h saved_journal_read [OF j(1,2,3)] j(4,5) r reading_latest [OF r(1) assms(1,2)] n in \<open>simp_all add: reading_def\<close>)
qed


text \<open>The checks of a journal and of a probe do not depend on the fleet.\<close>

lemma other_answers [simp]:
  "read_journal (L\<lparr>answers := f\<rparr>) = read_journal L" "fingerprint (L\<lparr>answers := f\<rparr>) = fingerprint L" "deny (L\<lparr>answers := f\<rparr>) = deny L"
  "probe_answer (L\<lparr>answers := f\<rparr>) = probe_answer L" "runtime_hosts (L\<lparr>answers := f\<rparr>) = runtime_hosts L" "validate_journal (L\<lparr>answers := f\<rparr>) = validate_journal L"
  "expected_fingerprints (L\<lparr>answers := f\<rparr>) = expected_fingerprints L"
proof -
  show fp: "fingerprint (L\<lparr>answers := f\<rparr>) = fingerprint L" and d: "deny (L\<lparr>answers := f\<rparr>) = deny L" by (simp_all add: fingerprint_def deny_def fun_eq_iff)
  show "probe_answer (L\<lparr>answers := f\<rparr>) = probe_answer L" unfolding probe_answer_def probe_row_def d ..
  show r: "runtime_hosts (L\<lparr>answers := f\<rparr>) = runtime_hosts L" by (simp add: runtime_hosts_def fp fun_eq_iff)
  show "expected_fingerprints (L\<lparr>answers := f\<rparr>) = expected_fingerprints L" by (simp add: expected_fingerprints_def fp fun_eq_iff)
  show v: "validate_journal (L\<lparr>answers := f\<rparr>) = validate_journal L"
    by (simp add: validate_journal_def expected_revocation_def fields_agree_def evidence_complete_def r fun_eq_iff)
  have g: "digest (L\<lparr>answers := f\<rparr>) = digest L" "man (L\<lparr>answers := f\<rparr>) = man L" by (simp_all add: digest_def)
  show "read_journal (L\<lparr>answers := f\<rparr>) = read_journal L" unfolding read_journal_def g v ..
qed

end
