(* ===== verification/DeviceSample.thy ===== *)
theory DeviceSample
  imports DeviceProgress DevicePrepare
begin

text \<open>
  Concrete runs of device operations on a fleet of one node: a resumed revocation that completes, a prepared one that replaces the node's
  document, one that cannot reach the fleet, and the preparation itself. They are inputs at which the properties of device operations apply.
\<close>

section \<open>A bound for the size of a journal\<close>

fun text_bound :: "pv \<Rightarrow> nat" where
  "text_bound PNone = 4"
| "text_bound (PBool b) = 5"
| "text_bound (PInt i) = length (show_int i)"
| "text_bound (PFloat f) = length (show_float f)"
| "text_bound (PStr s) = 2 + 12 * length s"
| "text_bound (PList xs) = 2 + sum_list (map (\<lambda>x. Suc (text_bound x)) xs)"
| "text_bound (PDict d) = 2 + sum_list (map (\<lambda>kv. 4 + 12 * length (fst kv) + text_bound (snd kv)) d)"

lemma length_escape: "length (escape n) \<le> 12"
  by (auto simp: escape_def hex4_def Let_def)

lemma length_codepoints: "length (codepoints s) \<le> length s"
proof (induction s rule: length_induct)
  case (1 s)
  have "length (codepoints (drop k xs)) \<le> length xs" if "s = a # xs" for a xs k
  proof -
    have "length (codepoints (drop k xs)) \<le> length (drop k xs)" using 1 [rule_format, of "drop k xs"] that by simp
    also have "\<dots> \<le> length xs" by simp
    finally show ?thesis .
  qed
  from this [of _ _ 0] this show ?case by (cases s) (simp_all add: Let_def)
qed

lemma bound_quote: "length (quote s) \<le> 2 + 12 * length s"
proof -
  have "length (quote s) = 2 + sum_list (map (\<lambda>n. length (escape n)) (codepoints s))" by (simp add: quote_def length_concat comp_def)
  also have "sum_list (map (\<lambda>n. length (escape n)) (codepoints s)) \<le> 12 * length (codepoints s)" by (rule sum_list_bound) (rule length_escape)
  finally show ?thesis using length_codepoints [of s] by simp
qed

lemma bound_join: "length (join [c] xs) \<le> sum_list (map (\<lambda>x. Suc (length x)) xs)"
  by (induction "[c]" xs rule: join.induct) auto

lemma bound_join_map:
  assumes "\<And>x. x \<in> set xs \<Longrightarrow> length (f x) \<le> g x"
  shows "length (join [c] (map f xs)) \<le> sum_list (map (\<lambda>x. Suc (g x)) xs)"
proof -
  have "length (join [c] (map f xs)) \<le> sum_list (map (\<lambda>x. Suc (length (f x))) xs)" using bound_join [of c "map f xs"] by (simp add: comp_def)
  also have "\<dots> \<le> sum_list (map (\<lambda>x. Suc (g x)) xs)" by (intro sum_list_mono) (simp add: assms)
  finally show ?thesis .
qed

lemma length_dumps: "length (dumps v) \<le> text_bound v"
proof (induction v rule: dumps.induct)
  case (6 xs)
  then show ?case using bound_join_map [of xs dumps text_bound "CHR '',''"] by simp
next
  case (7 d)
  have "length (quote (fst kv) @ '':'' @ dumps (snd kv)) \<le> 3 + 12 * length (fst kv) + text_bound (snd kv)" if "kv \<in> set d" for kv
    using 7 [OF that] bound_quote [of "fst kv"] by simp
  from bound_join_map [OF this, of d "\<lambda>kv. kv" "CHR '',''"] show ?case by (simp add: add.assoc)
qed (use bound_quote in auto)

lemma text_bound_sort_keys: "text_bound (sort_keys v) = text_bound v"
proof (induction v rule: sort_keys.induct)
  case (1 xs)
  then show ?case by (auto simp: comp_def intro!: arg_cong [where f = sum_list] map_cong)
next
  case (2 d)
  let ?f = "\<lambda>kv. 4 + 12 * length (fst kv) + text_bound (snd kv)"
  have "sum_list (map ?f (sort_key fst xs)) = sum_list (map ?f xs)" for xs :: dict
  proof -
    have "sum_mset (mset (map ?f (sort_key fst xs))) = sum_mset (mset (map ?f xs))" by (simp only: mset_map mset_sort)
    then show ?thesis by (simp only: sum_mset_sum_list)
  qed
  moreover have "map (?f \<circ> (\<lambda>kv. (fst kv, sort_keys (snd kv)))) d = map ?f d" using 2 by auto
  ultimately show ?case by (simp only: sort_keys.simps text_bound.simps list.map_comp)
qed simp_all

lemma length_encoded: "length (encoded v) \<le> text_bound v"
  using length_dumps [of "sort_keys v"] by (simp add: encoded_def dumps_sorted_def text_bound_sort_keys)

section \<open>A revocation\<close>

text \<open>
  A fleet of one node that publishes nothing. A constant stands for the digest, every document satisfies the schema, and the node keeps what is
  committed to it.
\<close>

definition sample_sha :: "string \<Rightarrow> string" where
  "sample_sha s = replicate 64 (CHR ''0'')"

definition sample_source :: source where
  "sample_source = (replicate 40 (CHR ''1''), replicate 64 (CHR ''2''))"

definition sample_manifest :: manifest where
  "sample_manifest = \<lparr>mvalue = PStr ''m'', mid = ''01234567-0123-0123-0123-0123456789ab'', maction = Revoke, mdevice = ''phone'',
     mjournal_host = ''a:b'', mnodes = [''a:b''], mpublishers = [], mformat = None, moutput = [], mhosts = []\<rparr>"

definition sample_profile :: dict where
  "sample_profile = [(''id'', PStr ''xray-1''), (''engine'', PStr ''xray''), (''config'', PStr []), (''witness'', PDict
     [(''kind'', PStr ''uuid''), (''credential'', PStr ''c''), (''instance'', PNone), (''config_path'', PStr ''p''), (''unit'', PStr ''u'')])]"

definition sample_journal :: "phase \<Rightarrow> string list \<Rightarrow> journal" where
  "sample_journal p hs = \<lparr>jmanifest = sample_sha [], jphase = p, jaction = Revoke, jdevice = ''phone'', jsource = sample_source,
     jbefore = [(''a:b'', sample_sha [])], jafter = [(''a:b'', sample_revoked)], jprofiles = [(''a:b'', [sample_profile])], jgrants = [],
     jwritten = hs, jadopted = hs, jpublished = [], jartifact = None, jcanaries = [], jrevocation = Some (mid sample_manifest, sample_sha [])\<rparr>"

definition journal_document :: "journal \<Rightarrow> dict \<Rightarrow> document" where
  "journal_document j d = \<lparr>own = d, operations = Some [(mid sample_manifest, Shaped j)]\<rparr>"

definition sample_probe :: pv where
  "sample_probe = PDict [(''control'', PStr ''passed''), (''cleanup'', PStr ''confirmed''), (''profiles'', PList [PDict
     [(''id'', PStr ''xray-1''), (''state'', PStr ''denied''), (''control_ok'', PBool True), (''setup_ok'', PBool True), (''cleanup_ok'', PBool True),
      (''peer_absent'', PBool True), (''runtime_healthy'', PBool True)]])]"

fun kept_document :: "document \<Rightarrow> event list \<Rightarrow> document" where
  "kept_document d [] = d"
| "kept_document d ((r, a) # t) = kept_document (case r of Commit _ _ left \<Rightarrow> left | _ \<Rightarrow> d) t"

definition sample_answers :: "document \<Rightarrow> event list \<Rightarrow> request \<Rightarrow> answer" where
  "sample_answers d t r = (case r of SourceIdentity \<Rightarrow> SourceIs sample_source | Read _ \<Rightarrow> DocumentIs (kept_document d t)
     | Open _ \<Rightarrow> DocumentIs (kept_document d t) | Probe _ _ _ \<Rightarrow> ValueIs sample_probe | _ \<Rightarrow> Done)"

definition sample_lifecycle :: "(event list \<Rightarrow> request \<Rightarrow> answer) \<Rightarrow> lifecycle" where
  "sample_lifecycle f = \<lparr>sha = sample_sha, schema = (\<lambda>_. True), man = sample_manifest, answers = f\<rparr>"

lemma sample_sel [simp]:
  "sha (sample_lifecycle f) = sample_sha" "schema (sample_lifecycle f) = (\<lambda>_. True)" "man (sample_lifecycle f) = sample_manifest"
  "answers (sample_lifecycle f) = f"
  by (simp_all add: sample_lifecycle_def)

lemma sample_patterns:
  "dollar hex64 (sample_sha s)" "dollar NAME ''phone''" "host_pair ''a:b''" "dollar uuid_text (mid sample_manifest)"
  "dollar (repeated is_hex 40 40) (fst sample_source)" "dollar hex64 (snd sample_source)" "profile_ok sample_profile"
  by code_simp+

lemma sample_valid:
  assumes "set hs \<subseteq> {''a:b''}" "distinct hs" "p \<noteq> Prepared \<longrightarrow> hs = [''a:b'']"
  shows "validate_journal (sample_lifecycle f) (sample_journal p hs) = Inr ()"
proof -
  have hs: "hs = [] \<or> hs = [''a:b'']" using assms(1,2) by (cases hs; cases "tl hs") auto
  have "intent_ok (\<lambda>_. True) (sample_journal p hs)"
    using sample_patterns by (simp add: intent_ok_def sample_journal_def host_map_def has_key_def revocation_ok_def sample_revoked_def)
  moreover have "host_list hs" using hs sample_patterns(3) by (auto simp: host_list_def)
  moreover have "fields_agree (sample_lifecycle f) (sample_journal p hs)" using hs
    by (auto simp: fields_agree_def sample_journal_def sample_manifest_def Let_def grant_ids_def native_def)
  moreover have "evidence_complete (sample_lifecycle f) (sample_journal p hs)" using hs assms(3)
    by (auto simp: evidence_complete_def sample_journal_def sample_manifest_def runtime_hosts_def grant_ids_def)
  ultimately show ?thesis by (simp add: validate_Inr record_ok_def sample_journal_def expected_revocation_def revocation_intent_def
      sample_manifest_def sample_sha_def)
qed

text \<open>The actions of a run on this fleet return, and leave a document with a journal of the operation.\<close>

abbreviation sample :: "document \<Rightarrow> lifecycle" where
  "sample d \<equiv> sample_lifecycle (sample_answers d)"

definition holding :: "document \<Rightarrow> event list \<Rightarrow> bool" where
  "holding d t \<longleftrightarrow> (\<exists>j o'. kept_document d t = journal_document j o' \<and> jmanifest j = sample_sha [] \<and> jphase j \<noteq> Complete)"

definition runs :: "document \<Rightarrow> 'a act \<Rightarrow> ('a \<Rightarrow> bool) \<Rightarrow> bool" where
  "runs d m Q \<longleftrightarrow> (\<forall>t. holding d t \<longrightarrow> (\<exists>a. outcome m t = Inr a \<and> Q a \<and> holding d (after m t)))"

lemma runs_ret: "Q a \<Longrightarrow> runs d (ret a) Q"
  by (simp add: runs_def run_prims)

lemma runs_lift: "r = Inr a \<Longrightarrow> Q a \<Longrightarrow> runs d (lift r) Q"
  by (simp add: runs_def lift_def run_prims)

lemma runs_check: "b \<Longrightarrow> runs d (check b m) (\<lambda>_. True)"
  unfolding check_def by (rule runs_lift) (simp_all add: refuse_if_def)

lemma runs_seq: "runs d m R \<Longrightarrow> (\<And>a. R a \<Longrightarrow> runs d (f a) Q) \<Longrightarrow> runs d (seq m f) Q"
  unfolding runs_def by (metis seq_run(1,2))

lemma kept_document_append: "kept_document d (t @ u) = kept_document (kept_document d t) u"
  by (induction d t rule: kept_document.induct) auto

lemma holding_snoc: "\<not> is_commit r \<Longrightarrow> holding d (t @ [(r, a)]) = holding d t"
  by (cases r) (simp_all add: holding_def kept_document_append is_commit_def)

lemma runs_ask:
  assumes "\<not> is_commit r" "\<And>t. holding d t \<Longrightarrow> \<exists>x. f (sample_answers d t r) = Some x \<and> Q x" "\<And>t e. sample_answers d t r \<noteq> Failed e"
  shows "runs d (ask (sample d) r f) Q"
  unfolding runs_def
proof (intro allI impI)
  fix t assume t: "holding d t"
  from assms(2) [OF t] assms(3) [of t] show "\<exists>x. outcome (ask (sample d) r f) t = Inr x \<and> Q x \<and> holding d (after (ask (sample d) r f) t)"
    using t assms(1) by (cases "sample_answers d t r") (auto simp: ask_def Let_def after_def holding_snoc)
qed

lemma runs_calls:
  "\<not> is_commit r \<Longrightarrow> \<forall>t. sample_answers d t r = Done \<Longrightarrow> runs d (call (sample d) r) (\<lambda>_. True)"
  "runs d (source_identity (sample d)) (\<lambda>s. s = sample_source)"
  "runs d (ask_value (sample d) (Probe h ps m)) (\<lambda>v. v = sample_probe)"
  "r = Read h \<or> r = Open h \<Longrightarrow> runs d (ask_document (sample d) r) (\<lambda>_. True)"
  by (auto simp: call_def source_identity_def ask_value_def ask_document_def is_commit_def sample_answers_def holding_def intro!: runs_ask)

lemma runs_fence:
  assumes "jsource j = sample_source" "map_of (jafter j) ''a:b'' \<noteq> None"
  shows "runs d (fence (sample d) j) (\<lambda>snaps. snaps = [])"
proof -
  have "check_document (sample d) j (''a:b'', x) = Inr ()" for x
    using assms(2) by (auto simp: check_document_def expected_fingerprints_def fingerprint_def sample_sha_def refuse_if_def Let_def)
  then have "each (check_document (sample d) j) docs = Inr ()" if "map fst docs = [''a:b'']" for docs using that by (cases docs) (auto simp: each_Inr)
  then have c: "runs d (lift (each (check_document (sample d) j) docs)) (\<lambda>_. True)" if "map fst docs = [''a:b'']" for docs
    using that by (intro runs_lift) auto
  have "runs d (documents (sample d)) (\<lambda>docs. map fst docs = [''a:b''])"
    unfolding documents_def by (rule runs_seq [OF runs_calls(1)])
      (auto simp: is_commit_def sample_answers_def sample_manifest_def seq_assoc intro!: runs_seq [OF runs_calls(4)] runs_ret)
  note docs = this
  have snaps: "runs d (seq (snapshots (sample d)) (\<lambda>snaps. seq (lift (each (check_snapshot (sample d) j) snaps)) (\<lambda>_. ret snaps))) (\<lambda>snaps. snaps = [])"
    unfolding snapshots_def by (auto simp: sample_manifest_def intro!: runs_seq [OF runs_lift] runs_ret)
  have src: "runs d (check (s = jsource j) m) (\<lambda>_. True)" if "s = sample_source" for s m using that assms(1) by (intro runs_check) simp
  show ?thesis unfolding fence_def
    by (rule runs_seq [OF runs_calls(2)], rule runs_seq [OF src], assumption, rule runs_seq [OF docs], rule runs_seq [OF c], assumption, rule snaps)
qed

text \<open>What a save commits.\<close>

lemma put_sample: "jmanifest k = sample_sha [] \<Longrightarrow> map_of (jafter j) ''a:b'' \<noteq> None \<Longrightarrow> put_journal (sample d) j (journal_document k o') = Inr (journal_document j o')"
  by (auto simp: put_journal_def journal_document_def sample_manifest_def fingerprint_def sample_sha_def digest_def stored_manifest_def refuse_if_def Let_def)

lemma save_commits:
  assumes "validate_journal (sample d) j = Inr ()" "text_bound (journal_value j) \<le> 2097152" "jsource j = sample_source" "jmanifest j = sample_sha []"
    and "map_of (jafter j) ''a:b'' \<noteq> None" "holding d t"
  shows "outcome (save (sample d) j) t = Inr () \<and> (jphase j \<noteq> Complete \<longrightarrow> holding d (after (save (sample d) j) t))
     \<and> (\<exists>pre k o'. jphase k \<noteq> Complete \<and> pre @ [(Commit ''a:b'' (journal_document k o') (journal_document j o'), Done)] \<in> set (steps (save (sample d) j) t))"
proof -
  have size: "length (encoded (journal_value j)) \<le> MAX_BYTES div 2" using length_encoded [of "journal_value j"] assms(2) by (simp add: MAX_BYTES_def)
  from assms(6) obtain k o' where k: "kept_document d t = journal_document k o'" "jmanifest k = sample_sha []" "jphase k \<noteq> Complete" by (auto simp: holding_def)
  show ?thesis using k assms(4) put_sample [OF k(2) assms(5)]
    by (simp add: save_def size assms(1,3) check_def lift_def call_def source_identity_def writer_def ask_document_def seq_look refuse_if_def
        ask_def sample_answers_def Let_def seq_def look_def sample_manifest_def after_def holding_def kept_document_append)
      blast
qed

lemma sample_value_bound:
  assumes "length (phase_text p) \<le> 20" "hs = [] \<or> hs = [''a:b'']"
  shows "text_bound (journal_value (sample_journal p hs)) \<le> 2097152"
  using assms by (auto simp: journal_value_def immutable_def object_of_def opt_text_def sample_journal_def sample_profile_def sample_source_def
      sample_manifest_def sample_sha_def sample_revoked_def action_text_def show_int_def show_nat_small)

abbreviation adopted_journal :: "phase \<Rightarrow> journal" where
  "adopted_journal p \<equiv> sample_journal p [''a:b'']"

lemma sample_save:
  assumes "p \<noteq> Prepared"
  shows "p \<noteq> Complete \<Longrightarrow> runs d (save (sample d) (adopted_journal p)) (\<lambda>_. True)"
    and "holding d t \<Longrightarrow> \<exists>pre k o'. jphase k \<noteq> Complete \<and> pre @ [(Commit ''a:b'' (journal_document k o') (journal_document (adopted_journal p) o'), Done)]
      \<in> set (steps (save (sample d) (adopted_journal p)) t)"
proof -
  have "text_bound (journal_value (adopted_journal p)) \<le> 2097152" by (rule sample_value_bound) (cases p; simp add: phase_text_def)+
  from save_commits [OF sample_valid [of "[''a:b'']" p] this]
  have "holding d t \<Longrightarrow> outcome (save (sample d) (adopted_journal p)) t = Inr () \<and> (p \<noteq> Complete \<longrightarrow> holding d (after (save (sample d) (adopted_journal p)) t))
     \<and> (\<exists>pre k o'. jphase k \<noteq> Complete \<and> pre @ [(Commit ''a:b'' (journal_document k o') (journal_document (adopted_journal p) o'), Done)] \<in> set (steps (save (sample d) (adopted_journal p)) t))" for t
    by (simp add: sample_journal_def)
  then show "p \<noteq> Complete \<Longrightarrow> runs d (save (sample d) (adopted_journal p)) (\<lambda>_. True)"
    "holding d t \<Longrightarrow> \<exists>pre k o'. jphase k \<noteq> Complete \<and> pre @ [(Commit ''a:b'' (journal_document k o') (journal_document (adopted_journal p) o'), Done)]
      \<in> set (steps (save (sample d) (adopted_journal p)) t)" by (auto simp: runs_def)
qed

lemma adopted_sel:
  "jsource (sample_journal p hs) = sample_source" "map_of (jafter (sample_journal p hs)) ''a:b'' = Some sample_revoked"
  "jcanaries (sample_journal p hs) = []" "jgrants (sample_journal p hs) = []" "jartifact (sample_journal p hs) = None"
  "jprofiles (sample_journal p hs) = [(''a:b'', [sample_profile])]" "jwritten (sample_journal p hs) = hs" "jadopted (sample_journal p hs) = hs"
  "(sample_journal p hs)\<lparr>jphase := q\<rparr> = sample_journal q hs" "runtime_hosts (sample d) (sample_journal p hs) = [''a:b'']" "mnodes sample_manifest = [''a:b'']"
  "deny (sample d)"
  by (simp_all add: sample_journal_def runtime_hosts_def sample_manifest_def deny_def)

lemma sample_fence: "runs d (fence (sample d) (sample_journal p hs)) (\<lambda>snaps. snaps = [])"
  by (rule runs_fence) (simp_all add: adopted_sel)

lemma sample_recheck: "runs d (recheck (sample d) (adopted_journal p)) (\<lambda>_. True)"
proof -
  have "probe_answer (sample d) [sample_profile] sample_probe = Inr ()"
    by (simp add: probe_answer_def sample_probe_def sample_profile_def get_or_def hashable_def probe_row_def adopted_sel pv_tests refuse_if_def)
  then show ?thesis unfolding recheck_def adopted_sel
    by (auto simp: after_at_def adopted_sel probe_def seq_assoc is_commit_def sample_answers_def
        intro!: runs_seq [OF runs_lift] runs_seq [OF runs_calls(1)] runs_seq [OF runs_check] runs_seq [OF runs_calls(3)] runs_seq [OF runs_ret] runs_lift runs_ret)
qed

definition makes :: "document \<Rightarrow> 'a act \<Rightarrow> (event list \<Rightarrow> bool) \<Rightarrow> bool" where
  "makes d m X \<longleftrightarrow> (\<forall>t. holding d t \<longrightarrow> (\<exists>x \<in> set (steps m t). X x))"

lemma makes_later: "runs d m R \<Longrightarrow> (\<And>a. R a \<Longrightarrow> makes d (f a) X) \<Longrightarrow> makes d (seq m f) X"
  unfolding runs_def makes_def by (fastforce simp: seq_steps_outcome(2))

lemma makes_now: "makes d m X \<Longrightarrow> makes d (seq m f) X"
  unfolding makes_def
proof (intro allI impI)
  fix t assume "\<forall>t. holding d t \<longrightarrow> (\<exists>x \<in> set (steps m t). X x)" "holding d t"
  then show "\<exists>x \<in> set (steps (seq m f) t). X x"
    by (cases "outcome m t") (auto simp: seq_steps_outcome)
qed

definition completing :: "event list \<Rightarrow> bool" where
  "completing t \<longleftrightarrow> (\<exists>pre k o'. jphase k \<noteq> Complete \<and> t = pre @ [(Commit ''a:b'' (journal_document k o') (journal_document (adopted_journal Complete) o'), Done)])"

lemma sample_conclude: "makes d (conclude (sample d) (adopted_journal p)) completing"
proof -
  have save: "makes d (save (sample d) (adopted_journal Complete)) completing"
    using sample_save(2) [of Complete d] unfolding makes_def completing_def by blast
  have none: "runs d (lift (each f [])) (\<lambda>_. True)" for f :: "string \<times> canary \<Rightarrow> device_error + unit" by (rule runs_lift) simp_all
  show ?thesis unfolding conclude_def adopted_sel if_P [OF adopted_sel(12)]
    by (rule makes_later [OF runs_calls(1)], simp add: is_commit_def, simp add: sample_answers_def, rule makes_later [OF sample_fence],
        rule makes_later [OF none], rule save)
qed

lemma sample_proceed: "makes d (proceed (sample d) (adopted_journal RuntimeAdopted)) completing"
proof -
  have scope: "runs d (call (sample d) Scope) (\<lambda>_. True)" by (rule runs_calls) (simp_all add: is_commit_def sample_answers_def)
  have none: "runs d (lift (final_rows (sample d) (adopted_journal p) snaps)) (\<lambda>_. True)" for p snaps
    by (rule runs_lift) (simp_all add: final_rows_def adopted_sel)
  have finish: "makes d (finish (sample d) (adopted_journal p)) completing" for p
    unfolding finish_def deliver_def adopted_sel option.case fold_act.simps seq_prims
    by (rule makes_later [OF sample_recheck], rule makes_later [OF sample_fence], rule makes_later [OF none], rule sample_conclude)
  have node: "runs d (fold_act (write_node (sample d)) [''a:b''] (adopted_journal p)) (\<lambda>b. b = adopted_journal p)" for p
    by (auto simp: write_node_def after_at_def adopted_sel seq_assoc intro!: runs_seq [OF runs_lift] runs_seq [OF sample_fence] runs_ret)
  have adopt: "fold_act (adopt_node (sample d)) (sort [''a:b'']) (adopted_journal p) = ret (adopted_journal p)" for p
    by (simp add: adopt_node_def adopted_sel)
  have rest: "makes d (seq (fold_act (adopt_node (sample d)) (sort [''a:b'']) (adopted_journal AuthorityWritten)) (\<lambda>j.
      seq (save (sample d) (j\<lparr>jphase := RuntimeAdopted\<rparr>)) (\<lambda>_. seq (fold_act (confirm_grants (sample d)) (jgrants (j\<lparr>jphase := RuntimeAdopted\<rparr>))
        (j\<lparr>jphase := RuntimeAdopted\<rparr>)) (finish (sample d))))) completing"
    unfolding adopt seq_prims adopted_sel fold_act.simps by (rule makes_later [OF sample_save(1)]) (simp_all add: finish)
  show ?thesis unfolding proceed_def Let_def adopted_sel(3) sample_sel fold_act.simps(1) seq_prims adopted_sel(11)
  proof (rule makes_later [OF scope], rule makes_later [OF sample_fence], rule makes_later [OF node])
    fix b assume "b = adopted_journal RuntimeAdopted"
    then have b: "b\<lparr>jphase := AuthorityWritten\<rparr> = adopted_journal AuthorityWritten" by (simp add: adopted_sel)
    show "makes d (seq (save (sample d) (b\<lparr>jphase := AuthorityWritten\<rparr>)) (\<lambda>_.
        seq (fold_act (adopt_node (sample d)) (sort (runtime_hosts (sample d) (b\<lparr>jphase := AuthorityWritten\<rparr>))) (b\<lparr>jphase := AuthorityWritten\<rparr>)) (\<lambda>j.
        seq (save (sample d) (j\<lparr>jphase := RuntimeAdopted\<rparr>)) (\<lambda>_. seq (fold_act (confirm_grants (sample d)) (jgrants (j\<lparr>jphase := RuntimeAdopted\<rparr>))
          (j\<lparr>jphase := RuntimeAdopted\<rparr>)) (finish (sample d)))))) completing"
      unfolding b adopted_sel(10) using rest by (intro makes_later [OF sample_save(1)]) simp_all
  qed
qed

text \<open>The two fleets of the examples: one where all but the end of the operation is done, and one where it has only been prepared.\<close>

definition resumed :: document where
  "resumed = journal_document (adopted_journal RuntimeAdopted) sample_revoked"

definition prepared :: document where
  "prepared = journal_document (sample_journal Prepared []) sample_document"

lemma sample_digest [simp]: "digest (sample d) = sample_sha []"
  by (simp add: digest_def sample_sha_def)

lemma read_sample:
  assumes "validate_journal (sample d) j = Inr ()" "jmanifest j = sample_sha []"
  shows "read_journal (sample d) (journal_document j o') = Inr j"
  using assms by (simp add: read_journal_def journal_document_def Let_def)

lemma journal_sample:
  assumes "validate_journal (sample d) j = Inr ()" "jmanifest j = sample_sha []" "jphase j \<noteq> Complete" "d = journal_document j o'"
  shows "outcome (journal_of (sample d)) [] = Inr j" "holding d (after (journal_of (sample d)) [])"
  using read_sample [OF assms(1,2), of o'] assms(2-4)
  by (auto simp: journal_of_def ask_document_def ask_def seq_def sample_answers_def lift_def look_def Let_def after_def holding_def)

lemma resumed_completes: "\<exists>t \<in> set (steps (run (sample resumed)) []). completing t"
proof -
  have v: "validate_journal (sample resumed) (adopted_journal RuntimeAdopted) = Inr ()" by (rule sample_valid) simp_all
  note j = journal_sample [OF v _ _ resumed_def]
  from j have "outcome (journal_of (sample resumed)) [] = Inr (adopted_journal RuntimeAdopted)" "holding resumed (after (journal_of (sample resumed)) [])"
    by (simp_all add: sample_journal_def)
  moreover have "makes resumed (seq (proceed (sample resumed) (adopted_journal RuntimeAdopted)) (\<lambda>_. status (sample resumed))) completing"
    by (rule makes_now) (rule sample_proceed)
  ultimately show ?thesis unfolding run_def makes_def by (auto simp: seq_steps_outcome(2))
qed


definition replacing :: "event list \<Rightarrow> bool" where
  "replacing t \<longleftrightarrow> (\<exists>pre k o'. t = pre @ [(Commit ''a:b'' (journal_document k o') (journal_document k sample_revoked), Done)])"

lemma prepared_replaces: "\<exists>t \<in> set (steps (run (sample prepared)) []). replacing t"
proof -
  let ?L = "sample prepared" and ?j = "sample_journal Prepared []"
  have wr: "makes prepared (writer ?L ''a:b'' (put_candidate ?L ?j ''a:b'' sample_revoked)) replacing"
    unfolding makes_def
  proof (intro allI impI)
    fix t assume "holding prepared t"
    then obtain k o' where "kept_document prepared t = journal_document k o'" by (auto simp: holding_def)
    then show "\<exists>x \<in> set (steps (writer ?L ''a:b'' (put_candidate ?L ?j ''a:b'' sample_revoked)) t). replacing x"
      by (auto simp: writer_def ask_document_def call_def ask_def lift_def look_def seq_def put_candidate_def fingerprint_def sample_sha_def Let_def
          sample_answers_def replacing_def journal_document_def)
  qed
  have cand: "runs prepared (after_at ?j ''a:b'') (\<lambda>x. x = sample_revoked)" unfolding after_at_def by (rule runs_lift) (simp_all add: adopted_sel)
  have node: "makes prepared (write_node ?L ''a:b'' ?j) replacing" unfolding write_node_def
    by (rule makes_later [OF cand], rule makes_now) (simp add: adopted_sel makes_now [OF wr])
  have scope: "runs prepared (call ?L Scope) (\<lambda>_. True)" by (rule runs_calls) (simp_all add: is_commit_def sample_answers_def)
  have "makes prepared (proceed ?L ?j) replacing" unfolding proceed_def Let_def adopted_sel(3) sample_sel fold_act.simps(1) seq_prims adopted_sel(11)
    by (rule makes_later [OF scope], rule makes_later [OF sample_fence], rule makes_now) (simp add: makes_now [OF node])
  then have "makes prepared (seq (proceed ?L ?j) (\<lambda>_. status ?L)) replacing" by (rule makes_now)
  moreover have v: "validate_journal ?L ?j = Inr ()" by (rule sample_valid) simp_all
  have "outcome (journal_of ?L) [] = Inr ?j" "holding prepared (after (journal_of ?L) [])"
    using journal_sample [OF v _ _ prepared_def] by (simp_all add: sample_journal_def)
  ultimately show ?thesis unfolding run_def makes_def by (auto simp: seq_steps_outcome(2))
qed

theorem authority_changes_guarded_witness:
  "\<exists>pre found left a. pre @ [(Commit ''a:b'' found left, a)] \<in> set (steps (run (sample prepared)) []) \<and> own left = sample_revoked
     \<and> (own left = own found \<and> (\<exists>j. read_journal (sample prepared) left = Inr j \<and> intent j = intent (sample_journal Prepared []))
        \<or> operations left = operations found \<and> map_of (jafter (sample_journal Prepared [])) ''a:b'' = Some (own left))"
proof -
  obtain pre k o' where t: "pre @ [(Commit ''a:b'' (journal_document k o') (journal_document k sample_revoked), Done)] \<in> set (steps (run (sample prepared)) [])"
    using prepared_replaces by (auto simp: replacing_def)
  have v: "validate_journal (sample prepared) (sample_journal Prepared []) = Inr ()" by (rule sample_valid) simp_all
  have j: "outcome (journal_of (sample prepared)) [] = Inr (sample_journal Prepared [])"
    using journal_sample(1) [OF v _ _ prepared_def] by (simp add: sample_journal_def)
  have n: "mnodes (man (sample prepared)) \<noteq> []" by (simp add: adopted_sel)
  have oo: "own (journal_document k sample_revoked) = sample_revoked" by (simp add: journal_document_def)
  from authority_changes_guarded [OF n j t] t oo show ?thesis by blast
qed

text \<open>A fleet that cannot be reached.\<close>

theorem run_never_wedges_witness:
  "outcome (proceed (sample_lifecycle (\<lambda>_ _. Failed (Exc OSError))) (sample_journal Prepared [])) [] = Inl (Exc OSError)
     \<and> Exc OSError \<notin> {DeviceError ''invalid-device-operation-journal'', DeviceError ''device-revocation-intent-changed'', DeviceError ''incomplete-device-operation-evidence''}"
proof -
  let ?L = "sample_lifecycle (\<lambda>_ _. Failed (Exc OSError))"
  have "outcome (proceed ?L (sample_journal Prepared [])) [] = Inl (Exc OSError)" by (simp add: proceed_def call_def ask_def seq_def Let_def)
  moreover have "foreign ?L" "length (mpublishers (man ?L)) \<le> 16" by (simp_all add: foreign_def sample_manifest_def)
  moreover have "validate_journal ?L (sample_journal Prepared []) = Inr ()" "set (jadopted (sample_journal Prepared [])) \<subseteq> set (runtime_hosts ?L (sample_journal Prepared []))"
    by (rule sample_valid; simp) (simp add: sample_journal_def)
  ultimately show ?thesis using run_never_wedges [of ?L "sample_journal Prepared []" "[]" "Exc OSError"] by blast
qed

section \<open>The preparation of this revocation\<close>

text \<open>The same node before the operation, with the device in its document; what it answers does not depend on what was asked before.\<close>

definition fresh :: document where
  "fresh = \<lparr>own = sample_document, operations = None\<rparr>"

definition fresh_answers :: "event list \<Rightarrow> request \<Rightarrow> answer" where
  "fresh_answers t r = (case r of SourceIdentity \<Rightarrow> SourceIs sample_source | Read _ \<Rightarrow> DocumentIs fresh | Open _ \<Rightarrow> DocumentIs fresh
     | Endpoint _ \<Rightarrow> ValueIs (PStr ''192.0.2.1'') | _ \<Rightarrow> Done)"

definition sample_render :: "document \<Rightarrow> string \<Rightarrow> string \<Rightarrow> device_error + dict list" where
  "sample_render d h endpoint = Inr [sample_profile]"

abbreviation fleet :: lifecycle where
  "fleet \<equiv> sample_lifecycle fresh_answers"

definition leads :: "'a act \<Rightarrow> 'a \<Rightarrow> bool" where
  "leads m a \<longleftrightarrow> (\<forall>t. outcome m t = Inr a)"

definition reaches :: "'a act \<Rightarrow> (event list \<Rightarrow> bool) \<Rightarrow> bool" where
  "reaches m X \<longleftrightarrow> (\<forall>t. \<exists>x \<in> set (steps m t). X x)"

lemma leads_seq: "leads m a \<Longrightarrow> leads (f a) b \<Longrightarrow> leads (seq m f) b"
  by (simp add: leads_def seq_steps_outcome(2))

lemma leads_prims: "leads (ret a) a" "r = Inr a \<Longrightarrow> leads (lift r) a" "b \<Longrightarrow> leads (check b m) ()" "\<not> b \<Longrightarrow> leads (only_if b n) ()"
  by (simp_all add: leads_def run_prims lift_def check_def refuse_if_def only_if_def)

lemma reaches_seq: "leads m a \<Longrightarrow> reaches (f a) X \<Longrightarrow> reaches (seq m f) X"
  by (simp add: leads_def reaches_def seq_steps_outcome(2) bex_Un)

lemma reaches_now: "reaches m X \<Longrightarrow> reaches (seq m f) X"
  unfolding reaches_def
proof (intro allI)
  fix t assume "\<forall>t. \<exists>x \<in> set (steps m t). X x"
  then show "\<exists>x \<in> set (steps (seq m f) t). X x" by (cases "outcome m t") (auto simp: seq_steps_outcome)
qed

lemma leads_calls:
  "leads (call fleet Scope) ()" "leads (call fleet Revalidate) ()" "leads (source_identity fleet) sample_source"
  "leads (ask_document fleet (Read h)) fresh" "leads (ask_document fleet (Open h)) fresh" "leads (ask_text fleet (Endpoint h)) ''192.0.2.1''"
  by (simp_all add: leads_def call_def source_identity_def ask_document_def ask_text_def ask_def fresh_answers_def Let_def)

lemma discover_fresh: "discover (own fresh) ''phone'' = Inr [(''xray'', 1), (''awg'', 1), (''registry'', 1)]"
  by code_simp

lemma revoke_fresh: "revoke [(''a:b'', own fresh)] ''phone'' = Inr [(''a:b'', sample_revoked)]"
  by code_simp

lemma fresh_journal: "prepared_journal fleet sample_source [(''a:b'', fresh)] [(''a:b'', sample_revoked)] [(''a:b'', [sample_profile])] [] [] = sample_journal Prepared []"
  by (simp add: prepared_journal_def sample_journal_def revocation_intent_def sample_manifest_def digest_def fingerprint_def sample_sha_def Let_def)

lemma inspect_fresh:
  "\<exists>rv. leads (inspect fleet) ([(''a:b'', fresh)], [], [], rv) \<and> approval rv = sample_sha [] \<and> rsource rv = sample_source"
proof -
  let ?found = "[(''a:b'', [(''xray'', 1), (''awg'', 1), (''registry'', 1)])]"
  have m: "maction sample_manifest = Revoke" "mdevice sample_manifest = ''phone''" "mnodes sample_manifest = [''a:b'']" "mpublishers sample_manifest = []" "\<not> native sample_manifest"
    by (simp_all add: sample_manifest_def native_def)
  have docs: "leads (documents fleet) [(''a:b'', fresh)]" unfolding documents_def
    by (rule leads_seq [OF leads_calls(2)]) (auto simp: m intro!: leads_seq leads_calls leads_prims)
  have snaps: "leads (snapshots fleet) []" by (simp add: snapshots_def m leads_prims)
  have "records fresh = []" by (simp add: records_def fresh_def)
  then have survey: "survey fleet [(''a:b'', fresh)] [] = Inr (?found, [])"
    by (simp add: survey_def m discover_fresh bind_res_def admissible_def nothing_def Let_def)
  have "leads (inspect fleet) ([(''a:b'', fresh)], [], [], review_of fleet sample_source [(''a:b'', fresh)] [] ?found [])"
    unfolding inspect_def
    by (rule leads_seq [OF leads_calls(1)], rule leads_seq [OF leads_calls(3)], rule leads_seq [OF leads_prims(4)], simp add: m,
        rule leads_seq [OF docs], rule leads_seq [OF snaps], rule leads_seq [OF leads_prims(2) [OF survey]]) (simp add: leads_prims)
  then show ?thesis by (intro exI conjI, assumption) (simp_all add: review_of_def approval_of_def sample_sha_def)
qed

definition preparing :: "event list \<Rightarrow> bool" where
  "preparing t \<longleftrightarrow> (\<exists>pre. t = pre @ [(Commit ''a:b'' fresh (journal_document (sample_journal Prepared []) sample_document), Done)])"

lemma save_fresh: "reaches (save fleet (sample_journal Prepared [])) preparing"
proof -
  have size: "length (encoded (journal_value (sample_journal Prepared []))) \<le> MAX_BYTES div 2"
    using length_encoded [of "journal_value (sample_journal Prepared [])"] sample_value_bound [of Prepared "[]"] by (simp add: MAX_BYTES_def phase_text_def)
  have v: "validate_journal fleet (sample_journal Prepared []) = Inr ()" by (rule sample_valid) simp_all
  have put: "put_journal fleet (sample_journal Prepared []) fresh = Inr (journal_document (sample_journal Prepared []) sample_document)"
    by (simp add: put_journal_def fresh_def journal_document_def sample_journal_def sample_manifest_def fingerprint_def sample_sha_def Let_def bind_res_def)
  have commit: "reaches (call fleet (Commit ''a:b'' fresh (journal_document (sample_journal Prepared []) sample_document))) preparing"
    by (auto simp: reaches_def call_def ask_def fresh_answers_def preparing_def Let_def)
  have j: "mjournal_host sample_manifest = ''a:b''" by (simp add: sample_manifest_def)
  have src: "leads (check (sample_source = jsource (sample_journal Prepared [])) m) ()" for m by (rule leads_prims) (simp add: adopted_sel)
  show ?thesis unfolding save_def writer_def sample_sel j
    by (rule reaches_seq [OF leads_prims(3) [OF size]], rule reaches_seq [OF leads_prims(2) [OF v]], rule reaches_seq [OF leads_calls(2)],
        rule reaches_seq [OF leads_calls(3)], rule reaches_seq [OF src], rule reaches_seq [OF leads_calls(5)], rule reaches_seq [OF leads_prims(2) [OF put]], rule commit)
qed

lemma prepare_fresh: "\<exists>t \<in> set (steps (prepare_revocation fleet sample_render (sample_sha [])) []). preparing t"
proof -
  from inspect_fresh obtain rv where rv: "leads (inspect fleet) ([(''a:b'', fresh)], [], [], rv)" "approval rv = sample_sha []" "rsource rv = sample_source" by blast
  have m: "mdevice sample_manifest = ''phone''" "mpublishers sample_manifest = []" by (simp_all add: sample_manifest_def)
  have ok: "leads (check (sample_sha [] = approval rv) x) ()" for x by (rule leads_prims) (simp add: rv(2))
  have left: "leads (lift (revoke (map (\<lambda>node. (fst node, own (snd node))) [(''a:b'', fresh)]) ''phone'')) [(''a:b'', sample_revoked)]"
    by (rule leads_prims) (simp add: revoke_fresh)
  have "leads (profiles_at fleet sample_render (''a:b'', fresh) []) [(''a:b'', [sample_profile])]" unfolding profiles_at_def sample_sel m
    by (rule leads_seq [OF leads_prims(2)], simp add: discover_fresh) (auto simp: sample_render_def intro!: leads_seq leads_calls leads_prims)
  then have profiles: "leads (fold_act (profiles_at fleet sample_render) [(''a:b'', fresh)] []) [(''a:b'', [sample_profile])]"
    unfolding fold_act.simps by (rule leads_seq) (simp add: leads_prims)
  have "reaches (prepare_revocation fleet sample_render (sample_sha [])) preparing" unfolding prepare_revocation_def sample_sel m
    by (rule reaches_seq [OF rv(1)], unfold prod.case, rule reaches_seq [OF ok], rule reaches_seq [OF left], rule reaches_seq [OF profiles])
      (simp add: rv(3) fresh_journal reaches_now [OF save_fresh])
  then show ?thesis by (simp add: reaches_def)
qed


end
