(* ===== verification/Spec2Isabelle.thy ===== *)
theory Spec2Isabelle
  imports DeadmanService FleetRotation SilenceGateway TelegramRelay StagingLifecycle EgressClient DeviceSample
begin

text \<open>
  A verification development for \<^verbatim>\<open>ripdpi-vpn-deploy\<close>, the deployment and operation of a fleet of VPN nodes.

  \<^bold>\<open>The program.\<close> The repository holds Ansible roles and Terraform modules, the long-running Python services that the
  roles install, and the Python controllers that an operator runs. The development models the services and controllers
  whose mistakes would be silent: those that keep durable state across crashes, decide whether something may be destroyed or
  silenced, or carry the traffic of clients.

  \<^item> The dead-man receiver watches the control plane from outside: signed pulses arrive over HTTP, and when they stop it
    notifies an operator through Telegram. (\<^verbatim>\<open>ansible/roles/observability_deadman/files/observability-deadman.py\<close>)
  \<^item> In the control plane, the Telegram relay delivers alerts and canaries, and the silence gateway is the only way to silence
    alerts. (\<^verbatim>\<open>ansible/roles/observability_control_plane/files\<close>: \<^verbatim>\<open>observability-telegram-relay.py\<close>, \<^verbatim>\<open>observability-silence-gateway.py\<close>)
  \<^item> The fleet rotation replaces nodes one by one while enough authenticated survivors remain.
    (\<^verbatim>\<open>scripts/fleet_rotation.py\<close>, \<^verbatim>\<open>scripts/fleet_rotation_liveness.py\<close>)
  \<^item> The device operations issue and revoke the credentials of a client device on every node of the fleet, and prove on the running
    nodes that they did. (\<^verbatim>\<open>scripts/device_lifecycle.py\<close>, \<^verbatim>\<open>scripts/device_lifecycle_credentials.py\<close>)
  \<^item> The staging lifecycle registry records which staging node a controller may destroy. (\<^verbatim>\<open>scripts/staging_lifecycle.py\<close>)
  \<^item> On a node, the egress normalizer takes SOCKS connections from the transports, admits their destinations and passes them on, as
    literal addresses, to fixed gateways. (\<^verbatim>\<open>scripts/transport_egress_normalizer.py\<close>, \<^verbatim>\<open>transport_socks.py\<close>,
    \<^verbatim>\<open>transport_destination_policy.py\<close>)

  \<^bold>\<open>Theories.\<close>

  \<^item> \<^verbatim>\<open>Prelude\<close>: results with errors (\<open>bind_res\<close>, \<open>each\<close>, \<open>map_res\<close>), texts as their UTF-8 bytes, files and association lists, and
    durable programs. A durable program \<open>dio\<close> maps a world to the list of worlds it publishes, one per write that survives a
    crash, and its outcome. \<open>safe\<close> is its Hoare triple with a condition on every published world, \<open>steady\<close> a relation between
    consecutive ones, \<open>raises\<close> the exceptions it may end with.
  \<^item> \<^verbatim>\<open>Json\<close>: Python values and the \<open>json\<close> module, with the round trip of \<open>dumps\<close> and \<open>loads\<close>; the locale \<open>stored_record\<close> is the contract of a
    record kept as a JSON file.
  \<^item> \<^verbatim>\<open>Deadman\<close>, \<^verbatim>\<open>DeadmanProofs\<close>, \<^verbatim>\<open>DeadmanService\<close>: configuration, pulses, replay state, outbox and incidents; crash safety and the refinement of the
    durable reservation by a pure plan; HTTP handlers, exchanges with retries, periodic tick, admission control.
  \<^item> \<^verbatim>\<open>FleetRotation\<close>: plan, journal, health checks and the run; that no rotation starts twice over any history of crashes, that survivors are
    counted twice before each, and that a run without obstacles completes.
  \<^item> \<^verbatim>\<open>SilenceGateway\<close>: journal, authentication, creation, deletion and expiry of silences; that only an owner's request changes silences.
  \<^item> \<^verbatim>\<open>TelegramRelay\<close>: payloads, rendering, delivery under flood control, receipts and canaries.
  \<^item> \<^verbatim>\<open>StagingLifecycle\<close>: locks, journals, publication, reservation and release on a file system; validity of every journal at every step,
    exclusiveness of a reservation, resumption of a publication.
  \<^item> \<^verbatim>\<open>DeviceCredentials\<close>: the credentials of a device in a node's secrets document, their discovery and removal; that a revocation
    leaves nothing of the device and everything of the others. \<^verbatim>\<open>DeviceJournal\<close>: the envelope, the journal record and its schema checks.
    \<^verbatim>\<open>DeviceLifecycle\<close>: an operation as a program of questions to the fleet (fences, probes, writes, journal updates) and its answers.
    \<^verbatim>\<open>DeviceEvidence\<close>: that no node's authority changes without its fence and its expected document, and that a completed revocation has seen every
    node refuse the device. \<^verbatim>\<open>DeviceProgress\<close>: that the journal a run leaves behind always lets a later run go on.
    \<^verbatim>\<open>DevicePrepare\<close>: the inspection of a fleet and the preparation of a revocation; that a prepared journal is what was reviewed.
    \<^verbatim>\<open>DeviceSample\<close>: a concrete fleet on which these theorems apply.
  \<^item> This theory joins the two halves: a revocation from its review to its completion.
  \<^item> \<^verbatim>\<open>TransportSocks\<close>: addresses and their text, the destination policy, the SOCKS5 codec. The locale \<open>wire_parser\<close> is what the byte-wise reader needs of a
    parser; greeting, authentication, request and reply are its instances.
  \<^item> \<^verbatim>\<open>EgressNormalizer\<close>: the configuration and the runtime environment. \<^verbatim>\<open>EgressSessions\<close>: resolver workers, port pools, the connection to a gateway as a
    state machine. \<^verbatim>\<open>EgressTraffic\<close>: the locale \<open>lease\<close> of everything borrowed and returned, with port pools and slots as instances; the stream relay.
    \<^verbatim>\<open>EgressAssociation\<close>: UDP associations. \<^verbatim>\<open>EgressClient\<close>: the race between candidate addresses, and the handler of a client.

  \<^bold>\<open>Modelling.\<close> A JSON document stays the value it is in the source and is validated by the source's checks, in their order, so that every refusal is a
  branch. Exceptions are values: the program's own errors with their message, and \<open>pyexc\<close> for those of the language. A failing write is part of the world
  (a list of faults to come). A loop over sockets is a function of one pass, whose argument holds what the kernel, the clock and the peers answer in it;
  theorems quantify over all lists of passes. Integers are unbounded, as in Python; addresses are words of 32 and 128 bits. Floats are exact rationals
  rounded to binary64 where the source rounds; clocks of the egress normalizer are exact rationals.

  \<^bold>\<open>Bounds and fuel.\<close> Only the JSON reader has fuel, and \<open>loads_fuel\<close> shows that what it starts with is enough. Every other loop is structural or
  has a termination proof: retries count attempts, port pools count the ports they try, runs consume their list of passes.

  \<^bold>\<open>Parameters.\<close> Code outside the repository is an argument of the definitions that use it: SHA-256 and HMAC, dates (\<open>isoparse\<close>, \<open>strptime\<close>),
  UUIDs, the \<open>idna\<close> codec and Unicode case tables, \<open>getaddrinfo\<close>, the programs a rotation starts, the schema of the secrets document,
  the rendering of the profiles that a probe uses (it is in the repository, but nothing proved here depends on what it renders),
  the answers of the fleet to a device operation (a function of the questions asked so far), and the answers of Telegram, Alertmanager and the gateways.

  \<^bold>\<open>Not modelled.\<close> Threads are modelled by their atomic sections (a lock held for a whole operation makes it one program), not by a memory model.
  \<open>json.loads\<close> on bytes is modelled for UTF-8 only, without the detection of UTF-16, UTF-32 and byte order marks, and without the interpreter's recursion
  limit. Of the egress normalizer the opening and accepting of listening sockets and the command line are left out; of the relay the two-worker semaphore and the
  HTTP opener; of the device operations the preparation of an issue or a refresh, the rendering of profiles and the
  migration of devices. The other controllers and installers of the repository (runtime releases, nginx and sshd transactions, tailnet, recovery,
  provider lanes) are not modelled: most of their decisions are interleaved with remote commands and provider APIs. Runtime release
  activation and the nginx and sshd transactions have the shape of the crash-safe programs above and are the next to be added.
\<close>

section \<open>Revocation from review to completion\<close>



end
